(* ===== verification/Prelude.thy ===== *)
theory Prelude
  imports Main "HOL-Library.Word" "HOL-Library.Monad_Syntax" "HOL-Library.Signed_Division"
begin

text \<open>
  Shared vocabulary of the development: machine integer types, byte access to C buffers,
  byte order, the collections of facts that the component proofs use, and generic lemmas on
  lists and options.

  A C buffer is the list of its bytes and a pointer into it is an offset. Every read is
  checked against the extent of the buffer: a read outside is undefined behaviour of the C
  program and is the value \<open>None\<close>; a computation that goes through is \<open>Some\<close> of
  its result. The byte order is little endian, as on every Android ABI.
\<close>

unbundle bit_operations_syntax

section \<open>Types\<close>

type_synonym u8 = "8 word"
type_synonym u16 = "16 word"
type_synonym u32 = "32 word"
type_synonym bytes = "u8 list"

named_theorems wire_simps \<open>layout of headers in buffers\<close>
named_theorems frame_simps \<open>fields an operation leaves alone\<close>
named_theorems inv_intros \<open>preservation of component invariants\<close>

section \<open>C integer conversions\<close>

text \<open>\<open>size_t\<close> has 64 bits; a subtraction of a larger value wraps around.\<close>

definition size_sub :: "nat \<Rightarrow> nat \<Rightarrow> nat" where
  "size_sub a b = (if b \<le> a then a - b else 2 ^ 64 + a - b)"

text \<open>Conversion of a wider signed value to a 32-bit \<open>int\<close>.\<close>

definition to_int32 :: "int \<Rightarrow> int" where
  "to_int32 x = signed_take_bit 31 x"

text \<open>The value a signed 64-bit quantity has when it is compared with a \<open>size_t\<close>.\<close>

definition ssize_to_size :: "int \<Rightarrow> int" where
  "ssize_to_size x = x mod 2 ^ 64"

text \<open>Shifts of a \<open>uint32_t\<close>; a count of 32 or more is undefined behaviour.\<close>

definition shr32 :: "u32 \<Rightarrow> u8 \<Rightarrow> u32 option" where
  "shr32 w k = (if unat k < 32 then Some (drop_bit (unat k) w) else None)"

definition shl32 :: "u32 \<Rightarrow> u8 \<Rightarrow> u32 option" where
  "shl32 w k = (if unat k < 32 then Some (push_bit (unat k) w) else None)"

text \<open>
  Left shift of a \<open>uint16_t\<close>, which is promoted to \<open>int\<close>: undefined when the value does not
  fit in 31 bits.
\<close>

definition shl_int :: "u16 \<Rightarrow> u8 \<Rightarrow> u32 option" where
  "shl_int w k = (if unat k < 32 \<and> unat w * 2 ^ unat k < 2 ^ 31
                  then Some (of_nat (unat w * 2 ^ unat k)) else None)"

lemma size_sub_le [simp]: "b \<le> a \<Longrightarrow> size_sub a b = a - b"
  by (simp add: size_sub_def)

lemma to_int32_id: "- (2 ^ 31) \<le> x \<Longrightarrow> x < 2 ^ 31 \<Longrightarrow> to_int32 x = x"
  by (simp add: to_int32_def signed_take_bit_int_eq_self)

lemma ssize_to_size_nonneg: "0 \<le> x \<Longrightarrow> x < 2 ^ 64 \<Longrightarrow> ssize_to_size x = x"
  by (simp add: ssize_to_size_def)

lemma unat_u8: "unat (w :: u8) < 256"
  using unsigned_less [where ?'a = nat, of w] by simp

lemma unat_u16: "unat (w :: u16) < 65536"
  using unsigned_less [where ?'a = nat, of w] by simp

lemma unat_u32: "unat (w :: u32) < 4294967296"
  using unsigned_less [where ?'a = nat, of w] by simp

lemmas unat_bounds = unat_u8 unat_u16 unat_u32

section \<open>Checked reads\<close>

definition rd8 :: "bytes \<Rightarrow> nat \<Rightarrow> u8 option" where
  "rd8 m i = (if i < length m then Some (m ! i) else None)"

definition le16 :: "u8 \<Rightarrow> u8 \<Rightarrow> u16" where
  "le16 a b = ucast a + 256 * ucast b"

definition le32 :: "u8 \<Rightarrow> u8 \<Rightarrow> u8 \<Rightarrow> u8 \<Rightarrow> u32" where
  "le32 a b c d = ucast a + 256 * ucast b + 65536 * ucast c + 16777216 * ucast d"

definition rd16 :: "bytes \<Rightarrow> nat \<Rightarrow> u16 option" where
  "rd16 m i = do { a \<leftarrow> rd8 m i; b \<leftarrow> rd8 m (i + 1); Some (le16 a b) }"

definition rd32 :: "bytes \<Rightarrow> nat \<Rightarrow> u32 option" where
  "rd32 m i = do { a \<leftarrow> rd8 m i; b \<leftarrow> rd8 m (i + 1); c \<leftarrow> rd8 m (i + 2);
                   d \<leftarrow> rd8 m (i + 3); Some (le32 a b c d) }"

text \<open>\<open>memcpy\<close> out of a buffer reads \<open>n\<close> bytes from offset \<open>i\<close>.\<close>

definition rd_block :: "bytes \<Rightarrow> nat \<Rightarrow> nat \<Rightarrow> bytes option" where
  "rd_block m i n = (if i + n \<le> length m then Some (take n (drop i m)) else None)"

text \<open>A write of \<open>b\<close> at offset \<open>i\<close>.\<close>

definition wr_block :: "bytes \<Rightarrow> nat \<Rightarrow> bytes \<Rightarrow> bytes option" where
  "wr_block q i b = (if i + length b \<le> length q then Some (take i q @ b @ drop (i + length b) q)
                     else None)"

lemma length_wr_block: "wr_block q i b = Some q' \<Longrightarrow> length q' = length q"
  by (auto simp: wr_block_def split: if_splits)

lemma wr_block_at:
  assumes "length a = i" and "length b' = length b"
  shows "wr_block (a @ b' @ c) i b = Some (a @ b @ c)"
  using assms by (simp add: wr_block_def)

subsection \<open>Steps of a computation and searches\<close>

text \<open>A call whose result is only handed on.\<close>

lemma bind3_Some:
  "(x \<bind> (\<lambda>(res, t, w). Some (f res t, w))) = Some (t', w') \<longleftrightarrow>
     (\<exists>res t. x = Some (res, t, w') \<and> t' = f res t)"
  by (cases x) auto

lemma bind2_Some:
  "(x \<bind> (\<lambda>(t, w). Some (g t, w))) = Some (s', w') \<longleftrightarrow> (\<exists>t. x = Some (t, w') \<and> s' = g t)"
  by (cases x) auto

lemma extract_split:
  "List.extract P xs = Some (ys, x, zs) \<Longrightarrow> xs = ys @ x # zs \<and> P x \<and> (\<forall>y \<in> set ys. \<not> P y)"
  using extract_Some_iff [of P xs ys x zs] by auto

section \<open>Byte order\<close>

definition bytes16 :: "u16 \<Rightarrow> bytes" where
  "bytes16 w = [ucast w, ucast (drop_bit 8 w)]"

definition bytes32 :: "u32 \<Rightarrow> bytes" where
  "bytes32 w = [ucast w, ucast (drop_bit 8 w), ucast (drop_bit 16 w), ucast (drop_bit 24 w)]"

text \<open>\<open>ntohs\<close>, \<open>htons\<close>, \<open>ntohl\<close> and \<open>htonl\<close> of a little endian machine.\<close>

definition ntohs :: "u16 \<Rightarrow> u16" where
  "ntohs w = le16 (ucast (drop_bit 8 w)) (ucast w)"

abbreviation htons :: "u16 \<Rightarrow> u16" where "htons \<equiv> ntohs"

definition ntohl :: "u32 \<Rightarrow> u32" where
  "ntohl w = le32 (ucast (drop_bit 24 w)) (ucast (drop_bit 16 w))
                  (ucast (drop_bit 8 w)) (ucast w)"

abbreviation htonl :: "u32 \<Rightarrow> u32" where "htonl \<equiv> ntohl"

subsection \<open>Values of the byte combinations\<close>

lemma unat_le16: "unat (le16 a b) = unat a + 256 * unat b"
proof -
  have "unat a < 256" "unat b < 256"
    by (simp_all add: unat_u8)
  then show ?thesis
    by (simp add: le16_def unat_word_ariths unsigned_ucast_eq take_bit_eq_mod)
qed

lemma unat_le32:
  "unat (le32 a b c d) = unat a + 256 * unat b + 65536 * unat c + 16777216 * unat d"
proof -
  have "unat a < 256" "unat b < 256" "unat c < 256" "unat d < 256"
    by (simp_all add: unat_u8)
  then show ?thesis
    by (simp add: le32_def unat_word_ariths unsigned_ucast_eq take_bit_eq_mod)
qed

lemma unat_drop_bit_div: "unat (drop_bit n (w :: 'a::len word)) = unat w div 2 ^ n"
  by (simp add: unat_drop_bit_eq drop_bit_nat_def)

lemma unat_byte: "unat (ucast (drop_bit n (w :: 'a::len word)) :: u8) = unat w div 2 ^ n mod 256"
  by (simp add: unsigned_ucast_eq unat_drop_bit_eq take_bit_eq_mod drop_bit_nat_def)

lemma unat_ucast_mod:
  "unat (ucast (w :: 'a::len word) :: 'b::len word) = unat w mod 2 ^ LENGTH('b)"
  by (simp add: unsigned_ucast_eq take_bit_eq_mod)

lemma unat_of_nat8: "n < 256 \<Longrightarrow> unat (of_nat n :: u8) = n"
  by (simp add: unat_of_nat take_bit_eq_mod)

lemma unat_of_nat16: "n < 65536 \<Longrightarrow> unat (of_nat n :: u16) = n"
  by (simp add: unat_of_nat take_bit_eq_mod)

lemma unat_byte0: "unat (ucast (w :: 'a::len word) :: u8) = unat w mod 256"
  by (simp add: unsigned_ucast_eq take_bit_eq_mod)

lemma le16_bytes: "le16 (ucast w) (ucast (drop_bit 8 w)) = w"
proof (rule unsigned_word_eqI)
  have "unat w < 65536" by (rule unat_u16)
  then have "unat w div 256 < 256" by (simp add: less_mult_imp_div_less)
  then show "unat (le16 (ucast w) (ucast (drop_bit 8 w))) = unat w"
    by (simp add: unat_le16 unat_byte unat_byte0 unat_drop_bit_div)
qed

lemma digits256:
  fixes n :: nat
  shows "n mod 256 + 256 * (n div 256 mod 256) + 65536 * (n div 65536 mod 256)
           + 16777216 * (n div 16777216) = n"
proof -
  have "n = 256 * (n div 256) + n mod 256" by simp
  moreover have "n div 256 = 256 * (n div 65536) + n div 256 mod 256"
    using mult_div_mod_eq [of 256 "n div 256"] by (simp add: div_mult2_eq [symmetric])
  moreover have "n div 65536 = 256 * (n div 16777216) + n div 65536 mod 256"
    using mult_div_mod_eq [of 256 "n div 65536"] by (simp add: div_mult2_eq [symmetric])
  ultimately show ?thesis by linarith
qed

lemma le32_bytes:
  "le32 (ucast w) (ucast (drop_bit 8 w)) (ucast (drop_bit 16 w)) (ucast (drop_bit 24 w)) = w"
proof (rule unsigned_word_eqI)
  have "unat w < 4294967296" by (rule unat_u32)
  then show "unat (le32 (ucast w) (ucast (drop_bit 8 w)) (ucast (drop_bit 16 w))
                        (ucast (drop_bit 24 w))) = unat w"
    by (simp add: unat_le32 unat_byte unat_byte0 unat_drop_bit_div digits256)
qed

lemma unat_le16_lo: "(ucast (le16 a b) :: u8) = a"
  using unat_u8 [of a] by (intro unsigned_word_eqI [where ?'a = nat]) (simp add: unat_byte0 unat_le16)

lemma unat_le16_hi: "(ucast (drop_bit 8 (le16 a b)) :: u8) = b"
  using unat_u8 [of a] unat_u8 [of b]
  by (intro unsigned_word_eqI [where ?'a = nat]) (simp add: unat_byte unat_le16 unat_drop_bit_div)

lemma ntohs_ntohs [simp]: "ntohs (ntohs w) = w"
  by (simp add: ntohs_def unat_le16_lo unat_le16_hi le16_bytes)

lemma digit256: "(a :: nat) < 256 \<Longrightarrow> (a + 256 * r) mod 256 = a" "a < 256 \<Longrightarrow> (a + 256 * r) div 256 = r"
  by simp_all

lemma unat_le32_bytes:
  "unat (ucast (le32 a b c d) :: u8) = unat a"
  "unat (ucast (drop_bit 8 (le32 a b c d)) :: u8) = unat b"
  "unat (ucast (drop_bit 16 (le32 a b c d)) :: u8) = unat c"
  "unat (ucast (drop_bit 24 (le32 a b c d)) :: u8) = unat d"
proof -
  note u = unat_u8 [of a] unat_u8 [of b] unat_u8 [of c] unat_u8 [of d]
  let ?n = "unat (le32 a b c d)"
  have n: "?n = unat a + 256 * (unat b + 256 * (unat c + 256 * unat d))"
    by (simp add: unat_le32)
  have d1: "?n div 256 = unat b + 256 * (unat c + 256 * unat d)"
    unfolding n using u(1) by (rule digit256)
  then have d2: "?n div 256 div 256 = unat c + 256 * unat d" using u(2) by (simp only: digit256)
  then have d3: "?n div 256 div 256 div 256 = unat d" using u(3) by (simp only: digit256)
  have e: "?n div 65536 = ?n div 256 div 256" "?n div 16777216 = ?n div 256 div 256 div 256"
    by (simp_all add: div_mult2_eq [symmetric])
  have p: "(2 :: nat) ^ 8 = 256" "(2 :: nat) ^ 16 = 65536" "(2 :: nat) ^ 24 = 16777216" by simp_all
  show "unat (ucast (le32 a b c d) :: u8) = unat a"
    unfolding unat_byte0 n using u(1) by (rule digit256)
  show "unat (ucast (drop_bit 8 (le32 a b c d)) :: u8) = unat b"
    unfolding unat_byte p d1 using u(2) by (rule digit256)
  show "unat (ucast (drop_bit 16 (le32 a b c d)) :: u8) = unat c"
    unfolding unat_byte p e d2 using u(3) by (rule digit256)
  show "unat (ucast (drop_bit 24 (le32 a b c d)) :: u8) = unat d"
    unfolding unat_byte p e d3 using u(4) by simp
qed

lemma ntohl_ntohl [simp]: "ntohl (ntohl w) = w"
proof -
  have "(ucast (le32 a b c d) :: u8) = a" "(ucast (drop_bit 8 (le32 a b c d)) :: u8) = b"
    "(ucast (drop_bit 16 (le32 a b c d)) :: u8) = c" "(ucast (drop_bit 24 (le32 a b c d)) :: u8) = d"
    for a b c d
    by (intro unsigned_word_eqI [where ?'a = nat]; simp only: unat_le32_bytes)+
  then show ?thesis by (simp add: ntohl_def le32_bytes)
qed

lemma ntohs_of_nat: "n < 65536 \<Longrightarrow> unat (ntohs (htons (of_nat n))) = n"
  by (simp add: unat_of_nat16)

end
