(* ===== verification/Checksum.thy ===== *)
theory Checksum
  imports Prelude
begin

text \<open>
  The Internet checksum as an interface. \<open>wsum\<close> is the sum of the 16-bit little endian
  words of a buffer (an odd last byte counts as a word of its own), and \<open>oc\<close> is what the
  end-around carry makes of a sum. A routine that computes \<open>oc (start + wsum buffer)\<close>
  can be continued over consecutive pieces of even length, and a field that holds the
  complement of the checksum taken with the field zero makes the whole sum to 65535, which
  is what a receiver tests. The code's routine is shown to be one in theory \<open>Util\<close>.
\<close>

section \<open>Word sums\<close>

fun wsum :: "bytes \<Rightarrow> nat" where
  "wsum [] = 0"
| "wsum [a] = unat a"
| "wsum (a # b # r) = unat a + 256 * unat b + wsum r"

lemma wsum_append: "even (length a) \<Longrightarrow> wsum (a @ b) = wsum a + wsum b"
  by (induction a rule: wsum.induct) auto

lemma wsum_bound: "wsum a \<le> 65535 * ((length a + 1) div 2)"
proof (induction a rule: wsum.induct)
  case (2 a)
  have "unat a < 256" by (rule unat_u8)
  then show ?case by simp
next
  case (3 a b r)
  have "unat a < 256" "unat b < 256" by (simp_all add: unat_u8)
  with 3 show ?case by simp
qed simp

lemma wsum_bytes16 [simp]: "wsum (bytes16 w) = unat w"
proof -
  have "wsum (bytes16 w) = unat (le16 (ucast w) (ucast (drop_bit 8 w)))"
    unfolding unat_le16 by (simp add: bytes16_def)
  then show ?thesis by (simp only: le16_bytes)
qed

lemma length_bytes16 [simp]: "length (bytes16 w) = 2"
  by (simp add: bytes16_def)

lemma length_bytes32 [simp]: "length (bytes32 w) = 4"
  by (simp add: bytes32_def)

section \<open>End-around carry\<close>

definition oc :: "nat \<Rightarrow> nat" where
  "oc n = (if n = 0 then 0 else if n mod 65535 = 0 then 65535 else n mod 65535)"

lemma oc_le: "oc n \<le> 65535"
  by (simp add: oc_def less_imp_le)

lemma oc_small: "n \<le> 65535 \<Longrightarrow> oc n = n"
  by (cases "n = 65535") (simp_all add: oc_def)

lemma oc_cong: "n mod 65535 = m mod 65535 \<Longrightarrow> 0 < n \<Longrightarrow> 0 < m \<Longrightarrow> oc n = oc m"
  by (simp add: oc_def)

lemma oc_mod: "oc n mod 65535 = n mod 65535"
  by (simp add: oc_def)

lemma oc_add_oc: "oc (oc a + b) = oc (a + b)"
proof (cases "a = 0")
  case True
  then show ?thesis by (simp add: oc_def)
next
  case False
  have "(oc a + b) mod 65535 = (a + b) mod 65535"
    by (metis mod_add_left_eq oc_mod)
  moreover have "0 < oc a" using False by (simp add: oc_def)
  ultimately show ?thesis using False by (intro oc_cong) simp_all
qed

lemma oc_complement: "oc (n + (65535 - oc n)) = 65535"
proof (cases "n = 0")
  case True
  then show ?thesis by (simp add: oc_def)
next
  case False
  have "(n + (65535 - oc n)) mod 65535 = (oc n + (65535 - oc n)) mod 65535"
    by (metis mod_add_left_eq oc_mod)
  also have "\<dots> = 0" using oc_le [of n] by simp
  finally have "oc (n + (65535 - oc n)) = 65535 \<or> n + (65535 - oc n) = 0"
    by (simp only: oc_def) simp
  then show ?thesis using False by simp
qed

section \<open>The interface of a checksum routine\<close>

lemma unat_not16: "unat (NOT (w :: u16)) = 65535 - unat w"
proof -
  have "NOT w = 65535 - w" by (simp add: not_eq_complement)
  moreover have "w \<le> 65535"
    using unat_u16 [of w] by (simp add: word_le_nat_alt)
  ultimately show ?thesis by (simp add: unat_sub)
qed

definition ck_max :: nat where "ck_max = 131070"

locale inet_checksum =
  fixes ck :: "u16 \<Rightarrow> bytes \<Rightarrow> u16"
  assumes ck_val: "length bs \<le> ck_max \<Longrightarrow> unat (ck s bs) = oc (unat s + wsum bs)"
begin

lemma ck_append:
  assumes "even (length a)" and "length (a @ b) \<le> ck_max"
  shows "ck (ck s a) b = ck s (a @ b)"
proof (rule unsigned_word_eqI)
  have "unat (ck (ck s a) b) = oc (unat (ck s a) + wsum b)"
    using assms by (simp add: ck_val)
  also have "\<dots> = oc (unat s + wsum (a @ b))"
    using assms by (simp add: ck_val oc_add_oc wsum_append add.assoc)
  finally show "unat (ck (ck s a) b) = unat (ck s (a @ b))"
    using assms by (simp add: ck_val)
qed

text \<open>
  The checksum field lies at an even offset: \<open>pre\<close> and \<open>post\<close> are the bytes around
  it. Filling it with the complement of the checksum taken over the zeroed field makes the
  sum 65535.
\<close>

lemma ck_seal:
  assumes "even (length pre)" and "length pre + length post + 2 \<le> ck_max"
    and "c = NOT (ck s (pre @ bytes16 0 @ post))"
  shows "ck s (pre @ bytes16 c @ post) = 0xFFFF"
proof -
  let ?n = "unat s + wsum pre + wsum post"
  have c: "unat c = 65535 - oc ?n"
    using assms by (simp add: unat_not16 ck_val wsum_append add.assoc)
  have "unat (ck s (pre @ bytes16 c @ post)) = oc (?n + (65535 - oc ?n))"
    using assms(1,2) by (simp add: ck_val wsum_append c add.assoc) (simp add: ac_simps)
  then show ?thesis by (intro unsigned_word_eqI) (simp add: oc_complement)
qed

end

end
