(* ===== verification/Util.thy ===== *)
theory Util
  imports Checksum
begin

text \<open>
  The helper routines of \<open>util.c\<close>: the Internet checksum, the port of a socket, the comparison of TCP sequence
  numbers, hexadecimal conversion, trimming and the names of the TCP states.
\<close>

section \<open>Checksum\<close>

text \<open>The first loop and the odd last byte: the sum runs in a 32-bit register.\<close>

fun csum_words :: "u32 \<Rightarrow> bytes \<Rightarrow> u32" where
  "csum_words acc (a # b # r) = csum_words (acc + ucast (le16 a b)) r"
| "csum_words acc [a] = acc + ucast a"
| "csum_words acc [] = acc"

text \<open>The second loop: fold the upper half into the lower one until it is zero.\<close>

function csum_fold :: "u32 \<Rightarrow> u32" where
  "csum_fold acc = (if drop_bit 16 acc \<noteq> 0 then csum_fold ((acc AND 0xFFFF) + drop_bit 16 acc)
                    else acc)"
  by pat_completeness auto

lemma unat_fold_step:
  "unat ((s AND 0xFFFF) + drop_bit 16 s :: u32) = unat s mod 65536 + unat s div 65536"
proof -
  have "unat s div 65536 < 65536" using unat_u32 [of s] by (simp add: less_mult_imp_div_less)
  moreover have "s AND 0xFFFF = take_bit 16 s"
    by (simp add: take_bit_eq_mask mask_eq_exp_minus_1)
  ultimately show ?thesis
    by (simp add: unat_word_ariths unat_drop_bit_div unsigned_take_bit_eq take_bit_eq_mod)
qed

lemma drop16_eq_0: "drop_bit 16 (s :: u32) = 0 \<longleftrightarrow> unat s < 65536"
  by (simp add: unat_eq_zero [symmetric] unat_drop_bit_div div_eq_0_iff del: unat_eq_zero)

termination csum_fold
proof (relation "measure unat")
  fix s :: u32
  assume "drop_bit 16 s \<noteq> 0"
  then have "65536 \<le> unat s" by (simp add: drop16_eq_0)
  moreover have "unat s = 65536 * (unat s div 65536) + unat s mod 65536" by simp
  ultimately have "unat s mod 65536 + unat s div 65536 < unat s" by linarith
  then show "((s AND 0xFFFF) + drop_bit 16 s, s) \<in> measure unat"
    by (simp add: unat_fold_step)
qed simp

declare csum_fold.simps [simp del]

definition calc_checksum :: "u16 \<Rightarrow> bytes \<Rightarrow> u16" where
  "calc_checksum start buffer = ucast (csum_fold (csum_words (ucast start) buffer))"

lemma unat_csum_words:
  "unat s + wsum bs < 2 ^ 32 \<Longrightarrow> unat (csum_words s bs) = unat s + wsum bs"
proof (induction s bs rule: csum_words.induct)
  case (1 acc a b r)
  have "unat (ucast (le16 a b) :: u32) = unat a + 256 * unat b"
    using unat_u16 [of "le16 a b"] by (simp add: unat_ucast_mod unat_le16)
  with 1 show ?case by (simp add: unat_word_ariths)
next
  case (2 acc a)
  then show ?case using unat_u8 [of a] by (simp add: unat_word_ariths unat_ucast_mod)
qed simp

lemma unat_csum_fold: "unat (csum_fold s) = oc (unat s)"
proof (induction s rule: csum_fold.induct)
  case (1 s)
  show ?case
  proof (cases "unat s < 65536")
    case True
    then show ?thesis by (subst csum_fold.simps) (simp add: drop16_eq_0 oc_small)
  next
    case False
    let ?n = "unat s mod 65536 + unat s div 65536"
    have "unat s = 65536 * (unat s div 65536) + unat s mod 65536" by simp
    then have "unat s = ?n + 65535 * (unat s div 65536)" by linarith
    then have "unat s mod 65535 = ?n mod 65535" by (metis mod_mult_self2)
    moreover have "0 < ?n" using False by (simp add: div_greater_zero_iff)
    ultimately have "oc ?n = oc (unat s)" using False by (intro oc_cong) simp_all
    with 1 False show ?thesis
      by (subst csum_fold.simps) (simp add: drop16_eq_0 unat_fold_step)
  qed
qed

lemma calc_checksum_val:
  assumes "length bs \<le> ck_max"
  shows "unat (calc_checksum s bs) = oc (unat s + wsum bs)"
proof -
  have "wsum bs \<le> 65535 * ((length bs + 1) div 2)" by (rule wsum_bound)
  also have "\<dots> \<le> 65535 * 65535"
    using assms by (intro mult_le_mono2) (simp add: ck_max_def)
  finally have "unat s + wsum bs < 2 ^ 32" using unat_u16 [of s] by simp
  moreover have "unat (ucast s :: u32) = unat s" using unat_u16 [of s] by (simp add: unat_ucast_mod)
  ultimately have "unat (csum_fold (csum_words (ucast s) bs)) = oc (unat s + wsum bs)"
    by (simp add: unat_csum_fold unat_csum_words)
  then show ?thesis
    using oc_le [of "unat s + wsum bs"] by (simp add: calc_checksum_def unat_ucast_mod)
qed

interpretation csum: inet_checksum calc_checksum
  by unfold_locales (rule calc_checksum_val)

section \<open>Comparison of sequence numbers\<close>

text \<open>
  The differences are computed in \<open>int\<close> and wrap around; the second one is compared with
  the largest \<open>int\<close>, as the source has it.
\<close>

definition compare_u32 :: "u32 \<Rightarrow> u32 \<Rightarrow> int" where
  "compare_u32 s1 s2 =
     (if s1 = s2 then 0
      else let i1 = sint s1; i2 = sint s2
        in if (i1 < i2 \<and> to_int32 (i2 - i1) < 0x7FFFFFFF) \<or>
              (i1 > i2 \<and> to_int32 (i1 - i2) > 0x7FFFFFFF)
           then - 1 else 1)"

lemma sint_u32: "- 2147483648 \<le> sint (w :: u32)" "sint (w :: u32) < 2147483648"
  using sint_ge [of w] sint_lt [of w] by simp_all

lemma to_int32_range: "- 2147483648 \<le> to_int32 x" "to_int32 x \<le> 2147483647"
proof -
  have "- (2 ^ 31) \<le> signed_take_bit 31 x" "signed_take_bit 31 x < 2 ^ 31"
    by (rule signed_take_bit_int_greater_eq_minus_exp signed_take_bit_int_less_exp)+
  then show "- 2147483648 \<le> to_int32 x" "to_int32 x \<le> 2147483647"
    by (simp_all add: to_int32_def)
qed

lemma to_int32_wrap: "2147483648 \<le> x \<Longrightarrow> to_int32 x \<le> x - 4294967296"
  using signed_take_bit_int_less_eq [of 31 x] by (simp add: to_int32_def)

text \<open>What the routine computes: signed order, but for one distance.\<close>

lemma compare_u32_neg_iff:
  "compare_u32 a b < 0 \<longleftrightarrow> sint a < sint b \<and> sint b - sint a \<noteq> 0x7FFFFFFF"
proof -
  have "to_int32 (sint b - sint a) < 0x7FFFFFFF \<longleftrightarrow> sint b - sint a \<noteq> 0x7FFFFFFF"
    if "sint a < sint b"
  proof (cases "sint b - sint a < 2 ^ 31")
    case True
    then have "to_int32 (sint b - sint a) = sint b - sint a"
      using that by (intro to_int32_id) simp_all
    with True show ?thesis by auto
  next
    case False
    then have "to_int32 (sint b - sint a) \<le> sint b - sint a - 4294967296"
      by (intro to_int32_wrap) simp
    with False show ?thesis using sint_u32 [of a] sint_u32 [of b] by simp
  qed
  moreover have "\<not> to_int32 (sint a - sint b) > 0x7FFFFFFF"
    using to_int32_range [of "sint a - sint b"] by simp
  ultimately show ?thesis by (auto simp: compare_u32_def Let_def)
qed

lemma compare_u32_eq_0_iff [simp]: "compare_u32 a b = 0 \<longleftrightarrow> a = b"
  by (simp add: compare_u32_def Let_def)

lemma compare_u32_cases: "compare_u32 a b = - 1 \<or> compare_u32 a b = 0 \<or> compare_u32 a b = 1"
  by (simp add: compare_u32_def Let_def)

lemma compare_u32_pos_iff:
  "compare_u32 a b > 0 \<longleftrightarrow> sint b < sint a \<or> sint b - sint a = 0x7FFFFFFF"
proof -
  have "compare_u32 a b > 0 \<longleftrightarrow> \<not> compare_u32 a b < 0 \<and> a \<noteq> b"
    using compare_u32_cases [of a b] by (auto simp flip: compare_u32_eq_0_iff)
  also have "\<dots> \<longleftrightarrow> sint b < sint a \<or> sint b - sint a = 0x7FFFFFFF"
    by (auto simp: compare_u32_neg_iff intro: signed_word_eqI)
  finally show ?thesis .
qed

section \<open>Hexadecimal digits\<close>

definition char2nible :: "u8 \<Rightarrow> u8" where
  "char2nible c =
     (if 48 \<le> c \<and> c \<le> 57 then c - 48
      else if 97 \<le> c \<and> c \<le> 102 then c - 97 + 10
      else if 65 \<le> c \<and> c \<le> 70 then c - 65 + 10
      else 255)"

text \<open>
  \<open>hex2bytes\<close> steps over the string two characters at a time; in a string of odd length
  the second one is the terminating NUL.
\<close>

fun hex2bytes :: "bytes \<Rightarrow> bytes" where
  "hex2bytes [] = []"
| "hex2bytes [a] = [push_bit 4 (char2nible a) OR char2nible 0]"
| "hex2bytes (a # b # r) = (push_bit 4 (char2nible a) OR char2nible b) # hex2bytes r"

definition hex_str :: "bytes" where
  "hex_str = map of_char ''0123456789ABCDEF''"

fun hex :: "bytes \<Rightarrow> bytes" where
  "hex [] = []"
| "hex (d # ds) = hex_str ! unat (drop_bit 4 d AND 0x0F) # hex_str ! unat (d AND 0x0F)
                   # of_char CHR '' '' # hex ds"

lemma hex_str_nible:
  assumes "n < 16"
  shows "char2nible (hex_str ! n) = of_nat n \<and> hex_str ! n \<noteq> 32"
proof -
  have "list_all (\<lambda>n. char2nible (hex_str ! n) = of_nat n \<and> hex_str ! n \<noteq> 32) [0..<16]"
    by code_simp
  with assms show ?thesis by (simp add: list_all_iff)
qed

lemma and_15: "(w :: u8) AND 0x0F = take_bit 4 w"
  by (simp add: take_bit_eq_mask mask_eq_exp_minus_1)

lemma unat_nible: "unat (take_bit 4 (w :: u8)) < 16"
  using take_bit_nat_less_exp [of 4 "unat w"] by (simp add: unsigned_take_bit_eq)

lemma nibles_join: "push_bit 4 (take_bit 4 (drop_bit 4 w)) OR take_bit 4 w = (w :: u8)"
  by (rule bit_word_eqI) (auto simp: bit_simps)

lemma hex2bytes_hex: "hex2bytes (filter (\<lambda>c. c \<noteq> 32) (hex ds)) = ds"
proof (induction ds)
  case (Cons d ds)
  then show ?case
    by (simp add: hex_str_nible unat_nible and_15 nibles_join)
qed simp

section \<open>Trimming\<close>

definition isspace :: "u8 \<Rightarrow> bool" where
  "isspace c \<longleftrightarrow> 9 \<le> c \<and> c \<le> 13 \<or> c = 32"

fun trim_end :: "bytes \<Rightarrow> nat \<Rightarrow> nat" where
  "trim_end str 0 = 0"
| "trim_end str (Suc e) = (if isspace (str ! Suc e) then trim_end str e else Suc e)"

definition trim :: "bytes \<Rightarrow> bytes" where
  "trim str =
     (let str = dropWhile isspace str
      in if str = [] then str
         else take (trim_end str (length str - 1) + 1) str)"

lemma trim_end_spec:
  "e < length str \<Longrightarrow> \<not> isspace (str ! 0) \<Longrightarrow>
     take (trim_end str e + 1) str = rev (dropWhile isspace (rev (take (e + 1) str)))"
proof (induction e)
  case 0
  then show ?case by (cases str) simp_all
next
  case (Suc e)
  then show ?case by (simp add: take_Suc_conv_app_nth [of "Suc e"])
qed

lemma trim_spec: "trim str = rev (dropWhile isspace (rev (dropWhile isspace str)))"
proof (cases "dropWhile isspace str")
  case (Cons c cs)
  then have "\<not> isspace c" by (metis hd_dropWhile list.distinct(1) list.sel(1))
  with Cons show ?thesis using trim_end_spec [of "length cs" "c # cs"] by (simp add: trim_def)
next
  case Nil
  then show ?thesis by (simp only: trim_def Let_def dropWhile.simps rev.simps simp_thms if_True)
qed

section \<open>The port of a socket\<close>

text \<open>The argument is what \<open>getsockname\<close> answers: the port as it is in the address, or \<open>None\<close> when it fails.\<close>

definition get_local_port :: "u16 option \<Rightarrow> int" where
  "get_local_port sin_port = (case sin_port of None \<Rightarrow> - 1 | Some p \<Rightarrow> uint (ntohs p))"

lemma get_local_port_range: "- 1 \<le> get_local_port r \<and> get_local_port r < 65536 \<and> (0 \<le> get_local_port r \<longleftrightarrow> r \<noteq> None)"
proof (cases r)
  case (Some p)
  have "- 1 \<le> uint (ntohs p)" by (rule order.trans [OF _ uint_nonnegative]) simp
  moreover have "uint (ntohs p) < 2 ^ LENGTH(16)" by (rule uint_bounded)
  ultimately show ?thesis unfolding get_local_port_def Some option.case by simp
qed (simp add: get_local_port_def)

section \<open>TCP states\<close>

text \<open>
  The states of \<open>netinet/tcp.h\<close>; \<open>TCP_NONE\<close> is the value 0 of a session record that was
  only cleared.
\<close>

datatype tcp_state = TCP_NONE | TCP_ESTABLISHED | TCP_SYN_SENT | TCP_SYN_RECV | TCP_FIN_WAIT1
  | TCP_FIN_WAIT2 | TCP_TIME_WAIT | TCP_CLOSE | TCP_CLOSE_WAIT | TCP_LAST_ACK | TCP_LISTEN
  | TCP_CLOSING

fun strstate :: "tcp_state \<Rightarrow> string" where
  "strstate TCP_ESTABLISHED = ''ESTABLISHED''"
| "strstate TCP_SYN_SENT = ''SYN_SENT''"
| "strstate TCP_SYN_RECV = ''SYN_RECV''"
| "strstate TCP_FIN_WAIT1 = ''FIN_WAIT1''"
| "strstate TCP_FIN_WAIT2 = ''FIN_WAIT2''"
| "strstate TCP_TIME_WAIT = ''TIME_WAIT''"
| "strstate TCP_CLOSE = ''CLOSE''"
| "strstate TCP_CLOSE_WAIT = ''CLOSE_WAIT''"
| "strstate TCP_LAST_ACK = ''LAST_ACK''"
| "strstate TCP_LISTEN = ''LISTEN''"
| "strstate TCP_CLOSING = ''CLOSING''"
| "strstate _ = ''UNKNOWN''"

section \<open>Properties\<close>

text \<open>
  C39. The checksum routine computes the Internet checksum: for a buffer of at most 131070 bytes the
  32-bit register does not overflow, and the result is the end-around-carry sum of the start value
  and of the little endian words of the buffer; and taking the checksum of an even-sized piece
  first and continuing with the rest gives the checksum of the whole, which is how the program
  checks a segment behind its pseudo header.
\<close>

theorem calc_checksum_pieces:
  assumes "length (a @ b) \<le> ck_max" and "even (length a)"
  shows "unat (calc_checksum s (a @ b)) = oc (unat s + wsum (a @ b))
         \<and> calc_checksum (calc_checksum s a) b = calc_checksum s (a @ b)"
  using assms by (simp only: csum.ck_val csum.ck_append simp_thms)

theorem calc_checksum_pieces_witness:
  "unat (calc_checksum 0xFFFE ([1, 2] @ [3])) = oc (unat (0xFFFE :: u16) + wsum ([1, 2] @ [3]))
   \<and> calc_checksum (calc_checksum 0xFFFE [1, 2]) [3] = calc_checksum 0xFFFE ([1, 2] @ [3])"
  by (rule calc_checksum_pieces) (simp_all add: ck_max_def)

lemma sint_diff: "- 2147483648 \<le> sint a - sint b \<Longrightarrow> sint a - sint b < 2147483648 \<Longrightarrow>
    sint (a - b :: u32) = sint a - sint b"
  by (simp add: sint_word_ariths signed_take_bit_int_eq_self)

text \<open>
  Where the comparison of sequence numbers is right: if the two numbers are less than
  \<open>0x7FFFFFFF\<close> apart as signed numbers, the sign of \<open>compare_u32\<close> is the sign of the
  wrapped difference, which is the order of RFC 1982 that TCP prescribes.
\<close>

theorem compare_u32_serial_order:
  assumes "\<bar>sint a - sint b\<bar> < 0x7FFFFFFF"
  shows "(compare_u32 a b < 0 \<longleftrightarrow> sint (a - b) < 0) \<and> (compare_u32 a b > 0 \<longleftrightarrow> sint (a - b) > 0)
         \<and> compare_u32 b a = - compare_u32 a b"
proof -
  have d: "sint (a - b) = sint a - sint b" using assms by (intro sint_diff) auto
  have lt: "compare_u32 a b < 0 \<longleftrightarrow> sint a < sint b" "compare_u32 b a < 0 \<longleftrightarrow> sint b < sint a"
    and gt: "compare_u32 a b > 0 \<longleftrightarrow> sint b < sint a" "compare_u32 b a > 0 \<longleftrightarrow> sint a < sint b"
    using assms unfolding compare_u32_neg_iff compare_u32_pos_iff by auto
  have "compare_u32 b a = - compare_u32 a b"
    using compare_u32_cases [of a b] compare_u32_cases [of b a] lt gt by auto
  then show ?thesis using lt gt d by simp
qed

theorem compare_u32_serial_order_witness:
  "(compare_u32 0xFFFFFFFF 1 < 0 \<longleftrightarrow> sint (0xFFFFFFFF - 1 :: u32) < 0)
   \<and> (compare_u32 0xFFFFFFFF 1 > 0 \<longleftrightarrow> sint (0xFFFFFFFF - 1 :: u32) > 0)
   \<and> compare_u32 1 0xFFFFFFFF = - compare_u32 0xFFFFFFFF 1"
  by (rule compare_u32_serial_order) simp

lemma sint_halves:
  fixes a b :: u32
  assumes "unat a < 2 ^ 31" and "2 ^ 31 \<le> unat b"
  shows "sint b < sint a"
proof -
  have "sint a = int (unat a)"
  proof -
    have "uint a < 2 ^ 31" using assms(1) by (metis of_nat_less_iff of_nat_numeral of_nat_power uint_nat)
    then have "signed_take_bit 31 (uint a) = uint a"
      by (intro signed_take_bit_int_eq_self) (simp_all add: order_trans [OF _ unsigned_greater_eq])
    then show ?thesis by (simp add: sint_uint)
  qed
  moreover have "sint b = int (unat b) - 4294967296"
  proof -
    have half: "(int n + 2147483648) mod 4294967296 = int n - 2147483648"
      if "2147483648 \<le> n" "n < 4294967296" for n
      using that mod_pos_pos_trivial [of "int n - 2147483648" 4294967296]
        mod_add_self2 [of "int n - 2147483648" 4294967296] by (simp add: add.commute)
    show ?thesis
      using half [of "unat b"] assms(2) unat_u32 [of b]
      by (simp add: sint_uint signed_take_bit_eq_take_bit_shift take_bit_eq_mod)
  qed
  ultimately show ?thesis using unat_u32 [of b] by linarith
qed

lemma compare_u32_halves:
  assumes "unat a < 2 ^ 31" and "2 ^ 31 \<le> unat b"
  shows "compare_u32 a b = 1"
  using compare_u32_pos_iff [of a b] compare_u32_cases [of a b] sint_halves [OF assms] by linarith

text \<open>
  Where it is wrong: every number of the lower half of the space compares greater than every
  number of the upper half, so that the numbers just behind \<open>0x7FFFFFFF\<close> are taken for old
  ones although they follow it.
\<close>

theorem compare_u32_wrong_half:
  assumes "unat a < 2 ^ 31" and "2 ^ 31 \<le> unat b" and "sint a - sint b \<noteq> 0x7FFFFFFF"
  shows "compare_u32 a b = 1 \<and> compare_u32 b a = - 1"
  using compare_u32_halves [OF assms(1,2)] sint_halves [OF assms(1,2)] assms(3)
    compare_u32_cases [of b a] compare_u32_neg_iff [of b a] by linarith

theorem compare_u32_wrong_half_witness:
  "compare_u32 0x7FFFFFFF 0x80000000 = 1 \<and> compare_u32 0x80000000 0x7FFFFFFF = - 1"
  by (rule compare_u32_wrong_half) simp_all

text \<open>
  Hexadecimal text: decoding the digits that \<open>hex\<close> prints, without the blanks it puts
  between the bytes, gives back the bytes; \<open>hex\<close> prints three characters for a byte.
\<close>

theorem hex_round_trip:
  "hex2bytes (filter (\<lambda>c. c \<noteq> 32) (hex ds)) = ds \<and> length (hex ds) = 3 * length ds"
proof -
  have "length (hex ds) = 3 * length ds" by (induction ds) simp_all
  then show ?thesis by (simp add: hex2bytes_hex)
qed

text \<open>
  Trimming a string takes away exactly the white space at its two ends, and doing it twice
  is doing it once.
\<close>

theorem trim_both_ends:
  "trim str = rev (dropWhile isspace (rev (dropWhile isspace str))) \<and> trim (trim str) = trim str
   \<and> (trim str \<noteq> [] \<longrightarrow> \<not> isspace (hd (trim str)) \<and> \<not> isspace (last (trim str)))"
proof -
  define u where "u = dropWhile isspace str"
  define t where "t = rev (dropWhile isspace (rev u))"
  have t: "trim str = t" by (simp add: trim_spec t_def u_def)
  have last: "t \<noteq> [] \<Longrightarrow> \<not> isspace (last t)"
    by (metis hd_dropWhile last_rev rev_is_Nil_conv t_def)
  have "\<exists>w. u = t @ w"
    using takeWhile_dropWhile_id [of isspace "rev u"] unfolding t_def
    by (metis rev_append rev_rev_ident)
  then have hd: "t \<noteq> [] \<Longrightarrow> \<not> isspace (hd t)"
    by (metis append_is_Nil_conv hd_append2 hd_dropWhile u_def)
  have "dropWhile isspace t = t" using hd by (cases t) simp_all
  moreover have "dropWhile isspace (rev t) = rev t" using last by (cases t rule: rev_cases) simp_all
  ultimately have "trim t = t" by (simp only: trim_spec rev_rev_ident)
  then show ?thesis using t hd last by (simp add: trim_spec)
qed

theorem trim_both_ends_witness:
  "trim (map of_char ''  a b '') = map of_char ''a b''
   \<and> trim (trim (map of_char ''  a b '')) = trim (map of_char ''  a b '')"
proof
  show "trim (map of_char ''  a b '') = map of_char ''a b''" by code_simp
  show "trim (trim (map of_char ''  a b '')) = trim (map of_char ''  a b '')"
    using trim_both_ends [of "map of_char ''  a b ''"] by (elim conjE)
qed

end
