(* ===== verification/CString.thy ===== *)
theory CString
  imports Prelude
begin

text \<open>
  The string routines of the C library as the sources use them, on buffers with checked
  reads: a comparison or a copy reads exactly the characters the C routine reads and is
  \<open>None\<close> when one of them lies outside the buffer.
\<close>

definition lit :: "string \<Rightarrow> bytes" where
  "lit s = map of_char s"

lemma length_lit [simp]: "length (lit s) = length s"
  by (simp add: lit_def)

definition tolower :: "u8 \<Rightarrow> u8" where
  "tolower c = (if 65 \<le> c \<and> c \<le> 90 then c + 32 else c)"

definition isblank :: "u8 \<Rightarrow> bool" where
  "isblank c \<longleftrightarrow> c = 32 \<or> c = 9"

text \<open>\<open>strncasecmp(v, m + p, strlen(v)) == 0\<close>: it stops at the first difference.\<close>

fun strncaseeq :: "bytes \<Rightarrow> bytes \<Rightarrow> nat \<Rightarrow> bool option" where
  "strncaseeq [] m p = Some True"
| "strncaseeq (v # vs) m p =
     do { c \<leftarrow> rd8 m p; if tolower v = tolower c then strncaseeq vs m (p + 1) else Some False }"

text \<open>A chain of comparisons \<open>m[p] == v[0] && m[p + 1] == v[1] && ...\<close>.\<close>

fun eq_at :: "bytes \<Rightarrow> bytes \<Rightarrow> nat \<Rightarrow> bool option" where
  "eq_at [] m p = Some True"
| "eq_at (v # vs) m p = do { c \<leftarrow> rd8 m p; if c = v then eq_at vs m (p + 1) else Some False }"

text \<open>
  The C string that \<open>strncpy(dst, m + p, n); dst[n] = 0\<close> leaves in \<open>dst\<close>: reading stops
  at the first NUL.
\<close>

fun strncpy :: "bytes \<Rightarrow> nat \<Rightarrow> nat \<Rightarrow> bytes option" where
  "strncpy m p 0 = Some []"
| "strncpy m p (Suc n) =
     do { c \<leftarrow> rd8 m p; if c = 0 then Some [] else do { r \<leftarrow> strncpy m (p + 1) n; Some (c # r) } }"

text \<open>The C string in a buffer.\<close>

definition cstr :: "bytes \<Rightarrow> bytes" where
  "cstr q = takeWhile (\<lambda>c. c \<noteq> 0) q"

section \<open>Facts\<close>

lemma rd8_Some_iff: "rd8 m i = Some c \<longleftrightarrow> i < length m \<and> c = m ! i"
  by (auto simp: rd8_def)

lemma rd8_in [simp]: "i < length m \<Longrightarrow> rd8 m i = Some (m ! i)"
  by (simp add: rd8_def)

lemma rd8_append: "rd8 (a @ b) (length a + i) = rd8 b i"
  by (simp add: rd8_def)

lemma rd8_append2: "length a \<le> i \<Longrightarrow> rd8 (a @ b) i = rd8 b (i - length a)"
  by (auto simp: rd8_def nth_append)

lemma rd_block_Some_iff:
  "rd_block m i n = Some b \<longleftrightarrow> i + n \<le> length m \<and> b = take n (drop i m)"
  by (auto simp: rd_block_def)

lemma rd_block_in:
  assumes "i + n \<le> length m"
  obtains b where "rd_block m i n = Some b" "length b = n"
proof
  show "rd_block m i n = Some (take n (drop i m))" using assms by (simp add: rd_block_def)
  show "length (take n (drop i m)) = n" using assms by simp
qed

text \<open>\<open>matches v w\<close>: the bytes \<open>w\<close> begin with \<open>v\<close>, whatever the case.\<close>

definition matches :: "bytes \<Rightarrow> bytes \<Rightarrow> bool" where
  "matches v w \<longleftrightarrow> length v \<le> length w \<and> map tolower (take (length v) w) = map tolower v"

lemma drop_in: "p < length m \<Longrightarrow> drop p m = m ! p # drop (Suc p) m"
  by (simp add: Cons_nth_drop_Suc)

lemma strncaseeq_matches:
  "strncaseeq v m p = Some b \<Longrightarrow> b = matches v (drop p m)"
proof (induction v m p arbitrary: b rule: strncaseeq.induct)
  case (1 m p)
  then show ?case by (simp add: matches_def)
next
  case (2 v vs m p)
  then have p: "p < length m" by (auto simp: bind_eq_Some_conv rd8_Some_iff)
  then have "matches (v # vs) (drop p m) \<longleftrightarrow>
               tolower v = tolower (m ! p) \<and> matches vs (drop (Suc p) m)"
    by (auto simp: matches_def drop_in [OF p])
  with 2 p show ?case by (auto split: if_splits)
qed

lemma strncaseeq_defined: "p + length v \<le> length m \<Longrightarrow> strncaseeq v m p \<noteq> None"
  by (induction v m p rule: strncaseeq.induct) auto

lemma strncpy_Some:
  "strncpy m p n = Some s \<Longrightarrow> s = takeWhile (\<lambda>c. c \<noteq> 0) (take n (drop p m))"
proof (induction m p n arbitrary: s rule: strncpy.induct)
  case (2 m p n)
  then have p: "p < length m" by (auto simp: bind_eq_Some_conv rd8_Some_iff)
  from 2 show ?case by (auto simp: drop_in [OF p] bind_eq_Some_conv p split: if_splits)
qed simp

lemma strncpy_defined: "p + n \<le> length m \<Longrightarrow> strncpy m p n \<noteq> None"
  by (induction m p n rule: strncpy.induct) (auto simp: bind_eq_None_conv)

lemma length_strncpy: "strncpy m p n = Some s \<Longrightarrow> length s \<le> n"
  by (drule strncpy_Some) (metis length_take length_takeWhile_le min.cobounded2 order_trans)

lemma strncpy_no_NUL: "strncpy m p n = Some s \<Longrightarrow> 0 \<notin> set s"
  by (drule strncpy_Some) (metis set_takeWhileD)

end
