(* ===== verification/Http.thy ===== *)
theory Http
  imports CString
begin

text \<open>
  \<open>http.c\<close>: the header scanner and the routine that turns the request line of a plain HTTP
  request into its absolute form before the request goes to the proxy. \<open>m\<close> is the buffer
  from the \<open>data\<close> pointer on, \<open>n\<close> the length the caller passes.
\<close>

section \<open>Scanning header lines\<close>

function next_header_skip :: "bytes \<Rightarrow> nat \<Rightarrow> nat \<Rightarrow> (nat \<times> nat) option" where
  "next_header_skip m p n =
     (if n > 2 then
        do { a \<leftarrow> rd8 m p;
             if a = 13 then Some (p, n)
             else do { b \<leftarrow> rd8 m (p + 1);
                       if b = 10 then Some (p, n) else next_header_skip m (p + 1) (n - 1) } }
      else Some (p, n))"
  by pat_completeness auto
termination by (relation "measure (\<lambda>(m, p, n). n)") auto

function next_header_len :: "bytes \<Rightarrow> nat \<Rightarrow> nat \<Rightarrow> nat \<Rightarrow> nat option" where
  "next_header_len m p n hl =
     (if n > hl + 1 then
        do { a \<leftarrow> rd8 m (p + hl);
             if a = 13 then Some hl
             else do { b \<leftarrow> rd8 m (p + hl + 1);
                       if b = 10 then Some hl else next_header_len m p n (hl + 1) } }
      else Some hl)"
  by pat_completeness auto
termination by (relation "measure (\<lambda>(m, p, n, hl). n - hl)") auto

declare next_header_skip.simps [simp del] next_header_len.simps [simp del]

text \<open>Returns the length of the next line with the moved \<open>data\<close> and \<open>len\<close>.\<close>

definition next_header :: "bytes \<Rightarrow> nat \<Rightarrow> nat \<Rightarrow> (nat \<times> nat \<times> nat) option" where
  "next_header m p n =
     do { (p, n) \<leftarrow> next_header_skip m p n;
          let p = p + 2;
          let n = size_sub n 2;
          hl \<leftarrow> next_header_len m p n 0;
          Some (hl, p, n) }"

lemma next_header_skip_le: "next_header_skip m p n = Some (p', n') \<Longrightarrow> p \<le> p'"
proof (induction m p n rule: next_header_skip.induct)
  case (1 m p n)
  from 1(2) show ?case
    by (subst (asm) next_header_skip.simps)
      (auto simp: bind_eq_Some_conv split: if_splits dest!: 1(1) intro: le_trans [of _ "p + 1"])
qed

lemma next_header_len_pos:
  assumes "next_header_len m p n 0 = Some hl" and "hl \<noteq> 0"
  shows "p < length m"
  using assms
  by (subst (asm) next_header_len.simps) (auto simp: bind_eq_Some_conv rd8_Some_iff split: if_splits)

lemma next_header_progress:
  assumes "next_header m p n = Some (hl, p', n')" and "hl \<noteq> 0"
  shows "p < p' \<and> p' < length m"
  using assms
  by (auto simp: next_header_def Let_def bind_eq_Some_conv
      dest!: next_header_skip_le next_header_len_pos)

text \<open>\<open>while (header_len < len && isblank(data[header_len])) header_len++\<close>\<close>

function eat_blanks :: "bytes \<Rightarrow> nat \<Rightarrow> nat \<Rightarrow> nat \<Rightarrow> nat option" where
  "eat_blanks m p hl len =
     (if hl < len then
        do { c \<leftarrow> rd8 m (p + hl); if isblank c then eat_blanks m p (hl + 1) len else Some hl }
      else Some hl)"
  by pat_completeness auto
termination by (relation "measure (\<lambda>(m, p, hl, len). len - hl)") auto

declare eat_blanks.simps [simp del]

text \<open>
  The result code with the value found; \<open>want\<close> says that the caller passed a buffer for
  the value.
\<close>

function get_header ::
  "bytes \<Rightarrow> bytes \<Rightarrow> nat \<Rightarrow> nat \<Rightarrow> bool \<Rightarrow> (int \<times> bytes) option" where
  "get_header header m p n want =
     do { (len, p', n') \<leftarrow> next_header m p n;
          if len \<noteq> 0 then
            do { hit \<leftarrow> (if len > length header then strncaseeq header m p' else Some False);
                 if hit then
                   do { hl \<leftarrow> eat_blanks m p' (length header) len;
                        if \<not> want then Some (- 4, [])
                        else do { v \<leftarrow> strncpy m (p' + hl) (len - hl); Some (int (len - hl), v) } }
                 else get_header header m p' n' want }
          else Some (if n' = 0 then - 1 else - 2, []) }"
  by pat_completeness auto
termination
  by (relation "measure (\<lambda>(h, m, p, n, w). length m - p)") (auto dest: next_header_progress)

declare get_header.simps [simp del]

section \<open>Searching\<close>

function find_skip :: "u8 \<Rightarrow> bytes \<Rightarrow> nat \<Rightarrow> nat \<Rightarrow> (nat \<times> nat) option" where
  "find_skip v m p n =
     do { c \<leftarrow> rd8 m p;
          if c \<noteq> v \<and> n > 2 then find_skip v m (p + 1) (n - 1) else Some (p, n) }"
  by pat_completeness auto
termination by (relation "measure (\<lambda>(v, m, p, n). n)") auto

declare find_skip.simps [simp del]

lemma find_skip_cases:
  assumes "find_skip v m p n = Some r"
  shows "p < length m \<and> (if m ! p \<noteq> v \<and> n > 2 then find_skip v m (p + 1) (n - 1) = Some r
                            else r = (p, n))"
  using assms
  by (subst (asm) find_skip.simps) (auto simp: bind_eq_Some_conv rd8_Some_iff split: if_splits)

lemma find_skip_bounds:
  "find_skip v m p n = Some (p', n') \<Longrightarrow>
     p \<le> p' \<and> p' + n' = p + n \<and> p' < length m \<and> (2 \<le> n \<longrightarrow> 2 \<le> n')"
proof (induction v m p n rule: find_skip.induct)
  case (1 v m p n)
  then show ?case
    using find_skip_cases [OF "1.prems"] by (cases "m ! p \<noteq> v \<and> n > 2") auto
qed

lemma find_skip_scan:
  "find_skip v m p n = Some (p', n') \<Longrightarrow> p \<le> q \<Longrightarrow> q < p' \<Longrightarrow> m ! q \<noteq> v"
proof (induction v m p n rule: find_skip.induct)
  case (1 v m p n)
  then show ?case
    using find_skip_cases [OF "1.prems"(1)]
    by (cases "m ! p \<noteq> v \<and> n > 2"; cases "q = p") auto
qed

lemma find_skip_hit: "find_skip v m p n = Some (p', n') \<Longrightarrow> 2 < n' \<Longrightarrow> m ! p' = v"
proof (induction v m p n rule: find_skip.induct)
  case (1 v m p n)
  then show ?case
    using find_skip_cases [OF "1.prems"(1)] by (cases "m ! p \<noteq> v \<and> n > 2") auto
qed

text \<open>The position found, or \<open>Some None\<close> for a null pointer.\<close>

function find_data :: "bytes \<Rightarrow> nat \<Rightarrow> nat \<Rightarrow> bytes \<Rightarrow> nat option option" where
  "find_data m p n val =
     (if n > 2 then
        do { (p', n') \<leftarrow> find_skip (val ! 0) m p n;
             found \<leftarrow> strncaseeq val m p';
             if found then Some (Some p') else find_data m (p' + 1) (n' - 1) val }
      else Some None)"
  by pat_completeness auto
termination
  by (relation "measure (\<lambda>(m, p, n, v). n)") (auto dest!: find_skip_bounds)

declare find_data.simps [simp del]

lemma find_data_cases:
  assumes "find_data m p n val = Some r"
  obtains (short) "\<not> 2 < n" "r = None"
  | (found) p' n' where "2 < n" "find_skip (val ! 0) m p n = Some (p', n')"
      "matches val (drop p' m)" "r = Some p'"
  | (next_pos) p' n' where "2 < n" "find_skip (val ! 0) m p n = Some (p', n')"
      "strncaseeq val m p' = Some False" "\<not> matches val (drop p' m)"
      "find_data m (p' + 1) (n' - 1) val = Some r"
proof (cases "2 < n")
  case False
  with assms show ?thesis using short by (subst (asm) find_data.simps) simp
next
  case True
  with assms obtain p' n' b where
    1: "find_skip (val ! 0) m p n = Some (p', n')" "strncaseeq val m p' = Some b"
      "(if b then Some (Some p') else find_data m (p' + 1) (n' - 1) val) = Some r"
    by (subst (asm) find_data.simps) (auto simp: bind_eq_Some_conv)
  from 1(2) have "b = matches val (drop p' m)" by (rule strncaseeq_matches)
  with 1 True show ?thesis using found next_pos by (cases b) auto
qed

definition hit :: "bytes \<Rightarrow> bytes \<Rightarrow> nat \<Rightarrow> bool" where
  "hit val m q \<longleftrightarrow> q < length m \<and> m ! q = val ! 0 \<and> matches val (drop q m)"

lemma hit_end: "hit val m q \<Longrightarrow> q + length val \<le> length m"
proof -
  assume "hit val m q"
  then have "q < length m" "length val \<le> length m - q" by (simp_all add: hit_def matches_def)
  then show ?thesis by linarith
qed

lemma find_data_found:
  "find_data m p n val = Some (Some q) \<Longrightarrow>
     p \<le> q \<and> q + 2 \<le> p + n \<and> q < length m \<and> matches val (drop q m)"
proof (induction m p n val rule: find_data.induct)
  case (1 m p n val)
  from "1.prems" show ?case
  proof (cases rule: find_data_cases)
    case (found p' n')
    then show ?thesis using find_skip_bounds [OF found(2)] by simp
  next
    case (next_pos p' n')
    from "1.IH" [OF next_pos(1,2) refl next_pos(3) _ next_pos(5)]
    show ?thesis using find_skip_bounds [OF next_pos(2)] next_pos(1) by auto
  qed simp
qed

lemma find_data_head:
  "find_data m p n val = Some (Some q) \<Longrightarrow> 2 < length val \<Longrightarrow> p + n = length m \<Longrightarrow>
     m ! q = val ! 0"
proof (induction m p n val rule: find_data.induct)
  case (1 m p n val)
  from "1.prems"(1) show ?case
  proof (cases rule: find_data_cases)
    case (found p' n')
    note b = find_skip_bounds [OF found(2)]
    have "length val \<le> length m - p'" using found(3) by (simp add: matches_def)
    then have "2 < n'" using b "1.prems"(2,3) by linarith
    then show ?thesis using find_skip_hit [OF found(2)] found(4) by simp
  next
    case (next_pos p' n')
    have "p' + 1 + (n' - 1) = length m"
      using find_skip_bounds [OF next_pos(2)] next_pos(1) "1.prems"(3) by simp
    with "1.IH" [OF next_pos(1,2) refl next_pos(3) _ next_pos(5)] "1.prems"(2)
    show ?thesis by simp
  qed simp
qed

lemma find_data_first:
  "find_data m p n val = Some r \<Longrightarrow> p \<le> q \<Longrightarrow> q + 2 < p + n \<Longrightarrow>
     (case r of Some q' \<Rightarrow> q < q' | None \<Rightarrow> True) \<Longrightarrow> \<not> hit val m q"
proof (induction m p n val rule: find_data.induct)
  case (1 m p n val)
  from "1.prems"(1) show ?case
  proof (cases rule: find_data_cases)
    case short
    then show ?thesis using "1.prems" by simp
  next
    case (found p' n')
    then show ?thesis
      using "1.prems" find_skip_scan [OF found(2)] by (auto simp: hit_def)
  next
    case (next_pos p' n')
    note b = find_skip_bounds [OF next_pos(2)]
    consider "q < p'" | "q = p'" | "p' + 1 \<le> q" by linarith
    then show ?thesis
    proof cases
      case 1
      then show ?thesis using "1.prems"(2) find_skip_scan [OF next_pos(2)] by (auto simp: hit_def)
    next
      case 2
      then show ?thesis using next_pos(4) by (simp add: hit_def)
    next
      case 3
      have e: "p' + 1 + (n' - 1) = p + n" using b next_pos(1) by simp
      from "1.IH" [OF next_pos(1,2) refl next_pos(3) _ next_pos(5) 3] "1.prems"(3,4)
      show ?thesis unfolding e by simp
    qed
  qed
qed

text \<open>On a buffer of exactly the given length, a word longer than two bytes is missed nowhere.\<close>

lemma find_data_spec:
  assumes "find_data m 0 (length m) val = Some r" and "2 < length val"
  shows "case r of Some q \<Rightarrow> hit val m q \<and> (\<forall>q' < q. \<not> hit val m q')
                 | None \<Rightarrow> \<forall>q. \<not> hit val m q"
proof -
  have room: "q + 2 < length m" if "hit val m q" for q
    using hit_end [OF that] assms(2) by linarith
  show ?thesis
  proof (cases r)
    case None
    then show ?thesis using find_data_first [OF assms(1)] room by fastforce
  next
    case (Some q)
    note f = find_data_found [OF assms(1) [unfolded Some]]
    have "m ! q = val ! 0"
      using find_data_head [OF assms(1) [unfolded Some] assms(2)] by simp
    then show ?thesis
      using Some f find_data_first [OF assms(1)] room by (fastforce simp: hit_def)
  qed
qed

subsection \<open>Reads stay inside a buffer that ends in a byte no word contains\<close>

lemma last_at: "p < length m \<Longrightarrow> \<not> p + 1 < length m \<Longrightarrow> last m = m ! p"
proof -
  assume "p < length m" "\<not> p + 1 < length m"
  then have "m \<noteq> []" "length m - 1 = p" by auto
  then show "last m = m ! p" by (simp add: last_conv_nth)
qed

lemma strncaseeq_stop:
  "p < length m \<Longrightarrow> tolower (last m) \<notin> tolower ` set v \<Longrightarrow> strncaseeq v m p \<noteq> None"
proof (induction v m p rule: strncaseeq.induct)
  case (2 v vs m p)
  have "p + 1 < length m" if "tolower v = tolower (m ! p)"
    using that "2.prems" last_at [of p m] by fastforce
  with 2 show ?case by auto
qed simp

lemma eq_at_stop: "p < length m \<Longrightarrow> last m \<notin> set v \<Longrightarrow> eq_at v m p \<noteq> None"
proof (induction v m p rule: eq_at.induct)
  case (2 v vs m p)
  have "p + 1 < length m" if "m ! p = v"
    using that "2.prems" last_at [of p m] by fastforce
  with 2 show ?case by auto
qed simp

lemma find_skip_defined: "2 \<le> n \<Longrightarrow> p + n \<le> length m \<Longrightarrow> find_skip v m p n \<noteq> None"
proof (induction v m p n rule: find_skip.induct)
  case (1 v m p n)
  then show ?case by (subst find_skip.simps) auto
qed

lemma find_data_defined:
  "p + n \<le> length m \<Longrightarrow> tolower (last m) \<notin> tolower ` set val \<Longrightarrow> find_data m p n val \<noteq> None"
proof (induction m p n val rule: find_data.induct)
  case (1 m p n val)
  show ?case
  proof (cases "2 < n")
    case True
    with "1.prems"(1) obtain p' n' where sk: "find_skip (val ! 0) m p n = Some (p', n')"
      using find_skip_defined [of n p m "val ! 0"] by auto
    note b = find_skip_bounds [OF sk]
    then obtain f where f: "strncaseeq val m p' = Some f"
      using strncaseeq_stop "1.prems"(2) by blast
    have "p' + 1 + (n' - 1) \<le> length m" using b True "1.prems"(1) by simp
    then have "\<not> f \<longrightarrow> find_data m (p' + 1) (n' - 1) val \<noteq> None"
      using "1.IH" [OF True sk refl f] "1.prems"(2) by simp
    with True sk f show ?thesis by (subst find_data.simps) auto
  qed (subst find_data.simps, simp)
qed

lemma matches_nth:
  assumes "matches v (drop q m)" and "k < length v"
  shows "q + k < length m \<and> tolower (m ! (q + k)) = tolower (v ! k)"
proof -
  from assms have l: "length v \<le> length m - q"
    and e: "map tolower (take (length v) (drop q m)) = map tolower v"
    by (simp_all add: matches_def)
  from e have "map tolower (take (length v) (drop q m)) ! k = map tolower v ! k" by simp
  with l assms(2) show ?thesis by simp
qed

section \<open>Rewriting the request line\<close>

text \<open>\<open>while (*host != '\r' && length < 511)\<close>\<close>

function copy_host :: "bytes \<Rightarrow> nat \<Rightarrow> bytes \<Rightarrow> bytes option" where
  "copy_host m p hostname =
     do { c \<leftarrow> rd8 m p;
          if c \<noteq> 13 \<and> length hostname < 511 then copy_host m (p + 1) (hostname @ [c])
          else Some hostname }"
  by pat_completeness auto
termination by (relation "measure (\<lambda>(m, p, h). 511 - length h)") auto

declare copy_host.simps [simp del]

definition methods :: "bytes list" where
  "methods = map lit
     [''GET '', ''POST '', ''PUT '', ''DELETE '', ''HEAD '', ''OPTIONS '', ''PATCH '', ''HEAD '',
      ''TRACE '', ''PROPFIND '', ''PROPPATCH '', ''MKCOL '', ''COPY '', ''MOVE '', ''LOCK '',
      ''UNLOCK '', ''LINK '', ''UNLINK '']"

text \<open>The first word of the list that occurs anywhere, with its position.\<close>

fun find_word :: "bytes \<Rightarrow> nat \<Rightarrow> bytes list \<Rightarrow> (nat \<times> bytes) option option" where
  "find_word m n [] = Some None"
| "find_word m n (w # ws) =
     do { pos \<leftarrow> find_data m 0 n w;
          case pos of Some p \<Rightarrow> Some (Some (p, w)) | None \<Rightarrow> find_word m n ws }"

definition patch_buffer_size :: nat where "patch_buffer_size = 2 * 10000"

text \<open>
  The new data, \<open>Some None\<close> where the routine returns 0 and the request stays as it is. The
  three copies must fit in the static buffer.
\<close>

definition patch_http_url :: "bytes \<Rightarrow> nat \<Rightarrow> bytes option option" where
  "patch_http_url m n =
     do { host \<leftarrow> find_data m 0 n (lit ''Host: '');
          case host of None \<Rightarrow> Some None
          | Some h \<Rightarrow>
            do { hostname \<leftarrow> copy_host m (h + 6) [];
                 word \<leftarrow> find_word m n methods;
                 case word of None \<Rightarrow> Some None
                 | Some (pos, w) \<Rightarrow>
                   do { let pos1 = pos + length w;
                        absolute \<leftarrow> eq_at (lit ''http:'') m pos1;
                        if absolute then Some None
                        else
                          do { pre \<leftarrow> rd_block m 0 pos1;
                               rest \<leftarrow> rd_block m pos1 (size_sub n pos1);
                               let new_data = pre @ lit ''http://'' @ hostname @ rest;
                               if length new_data \<le> patch_buffer_size then Some (Some new_data)
                               else None } } } }"


lemma copy_host_spec:
  "copy_host m p acc = Some h \<Longrightarrow> length acc \<le> 511 \<Longrightarrow>
     \<exists>j. h = acc @ take j (drop p m) \<and> 13 \<notin> set (take j (drop p m)) \<and> length h \<le> 511"
proof (induction m p acc rule: copy_host.induct)
  case (1 m p acc)
  from "1.prems"(1) have p: "p < length m"
    by (subst (asm) copy_host.simps) (auto simp: bind_eq_Some_conv rd8_Some_iff)
  show ?case
  proof (cases "m ! p \<noteq> 13 \<and> length acc < 511")
    case True
    with "1.prems"(1) p have "copy_host m (p + 1) (acc @ [m ! p]) = Some h"
      by (subst (asm) copy_host.simps) simp
    with "1.IH" [OF _ True] True p obtain j where
      "h = (acc @ [m ! p]) @ take j (drop (p + 1) m)" "13 \<notin> set (take j (drop (p + 1) m))"
      "length h \<le> 511" by auto
    with p True show ?thesis
      by (intro exI [of _ "Suc j"]) (auto simp: drop_in)
  next
    case False
    with "1.prems" p show ?thesis
      by (subst (asm) copy_host.simps) (auto intro!: exI [of _ 0])
  qed
qed

lemma copy_host_defined:
  "k < length m \<Longrightarrow> p \<le> k \<Longrightarrow> m ! k = 13 \<Longrightarrow> copy_host m p acc \<noteq> None"
proof (induction m p acc rule: copy_host.induct)
  case (1 m p acc)
  then have "p < length m" "m ! p \<noteq> 13 \<Longrightarrow> p + 1 \<le> k"
    by (auto simp: le_less Suc_le_eq)
  with 1 show ?case by (subst copy_host.simps) auto
qed

lemma find_word_found:
  "find_word m n ws = Some (Some (p, w)) \<Longrightarrow> w \<in> set ws \<and> find_data m 0 n w = Some (Some p)"
  by (induction ws) (auto simp: bind_eq_Some_conv split: option.splits)

lemma find_word_defined: "(\<And>w. w \<in> set ws \<Longrightarrow> find_data m 0 n w \<noteq> None) \<Longrightarrow> find_word m n ws \<noteq> None"
proof (induction ws)
  case (Cons w ws)
  then obtain r where "find_data m 0 n w = Some r" by fastforce
  with Cons show ?case by (cases r) auto
qed simp

definition word_ok :: "bytes \<Rightarrow> bool" where
  "word_ok w \<longleftrightarrow> 2 < length w \<and> 13 \<notin> tolower ` set w \<and> 10 \<notin> tolower ` set w"

lemma methods_ok: "w \<in> set methods \<Longrightarrow> word_ok w"
proof -
  have "list_all word_ok methods" by code_simp
  then show "w \<in> set methods \<Longrightarrow> word_ok w" by (simp add: list_all_iff)
qed

lemma host_ok: "word_ok (lit ''Host: '')"
  by code_simp


section \<open>What the rewriting does\<close>

lemma patch_http_url_cases:
  assumes "patch_http_url m n = Some (Some new)"
  obtains hp h pos w where
    "find_data m 0 n (lit ''Host: '') = Some (Some hp)" "copy_host m (hp + 6) [] = Some h"
    "w \<in> set methods" "find_data m 0 n w = Some (Some pos)"
    "eq_at (lit ''http:'') m (pos + length w) = Some False"
    "pos + length w + size_sub n (pos + length w) \<le> length m"
    "new = take (pos + length w) m @ lit ''http://'' @ h
             @ take (size_sub n (pos + length w)) (drop (pos + length w) m)"
    "length new \<le> patch_buffer_size"
  using assms
  by (auto simp: patch_http_url_def bind_eq_Some_conv Let_def rd_block_Some_iff
      dest!: find_word_found split: option.splits if_splits)

text \<open>
  A word that contains no line break lies before the final one; the reads that follow a match
  stay inside the buffer too.
\<close>

lemma matches_before_crlf:
  assumes "matches v (drop q (m @ [13, 10]))" and "word_ok v"
  shows "q + length v \<le> length m"
proof (rule ccontr)
  assume far: "\<not> q + length v \<le> length m"
  have v: "2 < length v" using assms(2) by (simp add: word_ok_def)
  then have "q + (length v - 1) < length (m @ [13, 10])"
    using matches_nth [OF assms(1), of "length v - 1"] by simp
  with far v have k: "length v + q - length m = 1 \<or> length v + q - length m = 2" by auto
  let ?k = "length m - q"
  have "?k < length v" "q + ?k = length m" using far k v by auto
  then have "tolower 13 = tolower (v ! ?k)"
    using matches_nth [OF assms(1), of ?k] by simp
  moreover have "tolower (13 :: u8) = 13" by (simp add: tolower_def)
  ultimately have "13 \<in> tolower ` set v"
    using nth_mem [OF \<open>?k < length v\<close>] by (metis imageI)
  then show False using assms(2) by (simp add: word_ok_def)
qed

lemma find_data_crlf_defined:
  assumes "word_ok v"
  shows "find_data (m @ [13, 10]) 0 (length (m @ [13, 10])) v \<noteq> None"
proof -
  have "tolower (10 :: u8) = 10" by (simp add: tolower_def)
  then show ?thesis using assms by (intro find_data_defined) (auto simp: word_ok_def)
qed

lemma find_data_crlf_end:
  assumes "word_ok v" and "find_data (m @ [13, 10]) p n v = Some (Some q)"
  shows "q + length v \<le> length m"
  using find_data_found [OF assms(2)] matches_before_crlf [OF _ assms(1)] by blast

section \<open>Properties\<close>

text \<open>A request \<open>GET /\<close>, \<open>Host: a\<close> with its absolute form, and a request line alone.\<close>

definition req_get :: bytes where
  "req_get = [71,69,84,32,47,13,10,72,111,115,116,58,32,97,13,10,13,10]"

definition req_get_abs :: bytes where
  "req_get_abs = [71,69,84,32,104,116,116,112,58,47,47,97,47,13,10,72,111,115,116,58,32,97,13,10,13,10]"

definition req_line :: bytes where
  "req_line = [71,69,84,32,47,13,10,72,111,115,116,58,32,97,13,10]"

text \<open>
  \<open>find_data\<close> on a buffer of exactly the given length returns the first position at which
  the searched word stands (first character exact, the rest in any case), and a null pointer
  only if there is no such position.
\<close>

theorem find_data_first_hit:
  assumes "find_data m 0 (length m) val = Some r" and "2 < length val"
  shows "case r of Some q \<Rightarrow> hit val m q \<and> (\<forall>q' < q. \<not> hit val m q')
                 | None \<Rightarrow> \<forall>q. \<not> hit val m q"
  using assms by (rule find_data_spec)

theorem find_data_first_hit_witness:
  "find_data req_get 0 (length req_get) (lit ''GET '') = Some (Some 0)
   \<and> hit (lit ''GET '') req_get 0"
proof -
  have e: "find_data req_get 0 (length req_get) (lit ''GET '') = Some (Some 0)" by code_simp
  show ?thesis using find_data_first_hit [OF e] e by simp
qed



text \<open>
  For a request that ends in a line break and fits in the tunnel's MTU the rewriting is
  memory safe: the searches and comparisons never read outside the request and the result fits
  in the static patch buffer.
\<close>

theorem patch_http_url_safe:
  assumes "length m \<le> 9998"
  shows "patch_http_url (m @ [13, 10]) (length (m @ [13, 10])) \<noteq> None"
proof -
  let ?m = "m @ [13, 10]"
  obtain r where r: "find_data ?m 0 (length ?m) (lit ''Host: '') = Some r"
    using find_data_crlf_defined [OF host_ok, of m] by blast
  have "find_word ?m (length ?m) methods \<noteq> None"
    using find_data_crlf_defined [OF methods_ok] by (rule find_word_defined)
  then obtain word where word: "find_word ?m (length ?m) methods = Some word" by blast
  show ?thesis
  proof (cases r)
    case None
    with r show ?thesis by (simp add: patch_http_url_def)
  next
    case (Some hp)
    have "hp + 6 \<le> length m"
      using find_data_crlf_end [OF host_ok r [unfolded Some]] by simp
    then have "copy_host ?m (hp + 6) [] \<noteq> None"
      by (intro copy_host_defined [of "length m"]) simp_all
    then obtain h where h: "copy_host ?m (hp + 6) [] = Some h" by blast
    then have hl: "length h \<le> 511" using copy_host_spec [OF h] by auto
    show ?thesis
    proof (cases word)
      case None
      with r Some h word show ?thesis by (simp add: patch_http_url_def)
    next
      case (Some pw)
      obtain pos w where pw: "pw = (pos, w)" by (cases pw)
      with Some word have fw: "w \<in> set methods" "find_data ?m 0 (length ?m) w = Some (Some pos)"
        using find_word_found [of ?m "length ?m" methods pos w] by simp_all
      then have pos: "pos + length w \<le> length m"
        using find_data_crlf_end methods_ok by blast
      then have "eq_at (lit ''http:'') ?m (pos + length w) \<noteq> None"
        by (intro eq_at_stop) (simp_all add: lit_def)
      then obtain a where "eq_at (lit ''http:'') ?m (pos + length w) = Some a" by blast
      moreover have "find_word ?m (length ?m) methods = Some (Some (pos, w))"
        using word Some pw by simp
      ultimately show ?thesis
        using r \<open>r = Some hp\<close> h hl pos assms
        by (simp add: patch_http_url_def rd_block_def patch_buffer_size_def Let_def)
    qed
  qed
qed

theorem patch_http_url_safe_witness:
  "length req_line \<le> 9998
   \<and> patch_http_url (req_line @ [13, 10]) (length (req_line @ [13, 10])) \<noteq> None"
proof -
  have h: "length req_line \<le> 9998" by (simp add: req_line_def)
  show ?thesis using patch_http_url_safe [OF h] h by (rule conjI [rotated])
qed

text \<open>
  The method word is searched in the whole payload, in the order of the list: a POST
  request with \<open>Get \<close> in its body is rewritten inside the body, and its request line stays
  as it was. (The request is \<open>POST / H\<close>, \<open>Host: a\<close>, an empty line and the body
  \<open>Get x\<close>.)
\<close>

theorem patch_http_url_rewrites_body:
  "patch_http_url ([80,79,83,84,32,47,32,72,13,10,72,111,115,116,58,32,97,13,10,13,10] @ lit ''Get x'') 26
   = Some (Some ([80,79,83,84,32,47,32,72,13,10,72,111,115,116,58,32,97,13,10,13,10]
                 @ lit ''Get http://ax''))"
  by code_simp

end
