(* ===== verification/Tls.thy ===== *)
theory Tls
  imports CString
begin

text \<open>
  \<open>tls.c\<close>: the server name of a TLS client hello. \<open>m\<close> is the buffer from the \<open>data\<close>
  pointer on and \<open>data_len\<close> the length the caller passes. A routine returns \<open>Some None\<close>
  when it leaves \<open>hostname\<close> as it was and \<open>Some (Some h)\<close> when it stored \<open>h\<close>.
\<close>

definition be16_at :: "bytes \<Rightarrow> nat \<Rightarrow> nat option" where
  "be16_at m i = do { a \<leftarrow> rd8 m i; b \<leftarrow> rd8 m (i + 1); Some (256 * unat a + unat b) }"

definition FQDN_MAX :: nat where "FQDN_MAX = 255"

function sni_loop :: "bytes \<Rightarrow> nat \<Rightarrow> nat \<Rightarrow> bytes option option" where
  "sni_loop m data_len pos =
     (if pos + 3 < data_len then
        do { len \<leftarrow> be16_at m (pos + 1);
             if pos + 3 + len > data_len then Some None
             else do { name_type \<leftarrow> rd8 m pos;
                       if name_type = 0 then
                         do { h \<leftarrow> strncpy m (pos + 3) (min len FQDN_MAX); Some (Some h) }
                       else sni_loop m data_len (pos + (3 + len)) } }
      else Some None)"
  by pat_completeness auto
termination by (relation "measure (\<lambda>(m, n, pos). n - pos)") auto

declare sni_loop.simps [simp del]

text \<open>The loop starts behind the length of the server name list.\<close>

definition parse_server_name_extension :: "bytes \<Rightarrow> nat \<Rightarrow> bytes option option" where
  "parse_server_name_extension m data_len = sni_loop m data_len 2"

function ext_loop :: "bytes \<Rightarrow> nat \<Rightarrow> nat \<Rightarrow> bytes option option" where
  "ext_loop m data_len pos =
     (if pos + 4 \<le> data_len then
        do { len \<leftarrow> be16_at m (pos + 2);
             a \<leftarrow> rd8 m pos;
             b \<leftarrow> (if a = 0 then rd8 m (pos + 1) else Some 0);
             if a = 0 \<and> b = 0 then
               (if pos + 4 + len > data_len then Some None
                else parse_server_name_extension (drop (pos + 4) m) len)
             else ext_loop m data_len (pos + (4 + len)) }
      else Some None)"
  by pat_completeness auto
termination by (relation "measure (\<lambda>(m, n, pos). n - pos)") auto

declare ext_loop.simps [simp del]

definition parse_extensions :: "bytes \<Rightarrow> nat \<Rightarrow> bytes option option" where
  "parse_extensions m data_len = ext_loop m data_len 0"

definition TLS_HEADER_LEN :: nat where "TLS_HEADER_LEN = 5"

text \<open>
  \<open>char_signed\<close> tells whether plain \<open>char\<close> is a signed type, which the comparison of the
  major version depends on.
\<close>

definition char_val :: "bool \<Rightarrow> u8 \<Rightarrow> int" where
  "char_val char_signed c = (if char_signed then sint c else uint c)"

text \<open>The fields behind the handshake header, from the session id on.\<close>

definition parse_hello_body :: "bytes \<Rightarrow> nat \<Rightarrow> nat \<Rightarrow> bool \<Rightarrow> bytes option option" where
  "parse_hello_body m data_len pos v30 =
     (if pos + 1 > data_len then Some None
      else do {
        sid \<leftarrow> rd8 m pos;
        let pos = pos + (1 + unat sid);
        if pos + 2 > data_len then Some None
        else do {
          cs \<leftarrow> be16_at m pos;
          let pos = pos + (2 + cs);
          if pos + 1 > data_len then Some None
          else do {
            cm \<leftarrow> rd8 m pos;
            let pos = pos + (1 + unat cm);
            if pos = data_len \<and> v30 then Some None
            else if pos + 2 > data_len then Some None
            else do {
              len \<leftarrow> be16_at m pos;
              let pos = pos + 2;
              if pos + len > data_len then Some None
              else parse_extensions (drop pos m) len } } } })"

definition parse_tls_header :: "bool \<Rightarrow> bytes \<Rightarrow> nat \<Rightarrow> bytes option option" where
  "parse_tls_header char_signed m data_len =
     (if data_len < TLS_HEADER_LEN then Some None
      else do {
        d0 \<leftarrow> rd8 m 0;
        ssl2 \<leftarrow> (if d0 AND 0x80 \<noteq> 0 then do { t \<leftarrow> rd8 m 2; Some (t = 1) } else Some False);
        if ssl2 then Some None
        else if d0 \<noteq> 0x16 then Some None
        else do {
          d1 \<leftarrow> rd8 m 1;
          d2 \<leftarrow> rd8 m 2;
          if char_val char_signed d1 < 3 then Some None
          else do {
            rec \<leftarrow> be16_at m 3;
            let len = rec + TLS_HEADER_LEN;
            let data_len = min data_len len;
            if data_len < len then Some None
            else if TLS_HEADER_LEN + 1 > data_len then Some None
            else do {
              t \<leftarrow> rd8 m TLS_HEADER_LEN;
              if t \<noteq> 1 then Some None
              else parse_hello_body m data_len (TLS_HEADER_LEN + 38) (d1 = 3 \<and> d2 = 0) } } } })"

section \<open>Memory safety\<close>

lemma be16_at_in: "i + 1 < length m \<Longrightarrow> be16_at m i = Some (256 * unat (m ! i) + unat (m ! (i + 1)))"
  by (simp add: be16_at_def)

lemma sni_loop_safe: "data_len \<le> length m \<Longrightarrow> sni_loop m data_len pos \<noteq> None"
proof (induction m data_len pos rule: sni_loop.induct)
  case (1 m n pos)
  show ?case
  proof (cases "pos + 3 < n")
    case True
    then obtain len where len: "be16_at m (pos + 1) = Some len"
      using 1(2) be16_at_in [of "pos + 1" m] by auto
    have "strncpy m (pos + 3) (min len FQDN_MAX) \<noteq> None" if "pos + 3 + len \<le> n"
      using that 1(2) by (intro strncpy_defined) simp
    moreover have "sni_loop m n (pos + (3 + len)) \<noteq> None"
      if "pos + 3 + len \<le> n" "m ! pos \<noteq> 0"
      using 1(1) [OF True len, of "m ! pos"] that True 1(2) by simp
    ultimately show ?thesis
      using True len 1(2) by (subst sni_loop.simps) auto
  qed (subst sni_loop.simps, simp)
qed

lemma ext_loop_safe: "data_len \<le> length m \<Longrightarrow> ext_loop m data_len pos \<noteq> None"
proof (induction m data_len pos rule: ext_loop.induct)
  case (1 m n pos)
  show ?case
  proof (cases "pos + 4 \<le> n")
    case True
    then obtain len where len: "be16_at m (pos + 2) = Some len"
      using 1(2) be16_at_in [of "pos + 2" m] by auto
    have "parse_server_name_extension (drop (pos + 4) m) len \<noteq> None" if "pos + 4 + len \<le> n"
      unfolding parse_server_name_extension_def using that 1(2) by (intro sni_loop_safe) simp
    moreover have "ext_loop m n (pos + (4 + len)) \<noteq> None"
      if "\<not> (m ! pos = 0 \<and> m ! (pos + 1) = 0)"
      using 1(1) [OF True len, of "m ! pos" "if m ! pos = 0 then m ! (pos + 1) else 0"] that True 1(2)
      by (simp split: if_splits)
    ultimately show ?thesis
      using True len 1(2) by (subst ext_loop.simps) auto
  qed (subst ext_loop.simps, simp)
qed

lemma parse_hello_body_safe:
  assumes "data_len \<le> length m"
  shows "parse_hello_body m data_len pos v30 \<noteq> None"
proof -
  have "parse_extensions (drop p m) len \<noteq> None" if "p + len \<le> data_len" for p len
    unfolding parse_extensions_def using that assms by (intro ext_loop_safe) simp
  then show ?thesis
    using assms by (auto simp: parse_hello_body_def Let_def be16_at_in)
qed

lemma parse_tls_header_defined:
  assumes "data_len \<le> length m"
  shows "parse_tls_header sc m data_len \<noteq> None"
proof -
  have "parse_hello_body m k pos v \<noteq> None" if "k \<le> data_len" for k pos v
    using assms that by (intro parse_hello_body_safe) simp
  then have body: "\<exists>r. parse_hello_body m k pos v = Some r" if "k \<le> data_len" for k pos v
    using that by simp
  show ?thesis
  proof (cases "data_len < 5")
    case False
    then have r: "rd8 m i = Some (m ! i)" if "i < 5" for i using that assms by simp
    have t: "\<exists>t. rd8 m 5 = Some t" if "5 < data_len" using that assms by simp
    show ?thesis
      using False assms body t
      by (auto simp: parse_tls_header_def Let_def be16_at_def r TLS_HEADER_LEN_def not_le min_def)
  qed (simp add: parse_tls_header_def TLS_HEADER_LEN_def)
qed

section \<open>The name of a well-formed client hello\<close>

definition be16 :: "nat \<Rightarrow> bytes" where
  "be16 n = [of_nat (n div 256), of_nat n]"

text \<open>An extension of another type, and the extension that carries the host name \<open>h\<close>.\<close>

definition other_ext :: "u8 \<times> u8 \<times> bytes \<Rightarrow> bytes" where
  "other_ext e = (case e of (a, b, body) \<Rightarrow> [a, b] @ be16 (length body) @ body)"

definition sni_ext :: "bytes \<Rightarrow> bytes" where
  "sni_ext h = [0, 0] @ be16 (length h + 5) @ be16 (length h + 3) @ [0] @ be16 (length h) @ h"

text \<open>
  The handshake message: \<open>front\<close> stands for the 38 bytes from the handshake type up to the
  random value; session id, cipher suites, compression methods and extensions follow.
\<close>

definition hello_body :: "bytes \<Rightarrow> bytes \<Rightarrow> bytes \<Rightarrow> bytes \<Rightarrow> bytes" where
  "hello_body sid cs cm ex =
     [of_nat (length sid)] @ sid @ be16 (length cs) @ cs @ [of_nat (length cm)] @ cm
       @ be16 (length ex) @ ex"

definition client_hello :: "u8 \<Rightarrow> bytes \<Rightarrow> bytes \<Rightarrow> bytes" where
  "client_hello minor front body =
     [0x16, 3, minor] @ be16 (length front + length body) @ front @ body"

lemma length_be16 [simp]: "length (be16 n) = 2"
  by (simp add: be16_def)

lemma be16_at_app:
  assumes "n < 65536" and "length a = i"
  shows "be16_at (a @ be16 n @ b) i = Some n"
proof -
  have "unat (of_nat n :: u8) = n mod 256" by (simp add: unat_of_nat take_bit_eq_mod)
  moreover have "unat (of_nat (n div 256) :: u8) = n div 256"
    using assms(1) by (intro unat_of_nat8) (simp add: less_mult_imp_div_less)
  ultimately show ?thesis
    using assms(2) by (simp add: be16_at_def be16_def rd8_append2 nth_append rd8_def)
qed

lemma strncpy_app: "length a = i \<Longrightarrow> 0 \<notin> set h \<Longrightarrow> strncpy (a @ h @ b) i (length h) = Some h"
proof (induction h arbitrary: a i)
  case (Cons c h)
  then show ?case
    using Cons.IH [of "a @ [c]" "Suc i"] by (simp add: rd8_append2 rd8_def nth_append)
qed simp

lemma sni_found:
  assumes "h \<noteq> []" and "length h \<le> 255" and "0 \<notin> set h"
  shows "parse_server_name_extension
           (be16 (length h + 3) @ [0] @ be16 (length h) @ h @ tail) (length h + 5) = Some (Some h)"
proof -
  let ?m = "be16 (length h + 3) @ [0] @ be16 (length h) @ h @ tail"
  have "be16_at ?m 3 = Some (length h)"
    using assms(2) be16_at_app [of "length h" "be16 (length h + 3) @ [0]" 3 "h @ tail"] by simp
  moreover have "rd8 ?m 2 = Some 0" by (simp add: rd8_append2 rd8_def nth_append)
  moreover have "strncpy ?m 5 (length h) = Some h"
    using strncpy_app [of "be16 (length h + 3) @ [0] @ be16 (length h)" 5 h tail] assms(3) by simp
  ultimately show ?thesis
    using assms(1,2)
    by (simp add: parse_server_name_extension_def FQDN_MAX_def min_def sni_loop.simps [of _ _ 2])
qed

definition other_ok :: "u8 \<times> u8 \<times> bytes \<Rightarrow> bool" where
  "other_ok e \<longleftrightarrow> (case e of (a, b, body) \<Rightarrow> (a \<noteq> 0 \<or> b \<noteq> 0) \<and> length body < 65536)"

lemma ext_loop_finds:
  assumes "h \<noteq> []" and "length h \<le> 255" and "0 \<notin> set h"
  shows "list_all other_ok es \<Longrightarrow> length pre = pos \<Longrightarrow>
     pos + length (concat (map other_ext es) @ sni_ext h) \<le> data_len \<Longrightarrow>
     ext_loop (pre @ concat (map other_ext es) @ sni_ext h @ tail) data_len pos = Some (Some h)"
proof (induction es arbitrary: pre pos)
  case Nil
  let ?m = "pre @ concat (map other_ext []) @ sni_ext h @ tail"
  have "be16_at ?m (pos + 2) = Some (length h + 5)"
    using Nil assms(2) be16_at_app [of "length h + 5" "pre @ [0, 0]" "pos + 2"]
    by (simp add: sni_ext_def)
  moreover have "rd8 ?m pos = Some 0" "rd8 ?m (Suc pos) = Some 0"
    using Nil by (simp_all add: sni_ext_def rd8_def nth_append)
  moreover have "drop (pos + 4) ?m = be16 (length h + 3) @ [0] @ be16 (length h) @ h @ tail"
    using Nil by (simp add: sni_ext_def)
  ultimately show ?case
    using Nil assms sni_found [OF assms, of tail]
    by (subst ext_loop.simps) (simp add: sni_ext_def)
next
  case (Cons e es)
  obtain a b body where e: "e = (a, b, body)" by (cases e)
  let ?m = "pre @ concat (map other_ext (e # es)) @ sni_ext h @ tail"
  let ?pre = "pre @ other_ext e"
  have "other_ok e" and es: "list_all other_ok es" using Cons.prems(1) by simp_all
  then have ok: "a \<noteq> 0 \<or> b \<noteq> 0" "length body < 65536" using e by (simp_all add: other_ok_def)
  have m: "?m = ?pre @ concat (map other_ext es) @ sni_ext h @ tail" by simp
  have "be16_at ?m (pos + 2) = Some (length body)"
    using Cons.prems(2) ok(2) e be16_at_app [of "length body" "pre @ [a, b]" "pos + 2"]
    by (simp add: other_ext_def)
  moreover have "rd8 ?m pos = Some a" "rd8 ?m (Suc pos) = Some b"
    using Cons.prems(2) e by (simp_all add: other_ext_def rd8_def nth_append)
  moreover have "ext_loop ?m data_len (pos + (4 + length body)) = Some (Some h)"
    unfolding m using Cons.prems e es by (intro Cons.IH) (simp_all add: other_ext_def)
  moreover have "pos + 4 \<le> data_len" using Cons.prems(3) e by (simp add: other_ext_def)
  ultimately show ?case
    using ok(1) by (subst ext_loop.simps) auto
qed

lemma parse_hello_body_finds:
  assumes "length pre = pos" and "length sid < 256" and "length cs < 65536" and "length cm < 256"
    and "length ex < 65536" and "ex \<noteq> []"
    and "pos + length (hello_body sid cs cm ex) \<le> data_len"
    and "parse_extensions (ex @ tail) (length ex) = r"
  shows "parse_hello_body (pre @ hello_body sid cs cm ex @ tail) data_len pos v30 = r"
proof -
  let ?m = "pre @ hello_body sid cs cm ex @ tail"
  let ?p1 = "pos + (1 + length sid)"
  let ?p2 = "?p1 + (2 + length cs)"
  let ?p3 = "?p2 + (1 + length cm)"
  have "rd8 ?m pos = Some (of_nat (length sid))"
    using assms(1) by (simp add: hello_body_def rd8_def nth_append)
  moreover have "be16_at ?m ?p1 = Some (length cs)"
    using assms(1,3) be16_at_app [of "length cs" "pre @ [of_nat (length sid)] @ sid" ?p1]
    by (simp add: hello_body_def)
  moreover have "rd8 ?m ?p2 = Some (of_nat (length cm))"
    using assms(1) rd8_append [of "pre @ [of_nat (length sid)] @ sid @ be16 (length cs) @ cs"
        "[of_nat (length cm)] @ cm @ be16 (length ex) @ ex @ tail" 0]
    by (simp add: hello_body_def add.assoc rd8_def)
  moreover have "be16_at ?m ?p3 = Some (length ex)"
    using assms(1,5) be16_at_app [of "length ex" "pre @ [of_nat (length sid)] @ sid @ be16 (length cs)
        @ cs @ [of_nat (length cm)] @ cm" ?p3]
    by (simp add: hello_body_def)
  moreover have "drop (?p3 + 2) ?m = ex @ tail"
    using assms(1) append_eq_conv_conj [of "pre @ [of_nat (length sid)] @ sid @ be16 (length cs) @ cs
        @ [of_nat (length cm)] @ cm @ be16 (length ex)" "ex @ tail" ?m]
    by (simp add: hello_body_def add.assoc)
  ultimately show ?thesis
    using assms by (simp add: parse_hello_body_def Let_def unat_of_nat8 hello_body_def)
qed

section \<open>The stored name\<close>

lemma sni_loop_name:
  "sni_loop m n pos = Some (Some h) \<Longrightarrow> length h \<le> 255 \<and> 0 \<notin> set h"
proof (induction m n pos rule: sni_loop.induct)
  case (1 m n pos)
  from "1.prems" obtain len t where
    t: "pos + 3 < n" "be16_at m (pos + 1) = Some len" "\<not> pos + 3 + len > n" "rd8 m pos = Some t"
      "(if t = 0 then do { h \<leftarrow> strncpy m (pos + 3) (min len FQDN_MAX); Some (Some h) }
        else sni_loop m n (pos + (3 + len))) = Some (Some h)"
    by (subst (asm) sni_loop.simps) (auto simp: bind_eq_Some_conv split: if_splits)
  show ?case
  proof (cases "t = 0")
    case True
    with t(5) have c: "strncpy m (pos + 3) (min len FQDN_MAX) = Some h"
      by (auto simp: bind_eq_Some_conv)
    then show ?thesis using length_strncpy [OF c] strncpy_no_NUL [OF c] by (simp add: FQDN_MAX_def)
  next
    case False
    with t(5) show ?thesis using "1.IH" [OF t(1-4) False] by simp
  qed
qed

lemma ext_loop_name:
  "ext_loop m n pos = Some (Some h) \<Longrightarrow> length h \<le> 255 \<and> 0 \<notin> set h"
proof (induction m n pos rule: ext_loop.induct)
  case (1 m n pos)
  from "1.prems" obtain len a b where
    t: "pos + 4 \<le> n" "be16_at m (pos + 2) = Some len" "rd8 m pos = Some a"
      "(if a = 0 then rd8 m (pos + 1) else Some 0) = Some b"
      "(if a = 0 \<and> b = 0 then (if pos + 4 + len > n then Some None
          else parse_server_name_extension (drop (pos + 4) m) len)
        else ext_loop m n (pos + (4 + len))) = Some (Some h)"
    by (subst (asm) ext_loop.simps) (auto simp: bind_eq_Some_conv split: if_splits)
  show ?case
  proof (cases "a = 0 \<and> b = 0")
    case True
    with t(5) show ?thesis
      by (auto simp: parse_server_name_extension_def split: if_splits dest!: sni_loop_name)
  next
    case False
    with t(5) show ?thesis using "1.IH" [OF t(1-4) False] by simp
  qed
qed

lemma parse_tls_header_name:
  "parse_tls_header sc m n = Some (Some h) \<Longrightarrow> length h \<le> 255 \<and> 0 \<notin> set h"
  by (auto simp: parse_tls_header_def parse_hello_body_def parse_extensions_def Let_def
      bind_eq_Some_conv split: if_splits dest!: ext_loop_name)

section \<open>Properties\<close>

text \<open>
  The parser is memory safe and total: when the length passed does not exceed the buffer it
  reads inside the buffer only, whatever the bytes are.
\<close>

theorem parse_tls_header_safe:
  assumes "data_len \<le> length m"
  shows "\<exists>r. parse_tls_header sc m data_len = Some r"
  using parse_tls_header_defined [OF assms] by simp

theorem parse_tls_header_safe_witness:
  "(6::nat) \<le> length [0x16, 3, 1, 0, 1, 1 :: u8]
   \<and> (\<exists>r. parse_tls_header False [0x16, 3, 1, 0, 1, 1] 6 = Some r)"
proof -
  have h: "(6::nat) \<le> length [0x16, 3, 1, 0, 1, 1 :: u8]" by simp
  show ?thesis using h parse_tls_header_safe [OF h] by (rule conjI)
qed

text \<open>
  A name that the parser stores has at most 255 bytes and no NUL, so it fits with its
  terminator in the 512 bytes that \<open>handle_tcp\<close> and the session reserve for it.
\<close>

theorem parse_tls_header_bound:
  assumes "parse_tls_header sc m data_len = Some (Some h)"
  shows "length h + 1 \<le> 512 \<and> length h \<le> FQDN_MAX \<and> 0 \<notin> set h"
  using parse_tls_header_name [OF assms] by (simp add: FQDN_MAX_def)

text \<open>
  C34. The parser finds the server name of every well-formed client hello: whatever the record's
  minor version, random value, session id, cipher suites and compression methods are, whatever
  extensions of other types stand before the server name and whatever follows, the name stored
  is the first host name of the server name extension.
\<close>

theorem parse_tls_header_client_hello:
  assumes "h \<noteq> []" and "length h \<le> 255" and "0 \<notin> set h" and "list_all other_ok es"
    and "ex = concat (map other_ext es) @ sni_ext h @ more" and "length ex < 65536"
    and "length sid < 256" and "length cs < 65536" and "length cm < 256"
    and "length front = 38" and "hd front = 1"
    and "length front + length (hello_body sid cs cm ex) < 65536"
    and "m = client_hello minor front (hello_body sid cs cm ex) @ tail"
    and "length (client_hello minor front (hello_body sid cs cm ex)) \<le> data_len"
  shows "parse_tls_header sc m data_len = Some (Some h)"
proof -
  let ?b = "hello_body sid cs cm ex"
  let ?n = "length front + length ?b"
  have m: "m = ([0x16, 3, minor] @ be16 ?n @ front) @ ?b @ tail"
    using assms(13) by (simp add: client_hello_def)
  have ex: "parse_extensions (ex @ tail) (length ex) = Some (Some h)"
    unfolding parse_extensions_def assms(5)
    using ext_loop_finds [OF assms(1-4), of "[]" 0 "length ex" "more @ tail"] assms(5) by simp
  have "parse_hello_body m (?n + 5) 43 v = Some (Some h)" for v
    unfolding m using assms(5-10) ex
    by (intro parse_hello_body_finds) (simp_all add: sni_ext_def)
  moreover have "be16_at m 3 = Some ?n"
    unfolding m using be16_at_app [of ?n "[0x16, 3, minor]" 3] assms(12) by simp
  moreover have "rd8 m 0 = Some 0x16" "rd8 m 1 = Some 3" "rd8 m 2 = Some minor"
    unfolding m by (simp_all add: rd8_def)
  moreover have "rd8 m 5 = Some 1"
    unfolding m using assms(10,11) by (cases front) (simp_all add: rd8_def nth_append)
  moreover have "?n + 5 \<le> data_len" using assms(14) by (simp add: client_hello_def)
  moreover have "\<not> char_val sc 3 < 3" by (simp add: char_val_def)
  ultimately show ?thesis
    using assms(10)
    by (simp add: parse_tls_header_def Let_def TLS_HEADER_LEN_def min_def)
qed

text \<open>A client hello for the host \<open>a.b\<close>, with one other extension before the name.\<close>

definition sample_front :: bytes where "sample_front = 1 # replicate 37 0"

definition sample_ext :: bytes where
  "sample_ext = concat (map other_ext [(0, 23, [])]) @ sni_ext [97, 46, 98] @ []"

definition sample_hello :: bytes where
  "sample_hello = client_hello 1 sample_front (hello_body [] [0x13, 1] [0] sample_ext) @ []"

theorem parse_tls_header_client_hello_witness:
  "parse_tls_header True sample_hello (length sample_hello) = Some (Some [97, 46, 98])"
  by (rule parse_tls_header_client_hello [OF _ _ _ _ sample_ext_def _ _ _ _ _ _ _ sample_hello_def])
    (simp_all add: other_ok_def sample_ext_def sample_front_def sample_hello_def hello_body_def
      client_hello_def sni_ext_def other_ext_def)

theorem parse_tls_header_bound_witness:
  "parse_tls_header True sample_hello (length sample_hello) = Some (Some [97, 46, 98])
   \<and> length [97, 46, 98 :: u8] \<le> FQDN_MAX"
proof -
  have e: "parse_tls_header True sample_hello (length sample_hello) = Some (Some [97, 46, 98])"
    by code_simp
  show ?thesis using parse_tls_header_bound [OF e] e by blast
qed

end
