(* ===== verification/Dns.thy ===== *)
theory Dns
  imports CString
begin

text \<open>
  \<open>dns.c\<close>: domain names, queries and responses. \<open>m\<close> is the buffer from the \<open>data\<close>
  pointer on (it may extend beyond the \<open>datalen\<close> bytes that were received) and \<open>q\<close> the
  caller's buffer for a name. The loop over the labels follows compression pointers and need
  not end: its result is \<open>None\<close> when it runs forever, \<open>Some None\<close> when it reads or writes
  outside a buffer, and \<open>Some (Some s)\<close> when it is left in state \<open>s\<close>.
\<close>

definition DNS_QNAME_MAX :: nat where "DNS_QNAME_MAX = 255"

text \<open>The variables of the loop.\<close>

record qname_state =
  qn_c :: bool
  qn_noff :: u8
  qn_ptr :: u16
  qn_off :: u16
  qn_len :: u8
  qn_name :: bytes

text \<open>One turn of the loop: \<open>Inl\<close> goes on, \<open>Inr\<close> leaves it.\<close>

definition qname_step ::
  "bytes \<Rightarrow> nat \<Rightarrow> qname_state \<Rightarrow> (qname_state + qname_state) option" where
  "qname_step m datalen s =
     (let len = qn_len s; ptr = unat (qn_ptr s); noff = unat (qn_noff s) in
      if len = 0 then Some (Inr s)
      else if len AND 0xC0 \<noteq> 0 then
        do { b \<leftarrow> rd8 m (ptr + 1);
             let ptr' = (of_nat (unat (len AND 0x3F) * 256 + unat b) :: u16);
             len' \<leftarrow> rd8 m (unat ptr');
             Some (Inl (s\<lparr>qn_c := True, qn_ptr := ptr', qn_len := len',
                          qn_off := (if qn_c s then qn_off s else qn_off s + 2)\<rparr>)) }
      else if ptr + 1 + unat len \<le> datalen \<and> noff + unat len \<le> DNS_QNAME_MAX then
        do { label \<leftarrow> rd_block m (ptr + 1) (unat len);
             q \<leftarrow> wr_block (qn_name s) noff (label @ [of_char CHR ''.'']);
             let ptr' = qn_ptr s + (ucast len + 1);
             len' \<leftarrow> rd8 m (unat ptr');
             Some (Inl (s\<lparr>qn_name := q, qn_noff := qn_noff s + (len + 1),
                          qn_ptr := ptr', qn_len := len'\<rparr>)) }
      else Some (Inr s))"

partial_function (option) qname_loop ::
  "bytes \<Rightarrow> nat \<Rightarrow> qname_state \<Rightarrow> qname_state option option" where
  "qname_loop m datalen s =
     (case qname_step m datalen s of
        None \<Rightarrow> Some None
      | Some r \<Rightarrow> (case r of Inr s' \<Rightarrow> Some (Some s') | Inl s' \<Rightarrow> qname_loop m datalen s'))"

declare qname_loop.simps [code]

text \<open>The variables before the first turn.\<close>

definition qname_start :: "u16 \<Rightarrow> u8 \<Rightarrow> bytes \<Rightarrow> qname_state" where
  "qname_start off len q = \<lparr>qn_c = False, qn_noff = 0, qn_ptr = off, qn_off = off,
                            qn_len = len, qn_name = q\<rparr>"

text \<open>The value returned with the name buffer.\<close>

definition get_qname :: "bytes \<Rightarrow> nat \<Rightarrow> u16 \<Rightarrow> bytes \<Rightarrow> (int \<times> bytes) option" where
  "get_qname m datalen off q =
     do { q \<leftarrow> wr_block q 0 [0];
          len \<leftarrow> rd8 m (unat off);
          r \<leftarrow> qname_loop m datalen (qname_start off len q);
          s \<leftarrow> r;
          if qn_len s \<noteq> 0 \<or> qn_noff s = 0 then Some (- 1, qn_name s)
          else do { q \<leftarrow> wr_block (qn_name s) (unat (qn_noff s) - 1) [0];
                    Some (if qn_c s then uint (qn_off s) else uint (qn_ptr s + 1), q) } }"

section \<open>Headers\<close>

definition DNS_HEADER_LEN :: nat where "DNS_HEADER_LEN = 12"

text \<open>\<open>qr\<close> and \<open>opcode\<close> lie in the third byte; the counts are in network order.\<close>

definition dns_qr :: "u8 \<Rightarrow> bool" where "dns_qr b \<longleftrightarrow> bit b 7"

definition dns_opcode :: "u8 \<Rightarrow> u8" where "dns_opcode b = drop_bit 3 b AND 0x0F"

definition rd_ntohs :: "bytes \<Rightarrow> nat \<Rightarrow> nat option" where
  "rd_ntohs m i = do { w \<leftarrow> rd16 m i; Some (unat (ntohs w)) }"

definition name_buffer :: bytes where "name_buffer = replicate (DNS_QNAME_MAX + 1) 0"

text \<open>
  \<open>get_dns_query\<close>: \<open>Some None\<close> for the result -1, else type, class and name of the question.
\<close>

definition get_dns_query :: "bytes \<Rightarrow> nat \<Rightarrow> (nat \<times> nat \<times> bytes) option option" where
  "get_dns_query m datalen =
     (if datalen < DNS_HEADER_LEN + 1 then Some None
      else do {
        flags \<leftarrow> rd8 m 2;
        qcount \<leftarrow> rd_ntohs m 4;
        if \<not> dns_qr flags \<and> dns_opcode flags = 0 \<and> qcount > 0 then
          do { (off, qname) \<leftarrow> get_qname m datalen (of_nat DNS_HEADER_LEN) name_buffer;
               if off > 0 \<and> off + 4 = int datalen then
                 do { qtype \<leftarrow> rd_ntohs m (nat off);
                      qclass \<leftarrow> rd_ntohs m (nat off + 2);
                      Some (Some (qtype, qclass, qname)) }
               else Some None }
        else Some None })"

section \<open>Responses\<close>

definition DNS_QCLASS_IN :: nat where "DNS_QCLASS_IN = 1"
definition DNS_QTYPE_A :: nat where "DNS_QTYPE_A = 1"
definition DNS_QTYPE_AAAA :: nat where "DNS_QTYPE_AAAA = 28"

text \<open>
  The loop over the answers. The routine only reads and logs, so its result is whether it comes
  to an end without leaving the buffer; \<open>inet_ntop\<close> reads 4 or 16 bytes of the data.
\<close>

fun answers_loop :: "bytes \<Rightarrow> nat \<Rightarrow> nat \<Rightarrow> int \<Rightarrow> unit option" where
  "answers_loop m datalen 0 off = Some ()"
| "answers_loop m datalen (Suc a) off =
     do { (off, name) \<leftarrow> get_qname m datalen (word_of_int off) name_buffer;
          if off > 0 \<and> off + 10 \<le> int datalen then
            do { qtype \<leftarrow> rd_ntohs m (nat off);
                 qclass \<leftarrow> rd_ntohs m (nat off + 2);
                 ttl \<leftarrow> rd32 m (nat off + 4);
                 rdlength \<leftarrow> rd_ntohs m (nat off + 8);
                 let off = off + 10;
                 if off + int rdlength \<le> int datalen then
                   do { addr \<leftarrow> (if qclass = DNS_QCLASS_IN \<and> qtype = DNS_QTYPE_A
                                 then rd_block m (nat off) 4
                                 else if qclass = DNS_QCLASS_IN \<and> qtype = DNS_QTYPE_AAAA
                                 then rd_block m (nat off) 16 else Some []);
                        answers_loop m datalen a (off + int rdlength) }
                 else Some () }
          else Some () }"

definition parse_dns_response :: "bytes \<Rightarrow> nat \<Rightarrow> unit option" where
  "parse_dns_response m datalen =
     (if datalen < DNS_HEADER_LEN + 1 then Some ()
      else do {
        flags \<leftarrow> rd8 m 2;
        qcount \<leftarrow> rd_ntohs m 4;
        acount \<leftarrow> rd_ntohs m 6;
        if dns_qr flags \<and> dns_opcode flags = 0 \<and> qcount > 0 \<and> acount > 0 then
          do { (off, name) \<leftarrow> get_qname m datalen (of_nat DNS_HEADER_LEN) name_buffer;
               if off > 0 \<and> off + 4 \<le> int datalen then
                 do { qtype \<leftarrow> rd_ntohs m (nat off);
                      qclass \<leftarrow> rd_ntohs m (nat off + 2);
                      answers_loop m datalen acount (off + 4) }
               else Some () }
        else Some () })"

definition check_domain :: "bytes \<Rightarrow> nat \<Rightarrow> nat \<Rightarrow> nat \<Rightarrow> bytes \<Rightarrow> int" where
  "check_domain m datalen qclass qtype name = 0"

section \<open>Names that never end\<close>

text \<open>A state in which the pointer at hand points to itself; a turn of the loop keeps it so.\<close>

definition qname_stuck :: "bytes \<Rightarrow> qname_state \<Rightarrow> bool" where
  "qname_stuck m s \<longleftrightarrow> qn_len s AND 0xC0 \<noteq> 0 \<and> rd8 m (unat (qn_ptr s)) = Some (qn_len s) \<and>
     (\<exists>b. rd8 m (unat (qn_ptr s) + 1) = Some b \<and>
          qn_ptr s = of_nat (unat (qn_len s AND 0x3F) * 256 + unat b))"

lemma qname_stuck_step:
  assumes "qname_stuck m s"
  shows "\<exists>s'. qname_step m n s = Some (Inl s') \<and> qname_stuck m s'"
proof -
  from assms obtain b where b: "qn_len s AND 0xC0 \<noteq> 0" "rd8 m (unat (qn_ptr s)) = Some (qn_len s)"
    "rd8 m (unat (qn_ptr s) + 1) = Some b"
    "of_nat (unat (qn_len s AND 0x3F) * 256 + unat b) = qn_ptr s"
    by (auto simp: qname_stuck_def)
  then have "qn_len s \<noteq> 0" by auto
  with b show ?thesis
    by (auto simp: qname_step_def qname_stuck_def Let_def simp del: of_nat_add of_nat_mult)
qed

lemma qname_loop_stuck: "qname_stuck m s \<Longrightarrow> qname_loop m n s = None"
proof (rule ccontr)
  assume st: "qname_stuck m s" and "qname_loop m n s \<noteq> None"
  then obtain r where "qname_loop m n s = Some r" by blast
  then have "\<not> qname_stuck m s"
  proof (rule qname_loop.raw_induct [where P = "\<lambda>m n s r. \<not> qname_stuck m s", rotated])
    fix f m n s r
    assume IH: "\<And>m n s r. f m n s = Some r \<Longrightarrow> \<not> qname_stuck m s"
      and eq: "(case qname_step m n s of None \<Rightarrow> Some None
        | Some r \<Rightarrow> (case r of Inr s' \<Rightarrow> Some (Some s') | Inl s' \<Rightarrow> f m n s')) = Some r"
    show "\<not> qname_stuck m s"
    proof
      assume "qname_stuck m s"
      then obtain s' where "qname_step m n s = Some (Inl s')" "qname_stuck m s'"
        using qname_stuck_step by blast
      with IH [of m n s' r] eq show False by simp
    qed
  qed
  with st show False by contradiction
qed

section \<open>Memory safety\<close>

definition qname_inv :: "bytes \<Rightarrow> nat \<Rightarrow> qname_state \<Rightarrow> bool" where
  "qname_inv m n s \<longleftrightarrow> 16385 \<le> length m \<and> n + 2 \<le> length m \<and> unat (qn_ptr s) + 2 \<le> length m
     \<and> length (qn_name s) = 256"

lemma unat_and_3F: "unat ((w :: u8) AND 0x3F) \<le> 63"
proof -
  have "w AND 0x3F \<le> 0x3F" by (rule word_and_le1)
  then show ?thesis by (simp add: word_le_nat_alt)
qed

lemma qname_step_inv:
  assumes "qname_inv m n s"
  shows "\<exists>r. qname_step m n s = Some r \<and> (\<forall>s'. r = Inl s' \<or> r = Inr s' \<longrightarrow> qname_inv m n s')"
proof -
  note inv = assms [unfolded qname_inv_def]
  consider (zero) "qn_len s = 0" | (ptr) "qn_len s \<noteq> 0" "qn_len s AND 0xC0 \<noteq> 0"
    | (label) "qn_len s \<noteq> 0" "qn_len s AND 0xC0 = 0"
      "unat (qn_ptr s) + 1 + unat (qn_len s) \<le> n \<and> unat (qn_noff s) + unat (qn_len s) \<le> 255"
    | (stop) "qn_len s \<noteq> 0" "qn_len s AND 0xC0 = 0"
      "\<not> (unat (qn_ptr s) + 1 + unat (qn_len s) \<le> n \<and> unat (qn_noff s) + unat (qn_len s) \<le> 255)"
    by blast
  then show ?thesis
  proof cases
    case ptr
    let ?b = "m ! (unat (qn_ptr s) + 1)"
    let ?k = "unat (qn_len s AND 0x3F) * 256 + unat ?b"
    have k: "?k \<le> 16383" using unat_and_3F [of "qn_len s"] unat_u8 [of ?b] by simp
    then have "unat (of_nat ?k :: u16) = ?k" by (intro unat_of_nat16) simp
    moreover have "rd8 m (unat (qn_ptr s) + 1) = Some ?b" using inv by simp
    moreover have "rd8 m ?k = Some (m ! ?k)" using k inv by simp
    ultimately show ?thesis
      using ptr inv k
      by (simp add: qname_step_def Let_def qname_inv_def del: of_nat_add of_nat_mult)
  next
    case label
    let ?p = "unat (qn_ptr s + (ucast (qn_len s) + 1))"
    have "?p \<le> unat (qn_ptr s) + (unat (qn_len s) + 1)"
      using unat_u8 [of "qn_len s"] by (simp add: unat_word_ariths unat_ucast_mod)
    then have p: "?p \<le> n" using label(3) by simp
    have "unat (qn_ptr s) + 1 + unat (qn_len s) \<le> length m" using label(3) inv by linarith
    then obtain lb where lb: "rd_block m (unat (qn_ptr s) + 1) (unat (qn_len s)) = Some lb"
      "length lb = unat (qn_len s)"
      by (rule rd_block_in)
    then obtain q where q: "wr_block (qn_name s) (unat (qn_noff s)) (lb @ [of_char CHR ''.'']) = Some q"
      using label(3) inv by (simp add: wr_block_def)
    show ?thesis
      using label inv lb q p length_wr_block [OF q]
      by (simp add: qname_step_def Let_def qname_inv_def DNS_QNAME_MAX_def)
  qed (use assms in \<open>auto simp: qname_step_def Let_def DNS_QNAME_MAX_def\<close>)
qed

lemma qname_loop_safe:
  assumes "qname_inv m n s" and "qname_loop m n s = Some r"
  shows "\<exists>s'. r = Some s' \<and> qname_inv m n s'"
proof -
  have "qname_inv m n s \<longrightarrow> (\<exists>s'. r = Some s' \<and> qname_inv m n s')"
    using assms(2)
  proof (rule qname_loop.raw_induct [where P = "\<lambda>m n s r. qname_inv m n s \<longrightarrow> (\<exists>s'. r = Some s' \<and> qname_inv m n s')", rotated])
    fix f m n s r
    assume IH: "\<And>m n s r. f m n s = Some r \<Longrightarrow> qname_inv m n s \<longrightarrow> (\<exists>s'. r = Some s' \<and> qname_inv m n s')"
      and eq: "(case qname_step m n s of None \<Rightarrow> Some None
        | Some r \<Rightarrow> (case r of Inr s' \<Rightarrow> Some (Some s') | Inl s' \<Rightarrow> f m n s')) = Some r"
    show "qname_inv m n s \<longrightarrow> (\<exists>s'. r = Some s' \<and> qname_inv m n s')"
    proof
      assume "qname_inv m n s"
      then obtain x where x: "qname_step m n s = Some x" "\<forall>s'. x = Inl s' \<or> x = Inr s' \<longrightarrow> qname_inv m n s'"
        using qname_step_inv by blast
      with IH eq show "\<exists>s'. r = Some s' \<and> qname_inv m n s'" by (cases x) auto
    qed
  qed
  with assms(1) show ?thesis by simp
qed

section \<open>Encoded names\<close>

definition encode_label :: "bytes \<Rightarrow> bytes" where
  "encode_label l = of_nat (length l) # l"

definition encode_name :: "bytes list \<Rightarrow> bytes" where
  "encode_name ls = concat (map encode_label ls) @ [0]"

definition dotted :: "bytes list \<Rightarrow> bytes" where
  "dotted ls = concat (map (\<lambda>l. l @ [of_char CHR ''.'']) ls)"

definition label_ok :: "bytes \<Rightarrow> bool" where
  "label_ok l \<longleftrightarrow> 1 \<le> length l \<and> length l \<le> 63 \<and> 0 \<notin> set l"

lemma label_len: "label_ok l \<Longrightarrow> (of_nat (length l) :: u8) AND 0xC0 = 0"
proof -
  have "list_all (\<lambda>n. (of_nat n :: u8) AND 0xC0 = 0) [0..<64]" by code_simp
  then show "label_ok l \<Longrightarrow> (of_nat (length l) :: u8) AND 0xC0 = 0"
    by (auto simp: list_all_iff label_ok_def)
qed

text \<open>
  The loop on encoded labels: \<open>done\<close> is the part of the name written so far, \<open>room\<close> the rest
  of the name buffer.
\<close>

lemma qname_loop_labels:
  assumes "\<forall>l \<in> set ls. label_ok l"
    and "m = pre @ encode_name ls @ tail" and "unat (qn_ptr s) = length pre"
    and "rd8 m (length pre) = Some (qn_len s)"
    and "qn_name s = written @ room" and "unat (qn_noff s) = length written"
    and "length written + length (dotted ls) \<le> 255" and "length written + length room = 256"
    and "length pre + length (encode_name ls) \<le> n" and "n < 65536"
  shows "\<exists>s'. qname_loop m n s = Some (Some s') \<and> qn_len s' = 0 \<and> qn_c s' = qn_c s
      \<and> qn_off s' = qn_off s \<and> unat (qn_ptr s') + 1 = length pre + length (encode_name ls)
      \<and> unat (qn_noff s') = length written + length (dotted ls)
      \<and> (\<exists>room'. qn_name s' = written @ dotted ls @ room'
                 \<and> length written + length (dotted ls) + length room' = 256)"
  using assms
proof (induction ls arbitrary: pre s written room)
  case Nil
  then have "qn_len s = 0" by (simp add: encode_name_def rd8_append2 rd8_def)
  then show ?case
    using Nil by (simp add: qname_loop.simps [of _ _ s] qname_step_def encode_name_def dotted_def)
next
  case (Cons l ls)
  have l: "label_ok l" "1 \<le> length l" "length l \<le> 63" using Cons.prems(1) by (auto simp: label_ok_def)
  have len: "qn_len s = of_nat (length l)"
    using Cons.prems(2,4) by (simp add: encode_name_def encode_label_def rd8_def nth_append)
  have ulen: "unat (qn_len s) = length l" unfolding len using l by (intro unat_of_nat8) simp
  then have nz: "qn_len s \<noteq> 0" using l(2) by auto
  have ptr: "length pre + 1 + length l \<le> n" "length written + length l \<le> 255"
    using Cons.prems(7,9) by (simp_all add: encode_name_def encode_label_def dotted_def)
  let ?pre = "pre @ encode_label l"
  have m: "m = ?pre @ encode_name ls @ tail" using Cons.prems(2) by (simp add: encode_name_def)
  have block: "rd_block m (length pre + 1) (length l) = Some l"
    using Cons.prems(2) by (simp add: encode_name_def encode_label_def rd_block_def)
  define room1 where "room1 = take (length l + 1) room"
  define room2 where "room2 = drop (length l + 1) room"
  have room: "room = room1 @ room2" "length room1 = length l + 1"
    using Cons.prems(8) ptr(2) by (simp_all add: room1_def room2_def)
  let ?w = "written @ l @ [of_char CHR ''.'']"
  have wr: "wr_block (qn_name s) (length written) (l @ [of_char CHR ''.'']) = Some (?w @ room2)"
    using wr_block_at [of written "length written" room1 "l @ [of_char CHR ''.'']" room2] room
      Cons.prems(5) by simp
  let ?p = "qn_ptr s + (ucast (qn_len s) + 1)"
  have p: "unat ?p = length ?pre"
    using Cons.prems(3,10) ptr(1) ulen
    by (simp add: unat_word_ariths unat_ucast_mod encode_label_def)
  have nof: "unat (qn_noff s + (qn_len s + 1)) = length ?w"
    using Cons.prems(6) ptr(2) ulen Cons.prems(7) by (simp add: unat_word_ariths dotted_def)
  obtain c where c: "rd8 m (length ?pre) = Some c"
    unfolding m by (simp add: encode_name_def rd8_def)
  let ?s = "s\<lparr>qn_name := ?w @ room2, qn_noff := qn_noff s + (qn_len s + 1),
              qn_ptr := ?p, qn_len := c\<rparr>"
  have step: "qname_step m n s = Some (Inl ?s)"
    using nz label_len [OF l(1)] len ulen ptr block wr c p Cons.prems(3,6)
    by (simp add: qname_step_def Let_def DNS_QNAME_MAX_def)
  obtain s' where s': "qname_loop m n ?s = Some (Some s')" "qn_len s' = 0" "qn_c s' = qn_c ?s"
      "qn_off s' = qn_off ?s" "unat (qn_ptr s') + 1 = length ?pre + length (encode_name ls)"
      "unat (qn_noff s') = length ?w + length (dotted ls)"
      "\<exists>room'. qn_name s' = ?w @ dotted ls @ room'
                \<and> length ?w + length (dotted ls) + length room' = 256"
    using Cons.IH [of ?pre ?s ?w room2] Cons.prems m p nof c room
    by (auto simp: dotted_def encode_name_def)
  moreover have "qname_loop m n s = qname_loop m n ?s"
    using step by (simp add: qname_loop.simps [of m n s])
  ultimately show ?case
    by (intro exI [of _ s']) (auto simp: dotted_def encode_name_def)
qed

lemma get_qname_encoded:
  assumes "\<forall>l \<in> set ls. label_ok l" and "ls \<noteq> []" and "length (dotted ls) \<le> 255"
    and "length pre + length (encode_name ls) \<le> n" and "n < 65536" and "length q = 256"
  shows "\<exists>q'. get_qname (pre @ encode_name ls @ tail) n (of_nat (length pre)) q
                = Some (int (length pre + length (encode_name ls)), q')
              \<and> cstr q' = butlast (dotted ls)"
proof -
  let ?m = "pre @ encode_name ls @ tail"
  let ?off = "of_nat (length pre) :: u16"
  have off: "unat ?off = length pre" using assms(4,5) by (intro unat_of_nat16) simp
  obtain len where len: "rd8 ?m (length pre) = Some len"
    by (simp add: rd8_append2 rd8_def encode_name_def)
  have q0: "wr_block q 0 [0] = Some (0 # tl q)"
    using assms(6) by (cases q) (simp_all add: wr_block_def)
  let ?s = "qname_start ?off len (0 # tl q)"
  obtain s' room' where s': "qname_loop ?m n ?s = Some (Some s')" "qn_len s' = 0" "\<not> qn_c s'"
      "unat (qn_ptr s') + 1 = length pre + length (encode_name ls)"
      "unat (qn_noff s') = length (dotted ls)" "qn_name s' = dotted ls @ room'"
    using qname_loop_labels [of ls ?m pre tail ?s "[]" "0 # tl q" n] assms off len
    by (auto simp: dotted_def qname_start_def)
  obtain l k where ls: "ls = k @ [l]" using assms(2) by (metis rev_exhaust)
  define b where "b = butlast (dotted ls)"
  have d: "dotted ls = b @ [of_char CHR ''.'']"
    by (simp add: ls dotted_def butlast_append b_def)
  then have dl: "length (dotted ls) = length b + 1" by simp
  have "0 \<notin> set (dotted ls)" using assms(1) by (auto simp: dotted_def label_ok_def)
  then have nz: "0 \<notin> set b" using d by simp
  have "qn_name s' = b @ [of_char CHR ''.''] @ room'" using s'(6) d by simp
  then have "wr_block (qn_name s') (length (dotted ls) - 1) [0] = Some (b @ [0] @ room')"
    using dl by (simp only:) (intro wr_block_at, simp_all)
  moreover have "qn_noff s' \<noteq> 0" using s'(5) dl by (auto simp: unat_eq_0)
  moreover have "uint (qn_ptr s' + 1) = int (length pre + length (encode_name ls))"
  proof -
    have "unat (qn_ptr s' + 1) = unat (qn_ptr s') + 1"
      using s'(4) assms(4,5) by (simp add: unat_word_ariths)
    then have "int (unat (qn_ptr s' + 1)) = int (length pre + length (encode_name ls))"
      using s'(4) by (simp only:)
    then show ?thesis by simp
  qed
  moreover have "cstr (b @ [0] @ room') = b"
    using nz by (auto simp: cstr_def takeWhile_append)
  ultimately show ?thesis
    using q0 off len s' by (simp add: get_qname_def b_def [symmetric])
qed

lemma ntohs_le16: "ntohs (le16 a b) = le16 b a"
proof (rule unsigned_word_eqI)
  have "unat (drop_bit 8 (le16 a b)) = unat b"
    using unat_u8 [of a] by (simp add: unat_drop_bit_div unat_le16)
  then have "ucast (drop_bit 8 (le16 a b)) = b"
    using unat_u8 [of b] by (simp add: word_unat_eq_iff unat_ucast_mod)
  moreover have "ucast (le16 a b) = a"
    using unat_u8 [of a] by (simp add: word_unat_eq_iff unat_ucast_mod unat_le16)
  ultimately show "unat (ntohs (le16 a b)) = unat (le16 b a)" by (simp add: ntohs_def)
qed

lemma rd_ntohs_app:
  "length a = i \<Longrightarrow> rd_ntohs (a @ [h, l] @ b) i = Some (256 * unat h + unat l)"
  by (simp add: rd_ntohs_def rd16_def rd8_append2 rd8_def nth_append ntohs_le16 unat_le16)

lemma get_qname_defined:
  assumes "16385 \<le> length m" and "n + 2 \<le> length m" and "unat off + 2 \<le> length m"
    and "length q = 256" and "get_qname m n off q = None"
  shows "\<exists>len. rd8 m (unat off) = Some len \<and> qname_loop m n (qname_start off len (0 # tl q)) = None"
proof -
  have q0: "wr_block q 0 [0] = Some (0 # tl q)"
    using assms(4) by (cases q) (simp_all add: wr_block_def)
  obtain len where len: "rd8 m (unat off) = Some len" using assms(3) by simp
  have inv: "qname_inv m n (qname_start off len (0 # tl q))"
    using assms by (simp add: qname_inv_def qname_start_def)
  have False if r: "qname_loop m n (qname_start off len (0 # tl q)) = Some r" for r
  proof -
    obtain s where s: "r = Some s" "length (qn_name s) = 256"
      using qname_loop_safe [OF inv r] by (auto simp: qname_inv_def)
    have "unat (qn_noff s) - 1 + 1 \<le> 256" using unat_u8 [of "qn_noff s"] by simp
    then obtain q' where "wr_block (qn_name s) (unat (qn_noff s) - 1) [0] = Some q'"
      using s(2) by (simp add: wr_block_def)
    with s assms(5) q0 len r show False by (simp add: get_qname_def split: if_splits)
  qed
  then have "qname_loop m n (qname_start off len (0 # tl q)) = None"
    by (cases "qname_loop m n (qname_start off len (0 # tl q))") auto
  with len show ?thesis by simp
qed

section \<open>Properties\<close>

text \<open>
  C35. Round trip: the name decoded from the encoding of the labels \<open>ls\<close> at offset
  \<open>length pre\<close> of a message is the labels joined by dots, and the offset returned is the end
  of the encoding. (\<open>dotted\<close> puts a dot behind every label; the last one is dropped.)
\<close>

theorem get_qname_encode_name:
  assumes "\<forall>l \<in> set ls. label_ok l" and "ls \<noteq> []" and "length (dotted ls) \<le> 255"
    and "length pre + length (encode_name ls) \<le> n" and "n < 65536" and "length q = 256"
  shows "\<exists>q'. get_qname (pre @ encode_name ls @ tail) n (of_nat (length pre)) q
                = Some (int (length pre + length (encode_name ls)), q')
              \<and> cstr q' = butlast (dotted ls)"
  using assms by (rule get_qname_encoded)

theorem get_qname_encode_name_witness:
  "\<exists>q'. get_qname ([7] @ encode_name [[97], [98, 99]] @ []) 7 (of_nat (length [7 :: u8])) name_buffer
          = Some (int (length [7 :: u8] + length (encode_name [[97], [98, 99]])), q')
        \<and> cstr q' = butlast (dotted [[97], [98, 99]])"
  by (rule get_qname_encode_name)
    (simp_all add: label_ok_def dotted_def encode_name_def encode_label_def name_buffer_def
      DNS_QNAME_MAX_def)

text \<open>
  A standard query with one question is read back: for a message of a header with the query
  flags and at least one question, an encoded name, a type and a class, \<open>get_dns_query\<close>
  returns that type, that class and the dotted name.
\<close>

theorem get_dns_query_wellformed:
  assumes "length hdr = 12" and "\<not> dns_qr (hdr ! 2)" and "dns_opcode (hdr ! 2) = 0"
    and "rd_ntohs hdr 4 = Some qcount" and "0 < qcount"
    and "\<forall>l \<in> set ls. label_ok l" and "ls \<noteq> []" and "length (dotted ls) \<le> 255"
  shows "\<exists>q. get_dns_query (hdr @ encode_name ls @ [t1, t2, c1, c2] @ tail)
               (12 + length (encode_name ls) + 4)
             = Some (Some (256 * unat t1 + unat t2, 256 * unat c1 + unat c2, q))
           \<and> cstr q = butlast (dotted ls)"
proof -
  let ?e = "encode_name ls"
  let ?m = "hdr @ ?e @ [t1, t2, c1, c2] @ tail"
  have e: "length ?e = length (dotted ls) + 1"
    unfolding encode_name_def dotted_def
    by (induction ls) (simp_all add: encode_label_def)
  obtain q where q: "get_qname ?m (12 + length ?e + 4) 12 name_buffer = Some (int (12 + length ?e), q)"
      "cstr q = butlast (dotted ls)"
    using get_qname_encoded [of ls hdr "12 + length ?e + 4" name_buffer "[t1, t2, c1, c2] @ tail"]
      assms e by (auto simp: name_buffer_def DNS_QNAME_MAX_def)
  have "rd_ntohs ?m (12 + length ?e) = Some (256 * unat t1 + unat t2)"
    using rd_ntohs_app [of "hdr @ ?e" "12 + length ?e" t1 t2 "[c1, c2] @ tail"] assms(1) by simp
  moreover have "rd_ntohs ?m (12 + length ?e + 2) = Some (256 * unat c1 + unat c2)"
    using rd_ntohs_app [of "hdr @ ?e @ [t1, t2]" "12 + length ?e + 2" c1 c2 tail] assms(1) by simp
  moreover have "rd_ntohs ?m 4 = Some qcount"
    using assms(1,4) by (simp add: rd_ntohs_def rd16_def rd8_def nth_append)
  moreover have "rd8 ?m 2 = Some (hdr ! 2)" using assms(1) by (simp add: rd8_def nth_append)
  moreover have "nat (12 + int (length ?e)) = 12 + length ?e" by linarith
  ultimately show ?thesis
    using assms(2,3,5) q by (simp add: get_dns_query_def DNS_HEADER_LEN_def e)
qed

theorem get_dns_query_wellformed_witness:
  "\<exists>q. get_dns_query ([1,2, 1,0, 0,1, 0,0, 0,0, 0,0] @ encode_name [[97], [98, 99]] @ [0, 28, 0, 1] @ [])
               (12 + length (encode_name [[97], [98, 99]]) + 4)
             = Some (Some (256 * unat (0::u8) + unat (28::u8), 256 * unat (0::u8) + unat (1::u8), q))
           \<and> cstr q = butlast (dotted [[97], [98, 99]])"
  by (rule get_dns_query_wellformed [where qcount = 1])
    (simp_all add: label_ok_def dotted_def dns_qr_def dns_opcode_def rd_ntohs_def rd16_def rd8_def
      ntohs_le16 unat_le16)

text \<open>
  C38. Decoding a name is memory safe as long as it ends: in a buffer of at least 16385 bytes that
  extends two bytes beyond the message, \<open>get_qname\<close> either returns or its loop runs forever;
  it never reads outside the buffer and never writes outside the 256 bytes of the name.
\<close>

theorem get_qname_safe:
  assumes "16385 \<le> length m" and "n + 2 \<le> length m" and "unat off + 2 \<le> length m"
    and "length q = 256"
  shows "(\<exists>r. get_qname m n off q = Some r)
         \<or> (\<exists>len. rd8 m (unat off) = Some len \<and> qname_loop m n (qname_start off len (0 # tl q)) = None)"
  using get_qname_defined [OF assms] by (cases "get_qname m n off q") auto

theorem get_qname_safe_witness:
  "(\<exists>r. get_qname (replicate 16385 0) 16383 12 name_buffer = Some r)
   \<or> (\<exists>len. rd8 (replicate 16385 0) (unat (12 :: u16)) = Some len
        \<and> qname_loop (replicate 16385 0) 16383 (qname_start 12 len (0 # tl name_buffer)) = None)"
  by (rule get_qname_safe) (simp_all add: name_buffer_def DNS_QNAME_MAX_def)

text \<open>
  A compression pointer that points to itself is followed forever: a query or a response
  whose question is the two bytes \<open>C0 0C\<close> makes the loop, and with it the thread that
  handles all traffic, never come back. (\<open>hdr\<close> is the header, in which the question count
  and for a response the answer count is positive.)
\<close>

theorem dns_pointer_to_itself_never_returns:
  assumes "length hdr = 12" and "13 \<le> n" and "dns_opcode (hdr ! 2) = 0"
    and "rd_ntohs hdr 4 = Some qcount" and "0 < qcount" and "rd_ntohs hdr 6 = Some acount" and "0 < acount"
  shows "qname_loop (hdr @ [0xC0, 0x0C] @ rest) n (qname_start 12 0xC0 (0 # tl name_buffer)) = None
         \<and> (if dns_qr (hdr ! 2) then parse_dns_response (hdr @ [0xC0, 0x0C] @ rest) n = None
            else get_dns_query (hdr @ [0xC0, 0x0C] @ rest) n = None)"
proof -
  let ?m = "hdr @ [0xC0, 0x0C] @ rest"
  have r: "rd8 ?m 12 = Some 0xC0" "rd8 ?m 13 = Some 0x0C" "rd8 ?m 2 = Some (hdr ! 2)"
    using assms(1) by (simp_all add: rd8_def nth_append)
  have c: "rd_ntohs ?m 4 = Some qcount" "rd_ntohs ?m 6 = Some acount"
    using assms(1,4,6) by (simp_all add: rd_ntohs_def rd16_def rd8_def nth_append)
  have "qname_stuck ?m (qname_start 12 0xC0 q)" for q
    using r by (simp add: qname_stuck_def qname_start_def)
  then have l: "qname_loop ?m n (qname_start 12 0xC0 q) = None" for q by (rule qname_loop_stuck)
  have "get_qname ?m n 12 name_buffer = None"
    using l r by (simp add: get_qname_def bind_eq_None_conv)
  then show ?thesis
    using l r c assms(2,3,5,7)
    by (simp add: parse_dns_response_def get_dns_query_def DNS_HEADER_LEN_def)
qed

theorem dns_pointer_to_itself_never_returns_witness:
  "qname_loop ([1,2, 0x80,0, 0,1, 0,1, 0,0, 0,0] @ [0xC0, 0x0C] @ []) 14
     (qname_start 12 0xC0 (0 # tl name_buffer)) = None
   \<and> (if dns_qr ([1,2, 0x80,0, 0,1, 0,1, 0,0, 0,0] ! 2)
       then parse_dns_response ([1,2, 0x80,0, 0,1, 0,1, 0,0, 0,0] @ [0xC0, 0x0C] @ []) 14 = None
       else get_dns_query ([1,2, 0x80,0, 0,1, 0,1, 0,0, 0,0] @ [0xC0, 0x0C] @ []) 14 = None)"
  by (rule dns_pointer_to_itself_never_returns [where qcount = 1 and acount = 1])
    (simp_all add: dns_opcode_def rd_ntohs_def rd16_def rd8_def ntohs_le16 unat_le16)

end
