(* ===== verification/Kernel.thy ===== *)
theory Kernel
  imports Prelude
begin

text \<open>
  The system calls of the engine. What the kernel, the JVM and the clock answer is not code of
  the program: it is an argument \<open>env\<close> of the model, a record of functions from the number of
  calls made so far (and from the file descriptor) to an answer. The \<open>world\<close> keeps this number
  and the trace of the calls that have an effect, in order. A wrapper enforces what every
  kernel guarantees: a read never returns more bytes than asked for, a write never reports more
  bytes than given, and a call on a negative descriptor fails.
\<close>

section \<open>Answers and effects\<close>

datatype errno = EINTR | EAGAIN | EINPROGRESS | EBADF | EOTHER int

datatype sockopt = SO_KEEPALIVE | SO_BROADCAST | IPV6_MULTICAST_LOOP | IPV6_MULTICAST_HOPS
  | IPV6_ADD_MEMBERSHIP

datatype effect =
    TunWrite bytes
  | SockOpen int nat
  | SockConnect int bytes u16
  | SockSend int bytes bool "errno + nat"
  | SockSendTo int bytes bytes u16 "errno + nat"
  | SockOpt int sockopt
  | SockClose int
  | EpollAdd int u32 nat
  | EpollMod int u32
  | EpollClose int

text \<open>
  What an event that \<open>epoll\<close> reports belongs to: the stop pipe, the tunnel, or the session at an
  address.
\<close>

datatype event_source = PipeReady | TunReady | SessReady nat

text \<open>
  Most fields answer a call. The others: \<open>e_char_signed\<close> is the signedness of \<open>char\<close>, \<open>e_junk\<close>
  the content of freshly allocated memory, \<open>e_errno\<close> the value \<open>errno\<close> keeps when a call does not
  set it, \<open>e_pton\<close> the address that \<open>inet_pton\<close> leaves for a text (of an IPv4 address or not),
  \<open>e_proc\<close> the lines of the \<open>/proc/net\<close> table of a protocol and version as \<open>sscanf\<close> converts
  them, each with its four fields or \<open>None\<close>.
\<close>

record env =
  e_char_signed :: bool
  e_time :: "nat \<Rightarrow> int"
  e_ms :: "nat \<Rightarrow> int"
  e_rand :: "nat \<Rightarrow> u32"
  e_tun_write :: "nat \<Rightarrow> bytes \<Rightarrow> int"
  e_tun_read :: "nat \<Rightarrow> errno + bytes"
  e_poll :: "nat \<Rightarrow> int \<Rightarrow> (int \<times> u16)"
  e_socket :: "nat \<Rightarrow> errno + nat"
  e_protect :: "nat \<Rightarrow> int \<Rightarrow> bool"
  e_fcntl :: "nat \<Rightarrow> int \<Rightarrow> int"
  e_connect :: "nat \<Rightarrow> int \<Rightarrow> errno option"
  e_recv :: "nat \<Rightarrow> int \<Rightarrow> errno + bytes"
  e_send :: "nat \<Rightarrow> int \<Rightarrow> errno + nat"
  e_sendto :: "nat \<Rightarrow> int \<Rightarrow> errno + nat"
  e_sndbuf :: "nat \<Rightarrow> int \<Rightarrow> int option"
  e_outq :: "nat \<Rightarrow> int \<Rightarrow> int option"
  e_epoll_ctl :: "nat \<Rightarrow> int \<Rightarrow> bool"
  e_junk :: "nat \<Rightarrow> nat \<Rightarrow> u8"
  e_errno :: "nat \<Rightarrow> errno"
  e_pton :: "bool \<Rightarrow> bytes \<Rightarrow> bytes"
  e_proc :: "nat \<Rightarrow> nat \<Rightarrow> nat \<Rightarrow> (int \<times> bytes \<times> int \<times> int) option list option"
  e_rlimit :: "nat \<Rightarrow> nat"
  e_attach :: bool
  e_epoll_create :: "nat \<Rightarrow> int"
  e_watch :: "nat \<Rightarrow> bool"
  e_epoll_wait :: "nat \<Rightarrow> errno + (event_source \<times> u32) list"

record world =
  w_tick :: nat
  w_trace :: "effect list"

definition tick :: "world \<Rightarrow> world" where
  "tick w = w\<lparr>w_tick := w_tick w + 1\<rparr>"

definition emit :: "effect \<Rightarrow> world \<Rightarrow> world" where
  "emit e w = w\<lparr>w_tick := w_tick w + 1, w_trace := w_trace w @ [e]\<rparr>"

lemma trace_tick [simp]: "w_trace (tick w) = w_trace w"
  by (simp add: tick_def)

lemma trace_emit [simp]: "w_trace (emit e w) = w_trace w @ [e]"
  by (simp add: emit_def)

lemma tick_tick [simp]: "w_tick (tick w) = w_tick w + 1" "w_tick (emit e w) = w_tick w + 1"
  by (simp_all add: tick_def emit_def)

section \<open>Wrappers\<close>

definition sys_time :: "env \<Rightarrow> world \<Rightarrow> int \<times> world" where
  "sys_time E w = (e_time E (w_tick w), tick w)"

definition get_ms :: "env \<Rightarrow> world \<Rightarrow> int \<times> world" where
  "get_ms E w = (e_ms E (w_tick w), tick w)"

definition sys_rand :: "env \<Rightarrow> world \<Rightarrow> u32 \<times> world" where
  "sys_rand E w = (e_rand E (w_tick w), tick w)"

definition tun_write :: "env \<Rightarrow> bytes \<Rightarrow> world \<Rightarrow> int \<times> world" where
  "tun_write E b w = (min (e_tun_write E (w_tick w) b) (int (length b)), emit (TunWrite b) w)"

definition tun_read :: "env \<Rightarrow> nat \<Rightarrow> world \<Rightarrow> (errno + bytes) \<times> world" where
  "tun_read E n w = ((case e_tun_read E (w_tick w) of Inl e \<Rightarrow> Inl e | Inr b \<Rightarrow> Inr (take n b)),
                     tick w)"

definition sys_socket :: "env \<Rightarrow> nat \<Rightarrow> world \<Rightarrow> (errno + int) \<times> world" where
  "sys_socket E v w = (case e_socket E (w_tick w) of
     Inl e \<Rightarrow> (Inl e, tick w) | Inr fd \<Rightarrow> (Inr (int fd), emit (SockOpen (int fd) v) w))"

definition sys_fcntl :: "env \<Rightarrow> int \<Rightarrow> world \<Rightarrow> int \<times> world" where
  "sys_fcntl E fd w = (e_fcntl E (w_tick w) fd, tick w)"

definition sys_connect :: "env \<Rightarrow> int \<Rightarrow> bytes \<Rightarrow> u16 \<Rightarrow> world \<Rightarrow> errno option \<times> world" where
  "sys_connect E fd addr port w =
     ((if fd < 0 then Some EBADF else e_connect E (w_tick w) fd), emit (SockConnect fd addr port) w)"

definition sys_recv :: "env \<Rightarrow> int \<Rightarrow> nat \<Rightarrow> world \<Rightarrow> (errno + bytes) \<times> world" where
  "sys_recv E fd n w =
     ((if fd < 0 then Inl EBADF
       else case e_recv E (w_tick w) fd of Inl e \<Rightarrow> Inl e | Inr b \<Rightarrow> Inr (take n b)), tick w)"

definition sys_send :: "env \<Rightarrow> int \<Rightarrow> bytes \<Rightarrow> bool \<Rightarrow> world \<Rightarrow> (errno + nat) \<times> world" where
  "sys_send E fd b flag w =
     (let r = (if fd < 0 then Inl EBADF
               else case e_send E (w_tick w) fd of Inl e \<Rightarrow> Inl e | Inr n \<Rightarrow> Inr (min n (length b)))
      in (r, emit (SockSend fd b flag r) w))"

definition sys_sendto ::
  "env \<Rightarrow> int \<Rightarrow> bytes \<Rightarrow> bytes \<Rightarrow> u16 \<Rightarrow> world \<Rightarrow> (errno + nat) \<times> world" where
  "sys_sendto E fd b addr port w =
     (let r = (if fd < 0 then Inl EBADF
               else case e_sendto E (w_tick w) fd of Inl e \<Rightarrow> Inl e | Inr n \<Rightarrow> Inr (min n (length b)))
      in (r, emit (SockSendTo fd b addr port r) w))"

text \<open>The results of \<open>close\<close> and \<open>setsockopt\<close> are only logged.\<close>

definition sys_close :: "int \<Rightarrow> world \<Rightarrow> world" where
  "sys_close fd w = emit (SockClose fd) w"

definition sys_setsockopt :: "int \<Rightarrow> sockopt \<Rightarrow> world \<Rightarrow> world" where
  "sys_setsockopt fd opt w = emit (SockOpt fd opt) w"

text \<open>\<open>True\<close> is a failure, as the code tests the result.\<close>

definition epoll_add :: "env \<Rightarrow> int \<Rightarrow> u32 \<Rightarrow> nat \<Rightarrow> world \<Rightarrow> bool \<times> world" where
  "epoll_add E fd ev ptr w = (fd < 0 \<or> e_epoll_ctl E (w_tick w) fd, emit (EpollAdd fd ev ptr) w)"

definition epoll_mod :: "env \<Rightarrow> int \<Rightarrow> u32 \<Rightarrow> world \<Rightarrow> bool \<times> world" where
  "epoll_mod E fd ev w = (fd < 0 \<or> e_epoll_ctl E (w_tick w) fd, emit (EpollMod fd ev) w)"

definition EPOLLIN :: u32 where "EPOLLIN = 1"
definition EPOLLOUT :: u32 where "EPOLLOUT = 4"
definition EPOLLERR :: u32 where "EPOLLERR = 8"

lemmas epoll_bits = EPOLLIN_def EPOLLOUT_def EPOLLERR_def

text \<open>
  \<open>poll\<close> with a zero timeout; \<open>revents\<close> only has requested bits and error bits, and a negative
  descriptor is passed over.
\<close>

definition is_event :: "env \<Rightarrow> int \<Rightarrow> u16 \<Rightarrow> world \<Rightarrow> bool \<times> world" where
  "is_event E fd event w =
     (let (r, revents) = (if fd < 0 then (0, 0) else e_poll E (w_tick w) fd)
      in (if r < 0 then False else if r = 0 then False else revents AND event \<noteq> 0, tick w))"

definition is_readable :: "env \<Rightarrow> int \<Rightarrow> world \<Rightarrow> bool \<times> world" where
  "is_readable E fd w = is_event E fd 1 w"

definition is_writable :: "env \<Rightarrow> int \<Rightarrow> world \<Rightarrow> bool \<times> world" where
  "is_writable E fd w = is_event E fd 4 w"

text \<open>\<open>VpnService.protect\<close> keeps the socket's traffic out of the tunnel.\<close>

definition protect_socket :: "env \<Rightarrow> int \<Rightarrow> world \<Rightarrow> int \<times> world" where
  "protect_socket E fd w = (if e_protect E (w_tick w) fd then (0, tick w) else (- 1, tick w))"

text \<open>Freshly allocated memory of \<open>n\<close> bytes that begins with \<open>b\<close>.\<close>

definition allocated :: "env \<Rightarrow> world \<Rightarrow> bytes \<Rightarrow> nat \<Rightarrow> bytes" where
  "allocated E w b n = b @ map (e_junk E (w_tick w)) [length b..<n]"

lemma length_allocated: "length b \<le> n \<Longrightarrow> length (allocated E w b n) = n"
  by (simp add: allocated_def)

lemmas sys_defs = sys_time_def get_ms_def sys_rand_def sys_recv_def sys_send_def sys_sendto_def sys_close_def
  sys_setsockopt_def epoll_add_def epoll_mod_def protect_socket_def sys_socket_def sys_fcntl_def sys_connect_def
  Let_def

section \<open>Traces\<close>

text \<open>What each wrapper adds to the trace; the collection is used in every effect proof.\<close>

named_theorems trace_simps \<open>trace after a system call\<close>

lemma sys_traces [trace_simps]:
  "w_trace (snd (sys_time E w)) = w_trace w"
  "w_trace (snd (get_ms E w)) = w_trace w"
  "w_trace (snd (sys_rand E w)) = w_trace w"
  "w_trace (snd (tun_write E b w)) = w_trace w @ [TunWrite b]"
  "w_trace (snd (tun_read E n w)) = w_trace w"
  "w_trace (snd (sys_fcntl E fd w)) = w_trace w"
  "w_trace (snd (sys_connect E fd a p w)) = w_trace w @ [SockConnect fd a p]"
  "w_trace (snd (sys_recv E fd n w)) = w_trace w"
  "w_trace (snd (sys_send E fd b m w)) = w_trace w @ [SockSend fd b m (fst (sys_send E fd b m w))]"
  "w_trace (snd (sys_sendto E fd b a p w))
     = w_trace w @ [SockSendTo fd b a p (fst (sys_sendto E fd b a p w))]"
  "w_trace (sys_close fd w) = w_trace w @ [SockClose fd]"
  "w_trace (sys_setsockopt fd opt w) = w_trace w @ [SockOpt fd opt]"
  "w_trace (snd (epoll_add E fd ev i w)) = w_trace w @ [EpollAdd fd ev i]"
  "w_trace (snd (epoll_mod E fd ev w)) = w_trace w @ [EpollMod fd ev]"
  "w_trace (snd (protect_socket E fd w)) = w_trace w"
  "w_trace (snd (is_event E fd ev16 w)) = w_trace w"
  "w_trace (snd (is_readable E fd w)) = w_trace w"
  by (simp_all add: sys_time_def get_ms_def sys_rand_def tun_write_def tun_read_def sys_fcntl_def
      sys_connect_def sys_recv_def sys_send_def sys_sendto_def sys_close_def sys_setsockopt_def
      epoll_add_def epoll_mod_def protect_socket_def is_event_def is_readable_def case_prod_beta Let_def)

lemma sys_recv_length: "sys_recv E fd n w = (Inr b, w') \<Longrightarrow> length b \<le> n"
  by (auto simp: sys_recv_def split: if_splits sum.splits)

lemma sys_send_bound: "sys_send E fd b m w = (Inr n, w') \<Longrightarrow> n \<le> length b"
  by (auto simp: sys_send_def Let_def split: if_splits sum.splits)

text \<open>The sockets opened and closed along a trace.\<close>

definition opened :: "effect list \<Rightarrow> int list" where
  "opened es = concat (map (\<lambda>e. case e of SockOpen fd v \<Rightarrow> [fd] | _ \<Rightarrow> []) es)"

definition closed :: "effect list \<Rightarrow> int list" where
  "closed es = concat (map (\<lambda>e. case e of SockClose fd \<Rightarrow> [fd] | _ \<Rightarrow> []) es)"

definition tun_packets :: "effect list \<Rightarrow> bytes list" where
  "tun_packets es = concat (map (\<lambda>e. case e of TunWrite b \<Rightarrow> [b] | _ \<Rightarrow> []) es)"

lemma opened_simps [simp]:
  "opened [] = []" "opened (xs @ ys) = opened xs @ opened ys"
  "opened (TunWrite p # es) = opened es"
  "opened (SockOpen fd v # es) = fd # opened es"
  "opened (SockConnect fd a q # es) = opened es"
  "opened (SockSend fd p m r # es) = opened es"
  "opened (SockSendTo fd p a q r # es) = opened es"
  "opened (SockOpt fd s # es) = opened es"
  "opened (SockClose fd # es) = opened es"
  "opened (EpollAdd fd e i # es) = opened es"
  "opened (EpollMod fd e # es) = opened es"
  "opened (EpollClose fd # es) = opened es"
  by (simp_all add: opened_def)

lemma closed_simps [simp]:
  "closed [] = []" "closed (xs @ ys) = closed xs @ closed ys"
  "closed (TunWrite p # es) = closed es"
  "closed (SockOpen fd v # es) = closed es"
  "closed (SockConnect fd a q # es) = closed es"
  "closed (SockSend fd p m r # es) = closed es"
  "closed (SockSendTo fd p a q r # es) = closed es"
  "closed (SockOpt fd s # es) = closed es"
  "closed (SockClose fd # es) = fd # closed es"
  "closed (EpollAdd fd e i # es) = closed es"
  "closed (EpollMod fd e # es) = closed es"
  "closed (EpollClose fd # es) = closed es"
  by (simp_all add: closed_def)

lemma tun_packets_simps [simp]:
  "tun_packets [] = []" "tun_packets (xs @ ys) = tun_packets xs @ tun_packets ys"
  "tun_packets (TunWrite p # es) = p # tun_packets es"
  "tun_packets (SockOpen fd v # es) = tun_packets es"
  "tun_packets (SockConnect fd a q # es) = tun_packets es"
  "tun_packets (SockSend fd p m r # es) = tun_packets es"
  "tun_packets (SockSendTo fd p a q r # es) = tun_packets es"
  "tun_packets (SockOpt fd s # es) = tun_packets es"
  "tun_packets (SockClose fd # es) = tun_packets es"
  "tun_packets (EpollAdd fd e i # es) = tun_packets es"
  "tun_packets (EpollMod fd e # es) = tun_packets es"
  "tun_packets (EpollClose fd # es) = tun_packets es"
  by (simp_all add: tun_packets_def)

text \<open>
  The part of a trace that concerns the life of descriptors: opening, closing, and registration with
  \<open>epoll\<close>. Closing a descriptor ends its registration. \<open>registered\<close> is what \<open>epoll\<close> watches at the end
  of a trace: descriptors and the session pointers stored with them.
\<close>

definition ledger :: "effect list \<Rightarrow> effect list" where
  "ledger es = filter (\<lambda>e. case e of SockOpen fd v \<Rightarrow> True | SockClose fd \<Rightarrow> True | EpollAdd fd ev i \<Rightarrow> True
                       | _ \<Rightarrow> False) es"

definition register1 :: "(int \<times> nat) set \<Rightarrow> effect \<Rightarrow> (int \<times> nat) set" where
  "register1 R e = (case e of EpollAdd fd ev i \<Rightarrow> insert (fd, i) R | SockClose fd \<Rightarrow> {r \<in> R. fst r \<noteq> fd} | _ \<Rightarrow> R)"

definition registered :: "effect list \<Rightarrow> (int \<times> nat) set" where
  "registered es = foldl register1 {} es"

lemma ledger_simps [simp]:
  "ledger [] = []" "ledger (xs @ ys) = ledger xs @ ledger ys"
  "ledger (TunWrite p # es) = ledger es"
  "ledger (SockOpen fd v # es) = SockOpen fd v # ledger es"
  "ledger (SockConnect fd a q # es) = ledger es"
  "ledger (SockSend fd p m r # es) = ledger es"
  "ledger (SockSendTo fd p a q r # es) = ledger es"
  "ledger (SockOpt fd s # es) = ledger es"
  "ledger (SockClose fd # es) = SockClose fd # ledger es"
  "ledger (EpollAdd fd e i # es) = EpollAdd fd e i # ledger es"
  "ledger (EpollMod fd e # es) = ledger es"
  "ledger (EpollClose fd # es) = ledger es"
  by (simp_all add: ledger_def)

lemma ledger_views: "opened (ledger es) = opened es" "closed (ledger es) = closed es"
proof (induction es)
  case (Cons e es)
  case 1 then show ?case using Cons by (cases e) simp_all
  case 2 then show ?case using Cons by (cases e) simp_all
qed simp_all

lemma foldl_register_ledger: "foldl register1 R (ledger es) = foldl register1 R es"
proof (induction es arbitrary: R)
  case (Cons e es)
  then show ?case by (cases e) (simp_all add: register1_def)
qed simp

lemma ledger_appended:
  assumes "ledger t' = ledger t @ l"
  shows "closed t' = closed t @ closed l" "opened t' = opened t @ opened l"
    "registered t' = foldl register1 (registered t) l"
proof -
  show "closed t' = closed t @ closed l" "opened t' = opened t @ opened l"
    using arg_cong [OF assms, of closed] arg_cong [OF assms, of opened] by (simp_all add: ledger_views)
  show "registered t' = foldl register1 (registered t) l"
    using arg_cong [OF assms, of "foldl register1 {}"] by (simp add: foldl_register_ledger registered_def)
qed

lemma ledger_same:
  assumes "ledger t' = ledger t"
  shows "closed t' = closed t" "opened t' = opened t" "registered t' = registered t"
  using ledger_appended [of t' t "[]"] assms by simp_all

text \<open>
  A stretch of the run in which no socket is opened, closed or registered.
\<close>

definition quiet :: "world \<Rightarrow> world \<Rightarrow> bool" where
  "quiet w w' \<longleftrightarrow> (\<exists>es. w_trace w' = w_trace w @ es \<and> ledger es = [])"

lemma quiet_refl [simp]: "quiet w w"
  unfolding quiet_def by (intro exI [of _ "[]"]) simp

lemma quiet_trans [trans]: "quiet a b \<Longrightarrow> quiet b c \<Longrightarrow> quiet a c"
  unfolding quiet_def by (elim exE conjE) (intro exI, auto)

lemma quiet_same: "w_trace w' = w_trace w \<Longrightarrow> quiet w w'"
  unfolding quiet_def by (intro exI [of _ "[]"]) simp

lemma quiet_tun: "w_trace w' = w_trace w @ [TunWrite p] \<Longrightarrow> quiet w w'"
  unfolding quiet_def by (intro exI [of _ "[TunWrite p]"]) simp

lemma quiet_ledger: "quiet w w' \<Longrightarrow> ledger (w_trace w') = ledger (w_trace w)"
  by (auto simp: quiet_def)

lemma quiet_closed:
  "quiet w w' \<Longrightarrow> closed (w_trace w') = closed (w_trace w) \<and> opened (w_trace w') = opened (w_trace w)"
  using ledger_same [OF quiet_ledger] by blast

text \<open>At most one descriptor is opened and nothing is done with it: it is lost.\<close>

definition spilled :: "world \<Rightarrow> world \<Rightarrow> bool" where
  "spilled w w' \<longleftrightarrow> ledger (w_trace w') = ledger (w_trace w)
     \<or> (\<exists>fd v. ledger (w_trace w') = ledger (w_trace w) @ [SockOpen fd v])"

lemma quiet_spilled: "quiet w w' \<Longrightarrow> spilled w w'"
  by (simp add: spilled_def quiet_ledger)

lemma spilled_traces:
  assumes "spilled w w'"
  shows "closed (w_trace w') = closed (w_trace w)
    \<and> (\<exists>lost. length lost \<le> 1 \<and> opened (w_trace w') = opened (w_trace w) @ lost)"
  using assms unfolding spilled_def
proof (elim disjE exE)
  assume "ledger (w_trace w') = ledger (w_trace w)"
  from ledger_same [OF this] show ?thesis by (auto intro: exI [of _ "[]"])
next
  fix fd v
  assume "ledger (w_trace w') = ledger (w_trace w) @ [SockOpen fd v]"
  from ledger_appended [OF this] show ?thesis by (auto intro: exI [of _ "[fd]"])
qed

text \<open>A socket is opened and registered for a session.\<close>

definition enrolled :: "int \<Rightarrow> nat \<Rightarrow> world \<Rightarrow> world \<Rightarrow> bool" where
  "enrolled fd i w w' \<longleftrightarrow> 0 \<le> fd
     \<and> (\<exists>v ev. ledger (w_trace w') = ledger (w_trace w) @ [SockOpen fd v, EpollAdd fd ev i])"

lemma enrolled_traces:
  assumes "enrolled fd i w w'"
  shows "0 \<le> fd \<and> closed (w_trace w') = closed (w_trace w) \<and> opened (w_trace w') = opened (w_trace w) @ [fd]"
proof -
  from assms obtain v ev where "0 \<le> fd" and
    l: "ledger (w_trace w') = ledger (w_trace w) @ [SockOpen fd v, EpollAdd fd ev i]"
    by (auto simp: enrolled_def)
  with ledger_appended [OF l] show ?thesis by simp
qed

lemma quiet_recv: "sys_recv E fd n w = (r, w') \<Longrightarrow> quiet w w'"
  using sys_traces(8) [of E fd n w] by (intro quiet_same) simp

lemma quiet_tick [simp]: "quiet w (tick w)"
  by (rule quiet_same) simp

lemma quiet_setsockopt [simp]: "quiet w (sys_setsockopt fd opt w)"
  unfolding quiet_def by (intro exI [of _ "[SockOpt fd opt]"]) (simp add: sys_setsockopt_def)

lemma quiet_sendto: "sys_sendto E fd b a q w = (r, w') \<Longrightarrow> quiet w w'"
  using sys_traces(10) [of E fd b a q w] unfolding quiet_def
  by (intro exI [of _ "[SockSendTo fd b a q r]"]) simp

lemma quiet_tun_write: "tun_write E b w = (r, w') \<Longrightarrow> quiet w w'"
  using sys_traces(4) [of E b w] by (intro quiet_tun [of _ _ b]) simp

text \<open>What the kernel has accepted of the data sent to sockets, and whether a send failed.\<close>

definition accepted :: "effect list \<Rightarrow> bytes" where
  "accepted es = concat (map (\<lambda>e. case e of SockSend fd b m (Inr n) \<Rightarrow> take n b | _ \<Rightarrow> []) es)"

definition send_failed :: "effect list \<Rightarrow> bool" where
  "send_failed es \<longleftrightarrow> (\<exists>fd b m e. SockSend fd b m (Inl e) \<in> set es)"

lemma accepted_simps [simp]:
  "accepted [] = []" "accepted (xs @ ys) = accepted xs @ accepted ys"
  "accepted (SockSend fd b m (Inr n) # es) = take n b @ accepted es"
  "accepted (SockSend fd b m (Inl e) # es) = accepted es"
  "accepted (TunWrite p # es) = accepted es"
  by (simp_all add: accepted_def)

lemma send_failed_simps [simp]:
  "send_failed [] = False" "send_failed (xs @ ys) = (send_failed xs \<or> send_failed ys)"
  "send_failed (SockSend fd b m (Inr n) # es) = send_failed es"
  "send_failed (SockSend fd b m (Inl e) # es) = True"
  "send_failed (TunWrite p # es) = send_failed es"
  by (auto simp: send_failed_def)

text \<open>An environment in which everything succeeds; used for the concrete instances.\<close>

definition calm :: env where
  "calm = \<lparr>e_char_signed = False, e_time = (\<lambda>n. 1000), e_ms = (\<lambda>n. 5000), e_rand = (\<lambda>n. 77),
     e_tun_write = (\<lambda>n b. int (length b)), e_tun_read = (\<lambda>n. Inl EAGAIN), e_poll = (\<lambda>n fd. (0, 0)),
     e_socket = (\<lambda>n. Inr 9), e_protect = (\<lambda>n fd. True), e_fcntl = (\<lambda>n fd. 0),
     e_connect = (\<lambda>n fd. Some EINPROGRESS), e_recv = (\<lambda>n fd. Inl EAGAIN),
     e_send = (\<lambda>n fd. Inr 100000), e_sendto = (\<lambda>n fd. Inr 100000),
     e_sndbuf = (\<lambda>n fd. Some 65536), e_outq = (\<lambda>n fd. Some 0), e_epoll_ctl = (\<lambda>n fd. False),
     e_junk = (\<lambda>n i. 0), e_errno = (\<lambda>n. EAGAIN), e_pton = (\<lambda>v4 a. [10, 0, 0, 1]),
     e_proc = (\<lambda>n p v. None), e_rlimit = (\<lambda>n. 2500), e_attach = True, e_epoll_create = (\<lambda>n. 5),
     e_watch = (\<lambda>n. False), e_epoll_wait = (\<lambda>n. Inr [])\<rparr>"

definition start :: world where "start = \<lparr>w_tick = 0, w_trace = []\<rparr>"

end
