(* ===== verification/Sessions.thy ===== *)
theory Sessions
  imports Kernel Util
begin

text \<open>
  The data of \<open>tun2http.h\<close> and the session timeouts. A record per C struct; the union of the
  three kinds of session is the datatype \<open>session\<close>, and the \<open>protocol\<close> byte of the C struct is
  its constructor. An address is the list of its bytes in network order, 4 of them in an IPv4
  session and 16 in an IPv6 one, so that the \<open>ip4\<close> view of the union is the first four. Ports
  are kept as the raw 16-bit fields, in network order. A session is known to \<open>epoll\<close> by its
  address, here the number \<open>ng_ptr\<close>.
\<close>

section \<open>Constants\<close>

definition IPPROTO_ICMP :: u8 where "IPPROTO_ICMP = 1"
definition IPPROTO_TCP :: u8 where "IPPROTO_TCP = 6"
definition IPPROTO_UDP :: u8 where "IPPROTO_UDP = 17"
definition IPPROTO_ICMPV6 :: u8 where "IPPROTO_ICMPV6 = 58"

lemmas protocols = IPPROTO_ICMP_def IPPROTO_TCP_def IPPROTO_UDP_def IPPROTO_ICMPV6_def

definition MTU :: nat where "MTU = 10000"

definition ICMP_TIMEOUT :: int where "ICMP_TIMEOUT = 15"
definition UDP_TIMEOUT_53 :: int where "UDP_TIMEOUT_53 = 15"
definition UDP_TIMEOUT_ANY :: int where "UDP_TIMEOUT_ANY = 300"
definition UDP_KEEP_TIMEOUT :: int where "UDP_KEEP_TIMEOUT = 60"
definition TCP_INIT_TIMEOUT :: int where "TCP_INIT_TIMEOUT = 30"
definition TCP_IDLE_TIMEOUT :: int where "TCP_IDLE_TIMEOUT = 3600"
definition TCP_CLOSE_TIMEOUT :: int where "TCP_CLOSE_TIMEOUT = 30"
definition TCP_KEEP_TIMEOUT :: int where "TCP_KEEP_TIMEOUT = 300"
definition EPOLL_TIMEOUT :: int where "EPOLL_TIMEOUT = 3600"
definition EPOLL_MIN_CHECK :: int where "EPOLL_MIN_CHECK = 100"

lemmas timeouts = ICMP_TIMEOUT_def UDP_TIMEOUT_53_def UDP_TIMEOUT_ANY_def UDP_KEEP_TIMEOUT_def
  TCP_INIT_TIMEOUT_def TCP_IDLE_TIMEOUT_def TCP_CLOSE_TIMEOUT_def TCP_KEEP_TIMEOUT_def
  EPOLL_TIMEOUT_def EPOLL_MIN_CHECK_def

definition ICMP4_MAXMSG :: nat where "ICMP4_MAXMSG = 65535 - 20 - 8"
definition ICMP6_MAXMSG :: nat where "ICMP6_MAXMSG = 65535 - 40 - 8"
definition UDP4_MAXMSG :: nat where "UDP4_MAXMSG = 65535 - 20 - 8"
definition UDP6_MAXMSG :: nat where "UDP6_MAXMSG = 65535 - 40 - 8"

lemmas max_msgs = ICMP4_MAXMSG_def ICMP6_MAXMSG_def UDP4_MAXMSG_def UDP6_MAXMSG_def

definition TCP_CONNECT_NOT_SENT :: int where "TCP_CONNECT_NOT_SENT = - 1"
definition TCP_CONNECT_SENT :: int where "TCP_CONNECT_SENT = 0"
definition TCP_CONNECT_ESTABLISHED :: int where "TCP_CONNECT_ESTABLISHED = 1"

lemmas connect_states =
  TCP_CONNECT_NOT_SENT_def TCP_CONNECT_SENT_def TCP_CONNECT_ESTABLISHED_def

section \<open>Records\<close>

record arguments =
  a_fwd53 :: bool
  a_rcode :: int
  a_proxyIp :: bytes
  a_proxyPort :: int

record allowed =
  al_raddr :: bytes
  al_rport :: u16

record segment =
  seg_seq :: u32
  seg_len :: u16
  seg_sent :: u16
  seg_psh :: bool
  seg_data :: bytes

record icmp_session =
  i_time :: int
  i_uid :: int
  i_version :: nat
  i_saddr :: bytes
  i_daddr :: bytes
  i_id :: u16
  i_stop :: bool

datatype udp_state = UDP_ACTIVE | UDP_FINISHING | UDP_CLOSED | UDP_BLOCKED

record udp_session =
  u_time :: int
  u_uid :: int
  u_version :: nat
  u_mss :: u16
  u_sent :: "64 word"
  u_received :: "64 word"
  u_saddr :: bytes
  u_source :: u16
  u_daddr :: bytes
  u_dest :: u16
  u_state :: udp_state

record tcp_session =
  t_uid :: int
  t_time :: int
  t_version :: nat
  t_mss :: u16
  t_recv_scale :: u8
  t_send_scale :: u8
  t_recv_window :: u32
  t_send_window :: u32
  t_remote_seq :: u32
  t_local_seq :: u32
  t_remote_start :: u32
  t_local_start :: u32
  t_acked :: u32
  t_last_keep_alive :: int
  t_sent :: "64 word"
  t_received :: "64 word"
  t_saddr :: bytes
  t_source :: u16
  t_daddr :: bytes
  t_dest :: u16
  t_state :: tcp_state
  t_forward :: "segment list"
  t_hostname :: bytes
  t_connect_sent :: int

text \<open>\<open>struct ng_session\<close>, with the kind of session as a parameter.\<close>

record 'k ng_session =
  ng_k :: 'k
  ng_socket :: int
  ng_ev :: u32
  ng_ptr :: nat

datatype session = ICMP "icmp_session ng_session" | UDP "udp_session ng_session"
  | TCP "tcp_session ng_session"

fun sess_socket :: "session \<Rightarrow> int" where
  "sess_socket (ICMP s) = ng_socket s"
| "sess_socket (UDP s) = ng_socket s"
| "sess_socket (TCP s) = ng_socket s"

fun sess_ptr :: "session \<Rightarrow> nat" where
  "sess_ptr (ICMP s) = ng_ptr s"
| "sess_ptr (UDP s) = ng_ptr s"
| "sess_ptr (TCP s) = ng_ptr s"

text \<open>The \<open>ip4\<close> member of an address union.\<close>

definition ip4 :: "bytes \<Rightarrow> bytes" where "ip4 a = take 4 a"

instantiation segment_ext :: (type) size begin
definition size_segment_ext :: "('a segment_ext) \<Rightarrow> nat" where
  "size_segment_ext s = unat (seg_len (segment.truncate s)) - unat (seg_sent (segment.truncate s))"
instance ..
end

section \<open>Segment sizes\<close>

definition get_mtu :: u16 where "get_mtu = of_nat MTU"

definition get_default_mss :: "nat \<Rightarrow> u16" where
  "get_default_mss version =
     (if version = 4 then of_nat (unat get_mtu - 20 - 20) else of_nat (unat get_mtu - 40 - 20))"

section \<open>Timeouts\<close>

text \<open>
  The scaling that the three timeout functions share, in \<open>int\<close> arithmetic: division truncates
  towards zero and a division by zero has no result.
\<close>

definition scale_timeout :: "int \<Rightarrow> int \<Rightarrow> int \<Rightarrow> int option" where
  "scale_timeout timeout sessions maxsessions =
     (if maxsessions = 0 then None
      else let scale = 100 - sessions * 100 sdiv maxsessions in Some (timeout * scale sdiv 100))"

definition get_icmp_timeout :: "icmp_session \<Rightarrow> int \<Rightarrow> int \<Rightarrow> int option" where
  "get_icmp_timeout u sessions maxsessions = scale_timeout ICMP_TIMEOUT sessions maxsessions"

definition get_udp_timeout :: "udp_session \<Rightarrow> int \<Rightarrow> int \<Rightarrow> int option" where
  "get_udp_timeout u sessions maxsessions =
     scale_timeout (if ntohs (u_dest u) = 53 then UDP_TIMEOUT_53 else UDP_TIMEOUT_ANY)
       sessions maxsessions"

definition get_tcp_timeout :: "tcp_session \<Rightarrow> int \<Rightarrow> int \<Rightarrow> int option" where
  "get_tcp_timeout t sessions maxsessions =
     scale_timeout
       (if t_state t = TCP_LISTEN \<or> t_state t = TCP_SYN_RECV then TCP_INIT_TIMEOUT
        else if t_state t = TCP_ESTABLISHED then TCP_IDLE_TIMEOUT
        else TCP_CLOSE_TIMEOUT) sessions maxsessions"

subsection \<open>The interface of a timeout policy\<close>

text \<open>
  What the event loop relies on: a timeout exists as soon as the limit is positive, it is the
  full time when there is no session, never grows with the number of sessions, and is never
  negative while the limit is respected.
\<close>

locale timeout_policy =
  fixes tmo :: "'s \<Rightarrow> int \<Rightarrow> int \<Rightarrow> int option" and full :: "'s \<Rightarrow> int"
  assumes tmo_scale: "tmo s n m = scale_timeout (full s) n m"
    and full_nonneg: "0 \<le> full s"
begin

lemma tmo_defined: "tmo s n m \<noteq> None \<longleftrightarrow> m \<noteq> 0"
  by (simp add: tmo_scale scale_timeout_def Let_def)

lemma tmo_nonneg_div:
  assumes "0 < m" "0 \<le> n" "n \<le> m"
  shows "tmo s n m = Some (full s * (100 - n * 100 div m) div 100)"
    and "0 \<le> n * 100 div m" "n * 100 div m \<le> 100"
proof -
  show b: "0 \<le> n * 100 div m" using assms by (simp add: pos_imp_zdiv_nonneg_iff)
  have "n * 100 div m \<le> m * 100 div m" using assms by (intro zdiv_mono1) simp_all
  then show c: "n * 100 div m \<le> 100" using assms by simp
  have "n * 100 sdiv m = n * 100 div m"
    using assms by (simp add: signed_divide_int_def sgn_if)
  moreover have "x sdiv 100 = x div 100" if "0 \<le> x" for x :: int
    using that by (simp add: signed_divide_int_def sgn_if)
  ultimately show "tmo s n m = Some (full s * (100 - n * 100 div m) div 100)"
    using assms c full_nonneg [of s] by (simp add: tmo_scale scale_timeout_def Let_def)
qed

lemma tmo_bounds:
  assumes "0 < m" "0 \<le> n" "n \<le> m" "tmo s n m = Some k"
  shows "0 \<le> k \<and> k \<le> full s"
proof -
  have k: "k = full s * (100 - n * 100 div m) div 100"
    using tmo_nonneg_div(1) [OF assms(1-3), of s] assms(4) by simp
  have "full s * (100 - n * 100 div m) \<le> full s * 100"
    using tmo_nonneg_div(2) [OF assms(1-3)] full_nonneg by (intro mult_left_mono) simp_all
  then have "k \<le> full s * 100 div 100" unfolding k by (intro zdiv_mono1) simp_all
  then show ?thesis
    using tmo_nonneg_div(3) [OF assms(1-3)] full_nonneg [of s]
    by (simp add: k pos_imp_zdiv_nonneg_iff)
qed

lemma tmo_idle: "0 < m \<Longrightarrow> tmo s 0 m = Some (full s)"
  using tmo_nonneg_div(1) [of m 0 s] by simp

lemma tmo_crowded: "0 < m \<Longrightarrow> tmo s m m = Some 0"
  using tmo_nonneg_div(1) [of m m s] by simp

lemma tmo_antimono:
  assumes "0 < m" "0 \<le> n" "n \<le> n'" "n' \<le> m" "tmo s n m = Some k" "tmo s n' m = Some k'"
  shows "k' \<le> k"
proof -
  have "n * 100 div m \<le> n' * 100 div m" using assms by (intro zdiv_mono1) simp_all
  then have "full s * (100 - n' * 100 div m) \<le> full s * (100 - n * 100 div m)"
    using full_nonneg by (intro mult_left_mono) simp_all
  then have "full s * (100 - n' * 100 div m) div 100 \<le> full s * (100 - n * 100 div m) div 100"
    by (intro zdiv_mono1) simp_all
  then show ?thesis
    using tmo_nonneg_div(1) [of m n s] tmo_nonneg_div(1) [of m n' s] assms by simp
qed

end

interpretation icmp_tmo: timeout_policy get_icmp_timeout "\<lambda>_. ICMP_TIMEOUT"
  by unfold_locales (simp_all add: get_icmp_timeout_def timeouts)

interpretation udp_tmo: timeout_policy get_udp_timeout
    "\<lambda>u. if ntohs (u_dest u) = 53 then UDP_TIMEOUT_53 else UDP_TIMEOUT_ANY"
  by unfold_locales (simp_all add: get_udp_timeout_def timeouts)

interpretation tcp_tmo: timeout_policy get_tcp_timeout
    "\<lambda>t. if t_state t = TCP_LISTEN \<or> t_state t = TCP_SYN_RECV then TCP_INIT_TIMEOUT
          else if t_state t = TCP_ESTABLISHED then TCP_IDLE_TIMEOUT else TCP_CLOSE_TIMEOUT"
  by unfold_locales (simp_all add: get_tcp_timeout_def timeouts)

end
