(* ===== verification/Packets.thy ===== *)
theory Packets
  imports Sessions
begin

text \<open>
  The headers the engine writes to and reads from the tunnel: \<open>struct iphdr\<close>, \<open>struct
  ip6_hdr\<close>, the pseudo headers of the checksums and \<open>struct tcphdr\<close>. A header is the list of
  its bytes as it lies in the packet buffer; the fields in network order are written with
  \<open>htons\<close> and \<open>htonl\<close> as the code does.
\<close>

section \<open>IP headers\<close>

definition IPDEFTTL :: u8 where "IPDEFTTL = 64"

definition ip4_header :: "nat \<Rightarrow> u8 \<Rightarrow> bytes \<Rightarrow> bytes \<Rightarrow> u16 \<Rightarrow> bytes" where
  "ip4_header len proto src dst check =
     [0x45, 0] @ bytes16 (htons (of_nat len)) @ [0, 0, 0, 0, IPDEFTTL, proto] @ bytes16 check @ src @ dst"

definition build_ip4 :: "nat \<Rightarrow> u8 \<Rightarrow> bytes \<Rightarrow> bytes \<Rightarrow> bytes" where
  "build_ip4 len proto src dst =
     ip4_header len proto src dst (NOT (calc_checksum 0 (ip4_header len proto src dst 0)))"

definition ippseudo :: "bytes \<Rightarrow> bytes \<Rightarrow> u8 \<Rightarrow> nat \<Rightarrow> bytes" where
  "ippseudo src dst proto len = src @ dst @ [0, proto] @ bytes16 (htons (of_nat len))"

definition build_ip6 :: "nat \<Rightarrow> u8 \<Rightarrow> bytes \<Rightarrow> bytes \<Rightarrow> bytes" where
  "build_ip6 plen nxt src dst =
     [0x60, 0, 0, 0] @ bytes16 (htons (of_nat plen)) @ [nxt, IPDEFTTL] @ src @ dst"

text \<open>\<open>ip6ph_len\<close> is 32 bits wide; the code stores the 16-bit field of a header in it, as it lies there.\<close>

definition ip6_hdr_pseudo :: "bytes \<Rightarrow> bytes \<Rightarrow> u32 \<Rightarrow> u8 \<Rightarrow> bytes" where
  "ip6_hdr_pseudo src dst len nxt = src @ dst @ bytes32 len @ [0, 0, 0, nxt]"

text \<open>Addresses of an IP header.\<close>

definition pkt_addrs :: "nat \<Rightarrow> bytes \<Rightarrow> (bytes \<times> bytes) option" where
  "pkt_addrs version m =
     (if version = 4 then do { s \<leftarrow> rd_block m 12 4; d \<leftarrow> rd_block m 16 4; Some (s, d) }
      else do { s \<leftarrow> rd_block m 8 16; d \<leftarrow> rd_block m 24 16; Some (s, d) })"

section \<open>TCP headers\<close>

definition tcp_flags :: "bool \<Rightarrow> bool \<Rightarrow> bool \<Rightarrow> bool \<Rightarrow> u8" where
  "tcp_flags syn ack fin rst =
     (if fin then 1 else 0) OR (if syn then 2 else 0) OR (if rst then 4 else 0)
     OR (if ack then 16 else 0)"

definition tcp_header ::
  "u16 \<Rightarrow> u16 \<Rightarrow> u32 \<Rightarrow> u32 \<Rightarrow> nat \<Rightarrow> u8 \<Rightarrow> u16 \<Rightarrow> u16 \<Rightarrow> bytes" where
  "tcp_header source dest seq ack_seq doff flags window check =
     bytes16 source @ bytes16 dest @ bytes32 seq @ bytes32 ack_seq @ [of_nat (16 * doff), flags]
     @ bytes16 window @ bytes16 check @ [0, 0]"

text \<open>The fields of a received header; ports, numbers and window are as they lie in the packet.\<close>

record tcphdr =
  th_source :: u16
  th_dest :: u16
  th_seq :: u32
  th_ack_seq :: u32
  th_doff :: nat
  th_fin :: bool
  th_syn :: bool
  th_rst :: bool
  th_psh :: bool
  th_ack :: bool
  th_urg :: bool
  th_window :: u16

definition rd_tcphdr :: "bytes \<Rightarrow> nat \<Rightarrow> tcphdr option" where
  "rd_tcphdr m p =
     do { source \<leftarrow> rd16 m p; dest \<leftarrow> rd16 m (p + 2); seq \<leftarrow> rd32 m (p + 4);
          ack_seq \<leftarrow> rd32 m (p + 8); doff \<leftarrow> rd8 m (p + 12); flags \<leftarrow> rd8 m (p + 13);
          window \<leftarrow> rd16 m (p + 14);
          Some \<lparr>th_source = source, th_dest = dest, th_seq = seq, th_ack_seq = ack_seq,
                th_doff = unat (drop_bit 4 doff), th_fin = bit flags 0, th_syn = bit flags 1,
                th_rst = bit flags 2, th_psh = bit flags 3, th_ack = bit flags 4,
                th_urg = bit flags 5, th_window = window\<rparr> }"

section \<open>Lengths and sums\<close>

lemma rd16_app [wire_simps]: "length a = i \<Longrightarrow> rd16 (a @ bytes16 v @ b) i = Some v"
  by (simp add: rd16_def rd8_def nth_append bytes16_def le16_bytes)

lemma rd32_app [wire_simps]: "length a = i \<Longrightarrow> rd32 (a @ bytes32 v @ b) i = Some v"
  by (simp add: rd32_def rd8_def nth_append bytes32_def le32_bytes)

lemma rd8_app [wire_simps]: "length a = i \<Longrightarrow> rd8 (a @ v # b) i = Some v"
  by (simp add: rd8_def nth_append)

lemma length_ip4_header [simp]:
  "length (ip4_header n p s d c) = 12 + length s + length d"
  by (simp add: ip4_header_def)

lemma length_build_ip4 [simp]: "length (build_ip4 n p s d) = 12 + length s + length d"
  by (simp add: build_ip4_def)

lemma length_build_ip6 [simp]: "length (build_ip6 n p s d) = 8 + length s + length d"
  by (simp add: build_ip6_def)

lemma length_tcp_header [simp]: "length (tcp_header a b c d e f g h) = 20"
  by (simp add: tcp_header_def)

lemma wsum_bytes32: "wsum (bytes32 w) = unat w mod 65536 + unat w div 65536"
proof -
  have "wsum (bytes32 w) = unat w mod 256 + 256 * (unat w div 256 mod 256)
      + (unat w div 65536 mod 256 + 256 * (unat w div 16777216 mod 256))"
    by (simp add: bytes32_def unat_byte unat_byte0 unat_drop_bit_div)
  moreover have "unat w div 16777216 < 256"
    using unat_u32 [of w] by (simp add: less_mult_imp_div_less)
  moreover have "unat w mod 65536 = unat w mod 256 + 256 * (unat w div 256 mod 256)"
    using mod_mult2_eq [of "unat w" 256 256] by simp
  moreover have "unat w div 65536 = unat w div 65536 mod 256 + 256 * (unat w div 16777216)"
    using mult_div_mod_eq [of 256 "unat w div 65536"] by (simp add: div_mult2_eq [symmetric])
  ultimately show ?thesis by simp
qed

lemma calc_checksum_cong:
  assumes "wsum a = wsum b" "length a \<le> ck_max" "length b \<le> ck_max"
  shows "calc_checksum s a = calc_checksum s b"
  using assms csum.ck_val [of a s] csum.ck_val [of b s]
  by (intro unsigned_word_eqI [where ?'a = nat]) simp

section \<open>The receiver's checks\<close>

text \<open>
  What a receiver does (RFC 791, RFC 793, RFC 2460): the words of the header sum to 65535, and
  so do those of the segment behind the pseudo header of its addresses, protocol and length.
\<close>

definition ip4_header_ok :: "bytes \<Rightarrow> bool" where
  "ip4_header_ok p \<longleftrightarrow> calc_checksum 0 (take 20 p) = 0xFFFF"

definition rx_pseudo :: "nat \<Rightarrow> bytes \<Rightarrow> bytes \<Rightarrow> u8 \<Rightarrow> nat \<Rightarrow> bytes" where
  "rx_pseudo v src dst proto n =
     (if v = 4 then src @ dst @ [0, proto] @ bytes16 (htons (of_nat n))
      else src @ dst @ [0, 0] @ bytes16 (htons (of_nat n)) @ [0, 0, 0, proto])"

lemma ip4_header_sealed:
  assumes "length src = 4" "length dst = 4"
  shows "ip4_header_ok (build_ip4 n proto src dst @ rest)"
proof -
  let ?pre = "[0x45, 0] @ bytes16 (htons (of_nat n)) @ [0, 0, 0, 0, IPDEFTTL, proto]"
  have "calc_checksum 0 (?pre @ bytes16 (NOT (calc_checksum 0 (?pre @ bytes16 0 @ src @ dst)))
      @ src @ dst) = 0xFFFF"
    using assms by (intro csum.ck_seal) (simp_all add: ck_max_def)
  then show ?thesis
    using assms by (simp add: ip4_header_ok_def build_ip4_def ip4_header_def)
qed

text \<open>
  The transport checksum: the code sums its pseudo header \<open>ps\<close>, then the pieces of the
  segment; a receiver sums its own pseudo header \<open>ps'\<close> of the same words and the segment.
\<close>

lemma segment_sealed:
  assumes "wsum ps = wsum ps'" "even (length ps)" "even (length ps')" "even (length pre)"
    and "length ps + length pre + length post + 2 \<le> ck_max"
    and "length ps' + length pre + length post + 2 \<le> ck_max"
    and "c = NOT (calc_checksum (calc_checksum 0 ps) (pre @ bytes16 0 @ post))"
  shows "calc_checksum 0 (ps' @ pre @ bytes16 c @ post) = 0xFFFF"
proof -
  have "calc_checksum (calc_checksum 0 ps) (pre @ bytes16 0 @ post)
      = calc_checksum 0 (ps @ pre @ bytes16 0 @ post)"
    using assms by (intro csum.ck_append) simp_all
  also have "\<dots> = calc_checksum 0 (ps' @ pre @ bytes16 0 @ post)"
    using assms by (intro calc_checksum_cong) (simp_all add: wsum_append)
  finally have c: "c = NOT (calc_checksum 0 ((ps' @ pre) @ bytes16 0 @ post))"
    using assms(7) by simp
  show ?thesis using csum.ck_seal [OF _ _ c] assms by simp
qed

lemma rx_pseudo4: "v = 4 \<Longrightarrow> wsum (ippseudo s d p n) = wsum (rx_pseudo v s d p n)"
  by (simp add: ippseudo_def rx_pseudo_def)

lemma rx_pseudo6:
  assumes "v \<noteq> 4" "even (length s)" "even (length d)"
  shows "wsum (ip6_hdr_pseudo d s (ucast (htons (of_nat n) :: u16)) p) = wsum (rx_pseudo v s d p n)"
proof -
  have "unat (ucast (htons (of_nat n) :: u16) :: u32) = unat (htons (of_nat n) :: u16)"
    using unat_u16 [of "htons (of_nat n)"] by (simp add: unat_ucast_mod)
  then show ?thesis
    using assms unat_u16 [of "htons (of_nat n)"]
    by (simp add: ip6_hdr_pseudo_def rx_pseudo_def wsum_append wsum_bytes32)
qed

section \<open>The IP part of a packet towards the tunnel\<close>

text \<open>
  The IP header and the sum of the pseudo header for \<open>n\<close> bytes of a protocol, from the destination of
  a session (\<open>daddr\<close>) to its source, as the three writers build them.
\<close>

definition ip_part :: "nat \<Rightarrow> bytes \<Rightarrow> bytes \<Rightarrow> u8 \<Rightarrow> nat \<Rightarrow> bytes \<times> u16" where
  "ip_part version saddr daddr proto n =
     (if version = 4 then
        let src = ip4 daddr; dst = ip4 saddr
        in (build_ip4 (20 + n) proto src dst, calc_checksum 0 (ippseudo src dst proto n))
      else
        let src = daddr; dst = saddr
        in (build_ip6 n proto src dst,
            calc_checksum 0 (ip6_hdr_pseudo dst src (ucast (htons (of_nat n) :: u16)) proto)))"

definition iphl :: "nat \<Rightarrow> nat" where "iphl v = (if v = 4 then 20 else 40)"

definition addrs_fit :: "nat \<Rightarrow> bytes \<Rightarrow> bytes \<Rightarrow> bool" where
  "addrs_fit version saddr daddr \<longleftrightarrow>
     (if version = 4 then 4 \<le> length saddr \<and> 4 \<le> length daddr
      else length saddr = 16 \<and> length daddr = 16)"

definition view_addr :: "nat \<Rightarrow> bytes \<Rightarrow> bytes" where
  "view_addr v a = (if v = 4 then ip4 a else a)"

lemma ip_part_length:
  "addrs_fit v s d \<Longrightarrow> ip_part v s d proto n = (ip, ps) \<Longrightarrow> length ip = iphl v"
  by (auto simp: ip_part_def addrs_fit_def iphl_def ip4_def Let_def min_def split: if_splits)

lemma ip_part_header:
  assumes "addrs_fit 4 s d" "ip_part 4 s d proto n = (ip, ps)" "20 + n < 65536"
  shows "ip4_header_ok (ip @ r) \<and> rd8 (ip @ r) 0 = Some 0x45 \<and> rd8 (ip @ r) 9 = Some proto
    \<and> map_option (\<lambda>x. unat (ntohs x)) (rd16 (ip @ r) 2) = Some (20 + n)
    \<and> take 4 (drop 12 ip) = ip4 d \<and> take 4 (drop 16 ip) = ip4 s"
proof -
  let ?s = "ip4 d" and ?d = "ip4 s"
  have ip: "ip = build_ip4 (20 + n) proto ?s ?d"
    using assms(2) by (simp add: ip_part_def Let_def)
  have l: "length ?s = 4" "length ?d = 4" using assms(1) by (simp_all add: addrs_fit_def ip4_def)
  obtain c where h: "ip = ip4_header (20 + n) proto ?s ?d c" by (simp add: ip build_ip4_def)
  have "rd16 (ip @ r) 2 = Some (htons (of_nat (20 + n)))"
    using rd16_app [of "[0x45, 0]" 2] by (simp add: h ip4_header_def)
  moreover have "rd8 (ip @ r) 0 = Some 0x45" "rd8 (ip @ r) 9 = Some proto"
    by (simp_all add: h ip4_header_def rd8_def bytes16_def)
  moreover have "unat (of_nat (20 + n) :: u16) = 20 + n" using assms(3) by (rule unat_of_nat16)
  ultimately show ?thesis
    using ip4_header_sealed [OF l] l by (simp add: ip) (simp add: build_ip4_def ip4_header_def bytes16_def)
qed

text \<open>
  A segment whose checksum field continues the sum of the pseudo header verifies at the receiver.
\<close>

lemma ip_part_sealed:
  assumes "addrs_fit v s d" "ip_part v s d proto n = (ip, ps)"
    and "even (length pre)" "length pre + length post + 42 \<le> ck_max"
    and "c = NOT (calc_checksum ps (pre @ bytes16 0 @ post))"
  shows "calc_checksum 0 (rx_pseudo v (view_addr v d) (view_addr v s) proto n @ pre @ bytes16 c @ post) = 0xFFFF"
proof -
  let ?s = "view_addr v d" and ?d = "view_addr v s"
  let ?ps' = "rx_pseudo v ?s ?d proto n"
  have la: "length ?s = (if v = 4 then 4 else 16)" "length ?d = (if v = 4 then 4 else 16)"
    using assms(1) by (auto simp: view_addr_def addrs_fit_def ip4_def)
  have ip: "ps = calc_checksum 0 (if v = 4 then ippseudo ?s ?d proto n
      else ip6_hdr_pseudo ?d ?s (ucast (htons (of_nat n) :: u16)) proto)"
    using assms(2) by (simp add: ip_part_def view_addr_def Let_def split: if_splits)
  obtain q where q: "ps = calc_checksum 0 q" "wsum q = wsum ?ps'" "even (length q)" "length q \<le> 40"
    using that [OF ip] rx_pseudo4 [of v ?s ?d proto n] rx_pseudo6 [of v ?s ?d n proto] la
    by (cases "v = 4") (simp_all add: ippseudo_def ip6_hdr_pseudo_def)
  have l: "even (length ?ps')" "length ?ps' \<le> 40"
    using la by (auto simp: rx_pseudo_def)
  show ?thesis
    using q l assms(3-5) by (intro segment_sealed [of q]) auto
qed

end
