(* ===== verification/TcpOut.thy ===== *)
theory TcpOut
  imports Packets
begin

text \<open>
  The packets that the TCP relay writes to the tunnel: \<open>write_tcp\<close> and its wrappers at the
  end of \<open>tcp.c\<close>. The session is the sender's peer, so its destination is the source of the
  packet. \<open>None\<close> is the undefined shift of a window by a scale of 32 or more.
\<close>

section \<open>Building a segment\<close>

text \<open>
  The options of a SYN: maximum segment size, which the code stores without \<open>htons\<close>, window
  scale, end of options.
\<close>

definition syn_options :: "tcp_session \<Rightarrow> bytes" where
  "syn_options cur = [2, 4] @ bytes16 (get_default_mss (t_version cur)) @ [3, 3, t_recv_scale cur, 0]"

text \<open>The IP header and the sum of the pseudo header for a segment of \<open>n\<close> bytes.\<close>

definition tcp_ip_part :: "tcp_session \<Rightarrow> nat \<Rightarrow> bytes \<times> u16" where
  "tcp_ip_part cur n = ip_part (t_version cur) (t_saddr cur) (t_daddr cur) IPPROTO_TCP n"

definition tcp_segment ::
  "tcp_session \<Rightarrow> bytes \<Rightarrow> bool \<Rightarrow> bool \<Rightarrow> bool \<Rightarrow> bool \<Rightarrow> u32 \<Rightarrow> u16 \<Rightarrow> bytes" where
  "tcp_segment cur data syn ack fin rst window check =
     tcp_header (t_dest cur) (t_source cur) (htonl (t_local_seq cur))
       (if ack then htonl (t_remote_seq cur) else 0)
       (if syn then 7 else 5) (tcp_flags syn ack fin rst) (htons (ucast window)) check
     @ (if syn then syn_options cur else []) @ data"

text \<open>The packet: headers with their checksums, options and data.\<close>

definition tcp_packet ::
  "tcp_session \<Rightarrow> bytes \<Rightarrow> bool \<Rightarrow> bool \<Rightarrow> bool \<Rightarrow> bool \<Rightarrow> bytes option" where
  "tcp_packet cur data syn ack fin rst =
     do { let optlen = (if syn then 4 + 3 + 1 else 0);
          let (ip, csum) = tcp_ip_part cur (20 + optlen + length data);
          window \<leftarrow> shr32 (t_recv_window cur) (t_recv_scale cur);
          let tcp = take 20 (tcp_segment cur data syn ack fin rst window 0);
          let csum = calc_checksum csum tcp;
          let csum = calc_checksum csum (if syn then syn_options cur else []);
          let csum = calc_checksum csum data;
          Some (ip @ tcp_segment cur data syn ack fin rst window (NOT csum)) }"

definition write_tcp ::
  "env \<Rightarrow> tcp_session \<Rightarrow> bytes \<Rightarrow> bool \<Rightarrow> bool \<Rightarrow> bool \<Rightarrow> bool \<Rightarrow> world \<Rightarrow> (int \<times> world) option"
where
  "write_tcp E cur data syn ack fin rst w =
     do { buffer \<leftarrow> tcp_packet cur data syn ack fin rst;
          let (res, w) = tun_write E buffer w;
          Some (if ssize_to_size res \<noteq> int (length buffer) then - 1 else res, w) }"

section \<open>The wrappers\<close>

definition write_syn_ack :: "env \<Rightarrow> tcp_session \<Rightarrow> world \<Rightarrow> (int \<times> tcp_session \<times> world) option" where
  "write_syn_ack E cur w =
     do { (res, w) \<leftarrow> write_tcp E cur [] True True False False w;
          if res < 0 then Some (- 1, cur\<lparr>t_state := TCP_CLOSING\<rparr>, w) else Some (0, cur, w) }"

definition write_ack :: "env \<Rightarrow> tcp_session \<Rightarrow> world \<Rightarrow> (int \<times> tcp_session \<times> world) option" where
  "write_ack E cur w =
     do { (res, w) \<leftarrow> write_tcp E cur [] False True False False w;
          if res < 0 then Some (- 1, cur\<lparr>t_state := TCP_CLOSING\<rparr>, w) else Some (0, cur, w) }"

definition write_data ::
  "env \<Rightarrow> tcp_session \<Rightarrow> bytes \<Rightarrow> world \<Rightarrow> (int \<times> tcp_session \<times> world) option" where
  "write_data E cur buffer w =
     do { (res, w) \<leftarrow> write_tcp E cur buffer False True False False w;
          if res < 0 then Some (- 1, cur\<lparr>t_state := TCP_CLOSING\<rparr>, w) else Some (0, cur, w) }"

definition write_fin_ack :: "env \<Rightarrow> tcp_session \<Rightarrow> world \<Rightarrow> (int \<times> tcp_session \<times> world) option" where
  "write_fin_ack E cur w =
     do { (res, w) \<leftarrow> write_tcp E cur [] False True True False w;
          if res < 0 then Some (- 1, cur\<lparr>t_state := TCP_CLOSING\<rparr>, w) else Some (0, cur, w) }"

definition write_rst :: "env \<Rightarrow> tcp_session \<Rightarrow> world \<Rightarrow> (tcp_session \<times> world) option" where
  "write_rst E cur w =
     do { let ack = (t_state cur = TCP_LISTEN);
          let cur = (if ack then cur\<lparr>t_remote_seq := t_remote_seq cur + 1\<rparr> else cur);
          (res, w) \<leftarrow> write_tcp E cur [] False ack False True w;
          Some (if t_state cur \<noteq> TCP_CLOSE then cur\<lparr>t_state := TCP_CLOSING\<rparr> else cur, w) }"

section \<open>What is written\<close>

definition addrs_ok :: "tcp_session \<Rightarrow> bool" where
  "addrs_ok cur \<longleftrightarrow> addrs_fit (t_version cur) (t_saddr cur) (t_daddr cur)"

lemma length_syn_options [simp]: "length (syn_options cur) = 8"
  by (simp add: syn_options_def)

lemma length_tcp_segment [simp]:
  "length (tcp_segment cur data syn ack fin rst win c) = 20 + (if syn then 8 else 0) + length data"
  by (simp add: tcp_segment_def)

lemma tcp_flag_bits:
  "bit (tcp_flags syn ack fin rst) 0 = fin" "bit (tcp_flags syn ack fin rst) 1 = syn"
  "bit (tcp_flags syn ack fin rst) 2 = rst" "bit (tcp_flags syn ack fin rst) 3 = False"
  "bit (tcp_flags syn ack fin rst) 4 = ack" "bit (tcp_flags syn ack fin rst) 5 = False"
  by (cases syn; cases ack; cases fin; cases rst; simp add: tcp_flags_def; code_simp)+

lemma tcp_segment_split:
  "tcp_segment cur data syn ack fin rst win c =
     take 16 (tcp_segment cur data syn ack fin rst win 0) @ bytes16 c
     @ drop 18 (tcp_segment cur data syn ack fin rst win 0)"
  by (simp add: tcp_segment_def tcp_header_def bytes16_def bytes32_def)

lemma tcp_packet_Some_iff:
  "tcp_packet cur data syn ack fin rst = Some p \<longleftrightarrow>
     unat (t_recv_scale cur) < 32 \<and>
     (\<exists>ip ps. tcp_ip_part cur (20 + (if syn then 8 else 0) + length data) = (ip, ps) \<and>
        (let win = drop_bit (unat (t_recv_scale cur)) (t_recv_window cur);
             tcp = take 20 (tcp_segment cur data syn ack fin rst win 0)
         in p = ip @ tcp_segment cur data syn ack fin rst win
              (NOT (calc_checksum (calc_checksum (calc_checksum ps tcp)
                 (if syn then syn_options cur else [])) data))))"
  by (auto simp: tcp_packet_def shr32_def Let_def bind_eq_Some_conv split: prod.splits if_splits)

lemma tcp_packet_defined:
  "tcp_packet cur data syn ack fin rst \<noteq> None \<longleftrightarrow> unat (t_recv_scale cur) < 32"
  by (auto simp: tcp_packet_def shr32_def Let_def split: prod.splits)

lemma tcp_ip_part_length:
  "addrs_ok cur \<Longrightarrow> tcp_ip_part cur n = (ip, ps) \<Longrightarrow> length ip = iphl (t_version cur)"
  unfolding addrs_ok_def tcp_ip_part_def by (rule ip_part_length)

text \<open>The sum of the pieces is the sum of the whole segment with a zero checksum.\<close>

lemma tcp_csum_pieces:
  assumes "length data \<le> 65535"
  shows "calc_checksum (calc_checksum (calc_checksum ps (take 20 (tcp_segment cur data syn ack fin rst win 0)))
           (if syn then syn_options cur else [])) data
         = calc_checksum ps (tcp_segment cur data syn ack fin rst win 0)"
proof -
  let ?h = "take 20 (tcp_segment cur data syn ack fin rst win 0)"
  let ?o = "if syn then syn_options cur else []"
  have s: "tcp_segment cur data syn ack fin rst win 0 = ?h @ ?o @ data"
    by (simp add: tcp_segment_def)
  have "calc_checksum (calc_checksum ps ?h) ?o = calc_checksum ps (?h @ ?o)"
    by (intro csum.ck_append) (simp_all add: ck_max_def)
  moreover have "calc_checksum (calc_checksum ps (?h @ ?o)) data = calc_checksum ps ((?h @ ?o) @ data)"
    using assms by (intro csum.ck_append) (simp_all add: ck_max_def)
  ultimately show ?thesis using s by (simp only: append_assoc)
qed

lemma tcp_segment_verifies:
  assumes "addrs_ok cur" "length data \<le> 65535"
    and "tcp_ip_part cur n = (ip, ps)" "n = 20 + (if syn then 8 else 0) + length data"
    and "c = NOT (calc_checksum ps (tcp_segment cur data syn ack fin rst win 0))"
  shows "calc_checksum 0 (rx_pseudo (t_version cur) (view_addr (t_version cur) (t_daddr cur))
           (view_addr (t_version cur) (t_saddr cur)) IPPROTO_TCP n
           @ tcp_segment cur data syn ack fin rst win c) = 0xFFFF"
proof -
  let ?t = "tcp_segment cur data syn ack fin rst win 0"
  have t: "take 16 ?t @ bytes16 0 @ drop 18 ?t = ?t"
    by (rule tcp_segment_split [symmetric])
  show ?thesis
    by (subst tcp_segment_split)
      (use assms(1-3,5) t in \<open>intro ip_part_sealed [of _ _ _ _ _ ip ps]; auto simp: addrs_ok_def tcp_ip_part_def ck_max_def\<close>)
qed

lemma tcp_ip_part_header:
  assumes "addrs_ok cur" "tcp_ip_part cur n = (ip, ps)" "t_version cur = 4" "20 + n < 65536"
  shows "ip4_header_ok (ip @ r) \<and> rd8 (ip @ r) 0 = Some 0x45 \<and> rd8 (ip @ r) 9 = Some IPPROTO_TCP
    \<and> map_option (\<lambda>x. unat (ntohs x)) (rd16 (ip @ r) 2) = Some (20 + n)
    \<and> take 4 (drop 12 ip) = ip4 (t_daddr cur) \<and> take 4 (drop 16 ip) = ip4 (t_saddr cur)"
  using assms by (intro ip_part_header) (simp_all add: addrs_ok_def tcp_ip_part_def)

lemma rd_tcp_segment:
  assumes "length a = i"
  shows "rd_tcphdr (a @ tcp_segment cur data syn ack fin rst win c @ r) i =
    Some \<lparr>th_source = t_dest cur, th_dest = t_source cur, th_seq = htonl (t_local_seq cur),
          th_ack_seq = (if ack then htonl (t_remote_seq cur) else 0),
          th_doff = (if syn then 7 else 5), th_fin = fin, th_syn = syn, th_rst = rst,
          th_psh = False, th_ack = ack, th_urg = False, th_window = htons (ucast win)\<rparr>"
proof -
  let ?f = "tcp_flags syn ack fin rst" and ?k = "if syn then 7 else 5 :: nat"
  let ?q = "if ack then htonl (t_remote_seq cur) else 0"
  define h where "h = tcp_header (t_dest cur) (t_source cur) (htonl (t_local_seq cur)) ?q ?k ?f
    (htons (ucast win)) c"
  define b where "b = (if syn then syn_options cur else []) @ data @ r"
  have e: "a @ tcp_segment cur data syn ack fin rst win c @ r = a @ h @ b"
    by (simp add: tcp_segment_def h_def b_def)
  have r16: "rd16 (a @ h @ b) i = Some (t_dest cur)" "rd16 (a @ h @ b) (i + 2) = Some (t_source cur)"
    "rd16 (a @ h @ b) (i + 14) = Some (htons (ucast win))"
    using assms rd16_app [of a i "t_dest cur"] rd16_app [of "a @ bytes16 (t_dest cur)" "i + 2" "t_source cur"]
      rd16_app [of "a @ take 14 h" "i + 14" "htons (ucast win)"]
    by (simp_all add: h_def tcp_header_def bytes16_def bytes32_def)
  have r32: "rd32 (a @ h @ b) (i + 4) = Some (htonl (t_local_seq cur))"
    "rd32 (a @ h @ b) (i + 8) = Some ?q"
    using assms rd32_app [of "a @ take 4 h" "i + 4" "htonl (t_local_seq cur)"]
      rd32_app [of "a @ take 8 h" "i + 8" ?q]
    by (simp_all add: h_def tcp_header_def bytes16_def bytes32_def)
  have r8: "rd8 (a @ h @ b) (i + 12) = Some (of_nat (16 * ?k))" "rd8 (a @ h @ b) (i + 13) = Some ?f"
    using assms by (simp_all add: rd8_def nth_append h_def tcp_header_def bytes16_def bytes32_def)
  have "unat (drop_bit 4 (of_nat (16 * ?k) :: u8)) = ?k" by (simp add: unat_drop_bit_div)
  then show ?thesis
    unfolding e by (simp only: rd_tcphdr_def r16 r32 r8 tcp_flag_bits Option.bind.bind_lunit)
qed

section \<open>Effects of the wrappers\<close>

lemma write_tcp_effect:
  "write_tcp E cur data syn ack fin rst w = Some (res, w') \<Longrightarrow>
     \<exists>p. tcp_packet cur data syn ack fin rst = Some p \<and> w_trace w' = w_trace w @ [TunWrite p]
         \<and> w_tick w' = w_tick w + 1"
  by (auto simp: write_tcp_def bind_eq_Some_conv tun_write_def Let_def split: prod.splits)

lemma write_tcp_defined:
  "write_tcp E cur data syn ack fin rst w \<noteq> None \<longleftrightarrow> unat (t_recv_scale cur) < 32"
  using tcp_packet_defined [of cur data syn ack fin rst]
  by (auto simp: write_tcp_def Let_def split: prod.splits)

text \<open>
  A wrapper writes one packet; the session stays the same when the write succeeds and is
  \<open>TCP_CLOSING\<close> when it fails.
\<close>

definition acked_write :: "tcp_session \<Rightarrow> int \<Rightarrow> tcp_session \<Rightarrow> bool" where
  "acked_write cur res cur' \<longleftrightarrow>
     res = 0 \<and> cur' = cur \<or> res = - 1 \<and> cur' = cur\<lparr>t_state := TCP_CLOSING\<rparr>"

lemma wrapper_effect:
  assumes "do { (res, w) \<leftarrow> write_tcp E cur data syn ack fin rst w;
                if res < 0 then Some (- 1, cur\<lparr>t_state := TCP_CLOSING\<rparr>, w) else Some (0, cur, w) }
           = Some (res, cur', w')"
  shows "acked_write cur res cur' \<and>
     (\<exists>p. tcp_packet cur data syn ack fin rst = Some p \<and> w_trace w' = w_trace w @ [TunWrite p])"
proof -
  obtain r w1 where r: "write_tcp E cur data syn ack fin rst w = Some (r, w1)"
    using assms by (cases "write_tcp E cur data syn ack fin rst w") auto
  have "acked_write cur res cur' \<and> w' = w1"
  proof (cases "r < 0")
    case True
    with assms have "res = - 1" "cur' = cur\<lparr>t_state := TCP_CLOSING\<rparr>" "w' = w1" by (simp_all add: r)
    then show ?thesis unfolding acked_write_def by blast
  next
    case False
    with assms have "res = 0" "cur' = cur" "w' = w1" by (simp_all add: r)
    then show ?thesis unfolding acked_write_def by blast
  qed
  then show ?thesis using write_tcp_effect [OF r] by blast
qed

lemmas wrapper_effects =
  wrapper_effect [of _ _ "[]" True True False False, folded write_syn_ack_def]
  wrapper_effect [of _ _ "[]" False True False False, folded write_ack_def]
  wrapper_effect [of _ _ _ False True False False, folded write_data_def]
  wrapper_effect [of _ _ "[]" False True True False, folded write_fin_ack_def]

text \<open>The session after a reset was written.\<close>

definition listen_bump :: "tcp_session \<Rightarrow> tcp_session" where
  "listen_bump cur = (if t_state cur = TCP_LISTEN then cur\<lparr>t_remote_seq := t_remote_seq cur + 1\<rparr> else cur)"

definition after_rst :: "tcp_session \<Rightarrow> tcp_session" where
  "after_rst cur = (if t_state cur = TCP_CLOSE then cur else (listen_bump cur)\<lparr>t_state := TCP_CLOSING\<rparr>)"

lemma listen_bump_simps [simp]:
  "t_state (listen_bump cur) = t_state cur" "t_recv_scale (listen_bump cur) = t_recv_scale cur"
  by (simp_all add: listen_bump_def)

lemma after_rst_frame [frame_simps]:
  "t_state (after_rst cur) = (if t_state cur = TCP_CLOSE then TCP_CLOSE else TCP_CLOSING)"
  "t_recv_scale (after_rst cur) = t_recv_scale cur" "t_send_scale (after_rst cur) = t_send_scale cur"
  "t_forward (after_rst cur) = t_forward cur" "t_local_seq (after_rst cur) = t_local_seq cur"
  "t_version (after_rst cur) = t_version cur" "t_saddr (after_rst cur) = t_saddr cur"
  "t_daddr (after_rst cur) = t_daddr cur" "t_time (after_rst cur) = t_time cur"
  "t_sent (after_rst cur) = t_sent cur" "t_received (after_rst cur) = t_received cur"
  "t_connect_sent (after_rst cur) = t_connect_sent cur" "t_dest (after_rst cur) = t_dest cur"
  "t_source (after_rst cur) = t_source cur" "t_acked (after_rst cur) = t_acked cur"
  by (simp_all add: after_rst_def listen_bump_def)

lemma write_rst_eq:
  "write_rst E cur w =
     map_option (\<lambda>(res, w'). (after_rst cur, w'))
       (write_tcp E (listen_bump cur) [] False (t_state cur = TCP_LISTEN) False True w)"
  by (cases "write_tcp E (listen_bump cur) [] False (t_state cur = TCP_LISTEN) False True w")
    (auto simp: write_rst_def after_rst_def listen_bump_def Let_def)

lemma write_rst_effect:
  assumes "write_rst E cur w = Some (cur', w')"
  shows "cur' = after_rst cur \<and> (\<exists>p. tcp_packet (listen_bump cur) [] False (t_state cur = TCP_LISTEN) False True
           = Some p \<and> w_trace w' = w_trace w @ [TunWrite p])"
  using assms unfolding write_rst_eq by (auto dest!: write_tcp_effect)

lemma wrapper_defined:
  "do { (res, w) \<leftarrow> write_tcp E cur data syn ack fin rst w;
        if res < 0 then Some (- 1, cur\<lparr>t_state := TCP_CLOSING\<rparr>, w) else Some (0, cur, w) } \<noteq> None
   \<longleftrightarrow> unat (t_recv_scale cur) < 32"
  using write_tcp_defined [of E cur data syn ack fin rst w]
  by (cases "write_tcp E cur data syn ack fin rst w") (auto split: prod.splits)

lemmas wrappers_defined =
  wrapper_defined [of _ _ "[]" True True False False, folded write_syn_ack_def]
  wrapper_defined [of _ _ "[]" False True False False, folded write_ack_def]
  wrapper_defined [of _ _ _ False True False False, folded write_data_def]
  wrapper_defined [of _ _ "[]" False True True False, folded write_fin_ack_def]

lemma write_rst_defined: "write_rst E cur w \<noteq> None \<longleftrightarrow> unat (t_recv_scale cur) < 32"
  by (simp add: write_rst_eq write_tcp_defined del: not_None_eq)

section \<open>Properties\<close>


text \<open>A session from 10.1.10.1 port 1024 to 1.2.3.4 port 443.\<close>

definition sample_tcp :: tcp_session where
  "sample_tcp = \<lparr>t_uid = 0, t_time = 1000, t_version = 4, t_mss = 1460, t_recv_scale = 7, t_send_scale = 7,
     t_recv_window = 65536, t_send_window = 65536, t_remote_seq = 1000, t_local_seq = 77,
     t_remote_start = 1000, t_local_start = 77, t_acked = 0, t_last_keep_alive = 0, t_sent = 0,
     t_received = 0, t_saddr = [10, 1, 10, 1], t_source = htons 1024, t_daddr = [1, 2, 3, 4],
     t_dest = htons 443, t_state = TCP_ESTABLISHED, t_forward = [], t_hostname = [],
     t_connect_sent = TCP_CONNECT_ESTABLISHED\<rparr>"


end
