(* ===== verification/TcpQueue.thy ===== *)
theory TcpQueue
  imports TcpOut "HOL-Library.Multiset"
begin

text \<open>
  The data the relay holds for a TCP connection: the queue of segments that wait to be sent to
  the socket, the room the peer has announced and the room the relay announces. The linked list
  \<open>forward\<close> is a list of segments; memory is assumed never to run out.
\<close>

section \<open>The queue\<close>

text \<open>
  The search loop with the three outcomes of \<open>queue_tcp\<close>: \<open>n\<close> goes before the first segment
  that does not compare less; a segment of the same number stays, with the longer data of \<open>n\<close>
  but, as in the source, its old length.
\<close>

fun queue_insert :: "segment \<Rightarrow> segment list \<Rightarrow> segment list" where
  "queue_insert n [] = [n]"
| "queue_insert n (s # q) =
     (if compare_u32 (seg_seq s) (seg_seq n) < 0 then s # queue_insert n q
      else if compare_u32 (seg_seq s) (seg_seq n) > 0 then n # s # q
      else if seg_len s = seg_len n then s # q
      else if seg_len s < seg_len n then s\<lparr>seg_data := seg_data n\<rparr> # q
      else s # q)"

definition new_segment :: "u32 \<Rightarrow> bool \<Rightarrow> bytes \<Rightarrow> segment" where
  "new_segment seq psh data =
     \<lparr>seg_seq = seq, seg_len = of_nat (length data), seg_sent = 0, seg_psh = psh, seg_data = data\<rparr>"

definition queue_tcp :: "tcphdr \<Rightarrow> tcp_session \<Rightarrow> bytes \<Rightarrow> tcp_session" where
  "queue_tcp tcphdr cur data =
     (let seq = ntohl (th_seq tcphdr) in
      if compare_u32 seq (t_remote_seq cur) < 0 then cur
      else cur\<lparr>t_forward := queue_insert (new_segment seq (th_psh tcphdr) data) (t_forward cur)\<rparr>)"

text \<open>\<open>clear_tcp_data\<close> frees every segment; the session's list is then never read again.\<close>

definition clear_tcp_data :: "tcp_session \<Rightarrow> tcp_session" where
  "clear_tcp_data cur = cur\<lparr>t_forward := []\<rparr>"

section \<open>Windows\<close>

definition get_send_window :: "tcp_session \<Rightarrow> u32" where
  "get_send_window cur =
     (let behind = (if compare_u32 (t_acked cur) (t_local_seq cur) \<le> 0
                    then t_local_seq cur - t_acked cur else t_acked cur)
      in if behind < t_send_window cur then t_send_window cur - behind else 0)"

text \<open>A failing \<open>getsockopt\<close> or \<open>ioctl\<close> leaves the variable zero.\<close>

definition get_receive_buffer :: "env \<Rightarrow> 'k ng_session \<Rightarrow> world \<Rightarrow> int \<times> world" where
  "get_receive_buffer E cur w =
     (if ng_socket cur < 0 then (0, w)
      else
        let sendbuf = (case e_sndbuf E (w_tick w) (ng_socket cur) of Some v \<Rightarrow> v | None \<Rightarrow> 0);
            sendbuf = (if sendbuf = 0 then 16384 else sendbuf);
            w = tick w;
            unsent = (case e_outq E (w_tick w) (ng_socket cur) of Some v \<Rightarrow> v | None \<Rightarrow> 0)
        in (if unsent < sendbuf sdiv 2 then sendbuf sdiv 2 - unsent else 0, tick w))"

definition unsent :: "segment \<Rightarrow> u32" where
  "unsent q = of_int (uint (seg_len q) - uint (seg_sent q))"

definition to_forward :: "segment list \<Rightarrow> u32" where
  "to_forward qs = fold (\<lambda>q n. n + unsent q) qs 0"

definition get_receive_window ::
  "env \<Rightarrow> tcp_session ng_session \<Rightarrow> world \<Rightarrow> (u32 \<times> world) option" where
  "get_receive_window E cur w =
     do { let toforward = to_forward (t_forward (ng_k cur));
          let (buf, w) = get_receive_buffer E cur w;
          let window = (of_int buf :: u32);
          mx \<leftarrow> shl32 0xFFFF (t_recv_scale (ng_k cur));
          let window = (if window > mx then mx else window);
          let window = (if toforward < window then window - toforward else 0);
          top \<leftarrow> shr32 window (t_recv_scale (ng_k cur));
          Some (if top = 0 then 0 else window, w) }"

section \<open>Ordered queues\<close>

text \<open>
  The contract of an ordered queue of items with integer keys: inserting into a strictly sorted
  queue keeps it sorted and an item with a new key is added to the items. The comparison of the
  code is only an order between keys that are \<open>near\<close> each other.
\<close>

locale ordered_queue =
  fixes key :: "'a \<Rightarrow> int" and near :: "'a \<Rightarrow> 'a \<Rightarrow> bool" and ins :: "'a \<Rightarrow> 'a list \<Rightarrow> 'a list"
  assumes ins_sorted: "sorted_wrt (<) (map key q) \<Longrightarrow> \<forall>b \<in> set q. near a b \<Longrightarrow>
      sorted_wrt (<) (map key (ins a q))"
    and ins_keys: "sorted_wrt (<) (map key q) \<Longrightarrow> \<forall>b \<in> set q. near a b \<Longrightarrow>
      key ` set (ins a q) = insert (key a) (key ` set q)"
    and ins_new: "sorted_wrt (<) (map key q) \<Longrightarrow> \<forall>b \<in> set q. near a b \<Longrightarrow>
      key a \<notin> key ` set q \<Longrightarrow> set (ins a q) = insert a (set q)"
begin

definition fill :: "'a list \<Rightarrow> 'a list" where "fill ps = fold ins ps []"

lemma fill_snoc: "fill (ps @ [p]) = ins p (fill ps)"
  by (simp add: fill_def)

lemma fill_spec:
  "distinct (map key ps) \<Longrightarrow> \<forall>a \<in> set ps. \<forall>b \<in> set ps. near a b \<Longrightarrow>
     sorted_wrt (<) (map key (fill ps)) \<and> set (fill ps) = set ps"
proof (induction ps rule: rev_induct)
  case (snoc p ps)
  then have ih: "sorted_wrt (<) (map key (fill ps))" "set (fill ps) = set ps" by simp_all
  have "\<forall>b \<in> set (fill ps). near p b" "key p \<notin> key ` set (fill ps)"
    using snoc.prems ih(2) by auto
  then show ?case using ins_sorted [OF ih(1)] ins_new [OF ih(1)] ih(2) by (simp add: fill_snoc)
qed (simp add: fill_def)

lemma fill_sort_key:
  assumes "distinct (map key ps)" "\<forall>a \<in> set ps. \<forall>b \<in> set ps. near a b"
  shows "fill ps = sort_key key ps"
proof -
  note s = fill_spec [OF assms]
  have "sorted (map key (fill ps))" "distinct (map key (fill ps))"
    using s by (simp_all add: strict_sorted_iff)
  moreover have "inj_on key (set (fill ps) \<union> set (sort_key key ps))"
    using s assms(1) by (simp add: distinct_map)
  moreover have "distinct (fill ps)"
    using \<open>distinct (map key (fill ps))\<close> by (simp add: distinct_map)
  moreover have "distinct (sort_key key ps)" using assms(1) by (simp add: distinct_map)
  ultimately show ?thesis
    using s by (intro map_sorted_distinct_set_unique) (simp_all add: distinct_map)
qed

lemma fill_order_independent:
  assumes "distinct (map key ps)" "\<forall>a \<in> set ps. \<forall>b \<in> set ps. near a b" "mset ps = mset ps'"
  shows "fill ps = fill ps'"
proof -
  have d: "distinct (map key ps')"
    using assms(1,3) by (metis mset_eq_imp_distinct_iff mset_map)
  have s: "set ps' = set ps" using assms(3) by (metis mset_eq_setD)
  have "\<forall>a \<in> set ps'. \<forall>b \<in> set ps'. near a b" using assms(2) s by simp
  then have "fill ps' = sort_key key ps'" by (rule fill_sort_key [OF d])
  moreover have "sort_key key ps = sort_key key ps'"
    using assms(1,3) d s
    by (intro map_sorted_distinct_set_unique [where f = key]) (simp_all add: distinct_map)
  ultimately show ?thesis using fill_sort_key [OF assms(1,2)] by simp
qed

end

text \<open>Two segments whose numbers are not exactly \<open>0x7FFFFFFF\<close> apart as signed numbers.\<close>

definition near_seq :: "segment \<Rightarrow> segment \<Rightarrow> bool" where
  "near_seq a b \<longleftrightarrow> \<bar>sint (seg_seq a) - sint (seg_seq b)\<bar> \<noteq> 0x7FFFFFFF"

abbreviation seq_key :: "segment \<Rightarrow> int" where "seq_key s \<equiv> sint (seg_seq s)"

lemma near_compare:
  assumes "near_seq n s"
  shows "compare_u32 (seg_seq s) (seg_seq n) < 0 \<longleftrightarrow> seq_key s < seq_key n"
    and "compare_u32 (seg_seq s) (seg_seq n) > 0 \<longleftrightarrow> seq_key n < seq_key s"
  using assms unfolding near_seq_def compare_u32_neg_iff compare_u32_pos_iff by auto

lemma queue_insert_keys:
  "\<forall>b \<in> set q. near_seq n b \<Longrightarrow> seq_key ` set (queue_insert n q) = insert (seq_key n) (seq_key ` set q)"
proof (induction q)
  case (Cons s q)
  then show ?case using near_compare [of n s] by (cases "seq_key s = seq_key n") auto
qed simp

lemma queue_insert_sorted:
  "sorted_wrt (<) (map seq_key q) \<Longrightarrow> \<forall>b \<in> set q. near_seq n b \<Longrightarrow>
     sorted_wrt (<) (map seq_key (queue_insert n q))"
proof (induction q)
  case (Cons s q)
  then have ih: "sorted_wrt (<) (map seq_key (queue_insert n q))"
    and k: "seq_key ` set (queue_insert n q) = insert (seq_key n) (seq_key ` set q)"
    by (simp_all add: queue_insert_keys)
  have s: "\<forall>x \<in> seq_key ` set q. seq_key s < x" using Cons.prems(1) by simp
  have "\<forall>x \<in> seq_key ` set (queue_insert n q). seq_key s < x" if "seq_key s < seq_key n"
    unfolding k using s that by simp
  then show ?case
    using Cons.prems near_compare [of n s] ih
    by (cases "seq_key s < seq_key n"; cases "seq_key n < seq_key s") auto
qed simp

lemma queue_insert_new:
  "sorted_wrt (<) (map seq_key q) \<Longrightarrow> \<forall>b \<in> set q. near_seq n b \<Longrightarrow> seq_key n \<notin> seq_key ` set q \<Longrightarrow>
     set (queue_insert n q) = insert n (set q)"
proof (induction q)
  case (Cons s q)
  then have "seq_key s < seq_key n \<or> seq_key n < seq_key s" by auto
  with Cons show ?case using near_compare [of n s] by auto
qed simp

interpretation fwd: ordered_queue seq_key near_seq queue_insert
  by unfold_locales (rule queue_insert_sorted queue_insert_keys queue_insert_new; assumption)+

section \<open>Properties of the queue\<close>

definition queue_all :: "tcp_session \<Rightarrow> (tcphdr \<times> bytes) list \<Rightarrow> tcp_session" where
  "queue_all cur ps = fold (\<lambda>(h, d) c. queue_tcp h c d) ps cur"

definition pkt_segment :: "tcphdr \<times> bytes \<Rightarrow> segment" where
  "pkt_segment p = new_segment (ntohl (th_seq (fst p))) (th_psh (fst p)) (snd p)"

lemma pkt_segment_seq [simp]: "seg_seq (pkt_segment p) = ntohl (th_seq (fst p))"
  by (simp add: pkt_segment_def new_segment_def)

lemma pkt_segment_pair: "pkt_segment (h, d) = new_segment (ntohl (th_seq h)) (th_psh h) d"
  by (simp add: pkt_segment_def)

definition not_before :: "tcp_session \<Rightarrow> tcphdr \<times> bytes \<Rightarrow> bool" where
  "not_before cur p \<longleftrightarrow> \<not> compare_u32 (ntohl (th_seq (fst p))) (t_remote_seq cur) < 0"

lemma queue_all_forward:
  "\<forall>p \<in> set ps. not_before cur p \<Longrightarrow>
     queue_all cur ps = cur\<lparr>t_forward := fold queue_insert (map pkt_segment ps) (t_forward cur)\<rparr>"
proof (induction ps rule: rev_induct)
  case (snoc p ps)
  obtain h d where p: "p = (h, d)" by (cases p)
  from snoc have "queue_all cur ps
      = cur\<lparr>t_forward := fold queue_insert (map pkt_segment ps) (t_forward cur)\<rparr>" by simp
  then have "queue_all cur (ps @ [p])
      = queue_tcp h (cur\<lparr>t_forward := fold queue_insert (map pkt_segment ps) (t_forward cur)\<rparr>) d"
    by (simp add: queue_all_def p)
  with snoc.prems show ?case
    by (simp add: p queue_tcp_def not_before_def pkt_segment_pair Let_def)
qed (simp add: queue_all_def)

lemma queue_insert_same:
  assumes "sorted_wrt (<) (map seq_key q)" "\<forall>b \<in> set q. near_seq n b" "s \<in> set q"
    and "seg_seq s = seg_seq n"
  shows "queue_insert n q =
    map (\<lambda>t. if t = s \<and> seg_len s < seg_len n then s\<lparr>seg_data := seg_data n\<rparr> else t) q"
  using assms
proof (induction q)
  case (Cons t q)
  show ?case
  proof (cases "s = t")
    case True
    with Cons.prems have "s \<notin> set q" by auto
    then have "map (\<lambda>t. if t = s \<and> seg_len s < seg_len n then s\<lparr>seg_data := seg_data n\<rparr> else t) q = q"
      by (intro map_idI) auto
    with True Cons.prems show ?thesis using near_compare [of n t] by auto
  next
    case False
    with Cons.prems have "s \<in> set q" "seq_key t < seq_key n" by auto
    with False Cons show ?thesis using near_compare [of n t] by simp
  qed
qed simp

text \<open>
  C11. The order in which segments arrive does not matter: queuing packets with different sequence
  numbers, none of them already forwarded and no two \<open>0x7FFFFFFF\<close> apart, gives the same
  session for every order of arrival, with the segments of all of them sorted by number.
\<close>

theorem queue_order_independent:
  assumes "distinct (map (\<lambda>p. th_seq (fst p)) ps)" and "\<forall>p \<in> set ps. not_before cur p"
    and "\<forall>a \<in> set ps. \<forall>b \<in> set ps. near_seq (pkt_segment a) (pkt_segment b)"
    and "mset ps = mset ps'" and "t_forward cur = []"
  shows "queue_all cur ps = queue_all cur ps'
    \<and> t_forward (queue_all cur ps) = sort_key seq_key (map pkt_segment ps)"
proof -
  have s: "set ps' = set ps" using assms(4) by (metis mset_eq_setD)
  have sint_inj: "sint x = sint y \<longleftrightarrow> x = y" for x y :: u32 by (auto intro: signed_word_eqI)
  have inj: "ntohl x = ntohl y \<longleftrightarrow> x = y" for x y by (metis ntohl_ntohl)
  have "distinct (map (\<lambda>p. sint (ntohl (th_seq (fst p)))) ps)"
    using assms(1) by (simp add: distinct_map inj_on_def inj sint_inj)
  then have d: "distinct (map seq_key (map pkt_segment ps))" by (simp add: comp_def)
  have n: "\<forall>a \<in> set (map pkt_segment ps). \<forall>b \<in> set (map pkt_segment ps). near_seq a b"
    using assms(3) by simp
  have "mset (map pkt_segment ps) = mset (map pkt_segment ps')" using assms(4) by simp
  then have "fwd.fill (map pkt_segment ps) = fwd.fill (map pkt_segment ps')"
    by (rule fwd.fill_order_independent [OF d n])
  then show ?thesis
    using fwd.fill_sort_key [OF d n] queue_all_forward [of ps cur] queue_all_forward [of ps' cur]
      assms(2,5) s by (simp add: fwd.fill_def)
qed

text \<open>
  C30. What queuing one packet does to a sorted queue: the queue stays sorted; data already
  forwarded changes nothing; a new number adds exactly the new segment; a retransmission that
  is not longer changes nothing; a longer one replaces the data of the queued segment but not its
  length, so that the additional bytes are never sent from it.
\<close>

theorem queue_tcp_spec:
  assumes "sorted_wrt (<) (map seq_key (t_forward cur))"
    and "\<forall>b \<in> set (t_forward cur). near_seq (pkt_segment (h, d)) b"
  defines "q \<equiv> t_forward cur" and "q' \<equiv> t_forward (queue_tcp h cur d)" and "seq \<equiv> ntohl (th_seq h)"
  shows "queue_tcp h cur d = cur\<lparr>t_forward := q'\<rparr> \<and> sorted_wrt (<) (map seq_key q')
    \<and> (\<not> not_before cur (h, d) \<longrightarrow> q' = q)
    \<and> (not_before cur (h, d) \<and> seq \<notin> seg_seq ` set q \<longrightarrow> set q' = insert (pkt_segment (h, d)) (set q))
    \<and> (\<forall>s \<in> set q. seg_seq s = seq \<and> not_before cur (h, d) \<longrightarrow>
         q' = map (\<lambda>t. if t = s \<and> seg_len s < of_nat (length d) then s\<lparr>seg_data := d\<rparr> else t) q)"
proof (cases "not_before cur (h, d)")
  case False
  then show ?thesis
    using assms(1) by (simp add: q_def q'_def queue_tcp_def not_before_def Let_def)
next
  case True
  let ?n = "pkt_segment (h, d)"
  have q': "q' = queue_insert ?n q" "queue_tcp h cur d = cur\<lparr>t_forward := q'\<rparr>"
    using True by (simp_all add: q_def q'_def queue_tcp_def not_before_def pkt_segment_def Let_def)
  have n: "seg_len ?n = of_nat (length d)" "seg_data ?n = d" "seg_seq ?n = seq"
    by (simp_all add: pkt_segment_def new_segment_def seq_def)
  have s: "sorted_wrt (<) (map seq_key q)" and ne: "\<forall>b \<in> set q. near_seq ?n b"
    using assms(1,2) by (simp_all add: q_def)
  have "set q' = insert ?n (set q)" if "seq \<notin> seg_seq ` set q"
    unfolding q'(1) using that n(3) by (intro fwd.ins_new s ne) (auto dest!: signed_word_eqI)
  moreover have "sorted_wrt (<) (map seq_key q')"
    unfolding q'(1) by (rule fwd.ins_sorted [OF s ne])
  moreover have "\<forall>t \<in> set q. seg_seq t = seq \<longrightarrow>
      q' = map (\<lambda>u. if u = t \<and> seg_len t < of_nat (length d) then t\<lparr>seg_data := d\<rparr> else u) q"
    using queue_insert_same [OF s ne] n by (simp add: q'(1))
  ultimately show ?thesis using True q'(2) by simp
qed

text \<open>
  C31. The window that the relay announces fits in the 16 bits of the header after scaling, is
  never a window that scales to zero, and leaves room: what is announced and what waits in the
  queue together do not exceed the free space of the socket's send buffer.
\<close>

theorem receive_window_fits:
  assumes "get_receive_window E s w = Some (win, w')"
  defines "k \<equiv> unat (t_recv_scale (ng_k s))"
  shows "unat (drop_bit k win) \<le> 65535 \<and> (win \<noteq> 0 \<longrightarrow> drop_bit k win \<noteq> 0)
    \<and> (win \<noteq> 0 \<longrightarrow> unat win + unat (to_forward (t_forward (ng_k s)))
          \<le> unat (of_int (fst (get_receive_buffer E s w)) :: u32))"
proof -
  let ?f = "to_forward (t_forward (ng_k s))"
  let ?b = "of_int (fst (get_receive_buffer E s w)) :: u32"
  let ?m = "push_bit k 0xFFFF :: u32"
  define b where "b = (if ?b > ?m then ?m else ?b)"
  define r where "r = (if ?f < b then b - ?f else 0)"
  have win: "win = (if drop_bit k r = 0 then 0 else r)" and k: "k < 32"
    using assms(1) unfolding get_receive_window_def b_def r_def k_def
    by (simp_all add: Let_def shl32_def shr32_def case_prod_beta split: if_splits cong: if_cong)
  have "unat ?m \<le> 65535 * 2 ^ k"
    using take_bit_nat_less_eq_self [of 32 "push_bit k 65535"]
    by (simp add: unsigned_push_bit_eq push_bit_nat_def)
  moreover have bm: "b \<le> ?m" "b \<le> ?b" by (auto simp: b_def)
  moreover have rb: "r \<le> b" by (auto simp: r_def word_sub_le)
  ultimately have "unat r \<le> 65535 * 2 ^ k"
    unfolding word_le_nat_alt by linarith
  then have "unat r div 2 ^ k \<le> 65535 * 2 ^ k div 2 ^ k" by (rule div_le_mono)
  then have "unat (drop_bit k r) \<le> 65535" by (simp add: unat_drop_bit_div)
  moreover have "unat r + unat ?f \<le> unat ?b" if "r \<noteq> 0"
  proof -
    have "?f < b" "r = b - ?f" using that by (auto simp: r_def split: if_splits)
    then have "unat r + unat ?f = unat b" by (simp add: unat_sub word_less_nat_alt order_less_imp_le word_le_nat_alt)
    then show ?thesis using bm(2) by (simp add: word_le_nat_alt)
  qed
  ultimately show ?thesis by (simp add: win)
qed

text \<open>
  The room towards the peer is never more than the peer announced, and as long as the
  acknowledged number does not compare greater than the local one it ends exactly at the peer's
  right edge.
\<close>

theorem send_window_right_edge:
  assumes "compare_u32 (t_acked cur) (t_local_seq cur) \<le> 0"
  shows "get_send_window cur \<le> t_send_window cur
    \<and> (get_send_window cur \<noteq> 0 \<longrightarrow>
         t_local_seq cur + get_send_window cur = t_acked cur + t_send_window cur
         \<and> unat (t_local_seq cur - t_acked cur) + unat (get_send_window cur) = unat (t_send_window cur))"
proof -
  let ?d = "t_local_seq cur - t_acked cur"
  have w: "get_send_window cur = (if ?d < t_send_window cur then t_send_window cur - ?d else 0)"
    using assms by (simp add: get_send_window_def)
  show ?thesis
  proof (cases "?d < t_send_window cur")
    case True
    then have "unat (t_send_window cur - ?d) = unat (t_send_window cur) - unat ?d"
      by (intro unat_sub) simp
    moreover have "unat ?d < unat (t_send_window cur)" using True by (simp add: word_less_nat_alt)
    ultimately show ?thesis using True by (simp add: w word_le_nat_alt)
  qed (simp add: w)
qed

text \<open>
  Across the sign boundary the room is lost: once the local number has reached the upper half
  of the number space while the acknowledged one has not, the relay sees no room unless the peer
  announced more than the acknowledged number itself.
\<close>

theorem send_window_lost_at_boundary:
  assumes "unat (t_acked cur) < 2 ^ 31" and "2 ^ 31 \<le> unat (t_local_seq cur)"
    and "t_send_window cur \<le> t_acked cur"
  shows "get_send_window cur = 0"
proof -
  have "compare_u32 (t_acked cur) (t_local_seq cur) > 0"
    using compare_u32_halves [OF assms(1,2)] by simp
  then show ?thesis using assms(3) by (auto simp add: get_send_window_def Let_def dest: leD)
qed

section \<open>Instances\<close>

definition sample_hdr :: "u32 \<Rightarrow> tcphdr" where
  "sample_hdr seq = \<lparr>th_source = htons 1024, th_dest = htons 443, th_seq = htonl seq, th_ack_seq = htonl 77,
     th_doff = 5, th_fin = False, th_syn = False, th_rst = False, th_psh = True, th_ack = True,
     th_urg = False, th_window = htons 512\<rparr>"

lemma sample_hdr_simps [simp]: "th_seq (sample_hdr n) = htonl n" "th_psh (sample_hdr n)"
  by (simp_all add: sample_hdr_def)

definition sample_ng :: "tcp_session ng_session" where
  "sample_ng = \<lparr>ng_k = sample_tcp, ng_socket = 9, ng_ev = 12, ng_ptr = 1\<rparr>"

lemma ntohl_inj: "ntohl x = ntohl y \<longleftrightarrow> x = y"
  by (metis ntohl_ntohl)

theorem queue_order_independent_witness:
  "queue_all sample_tcp [(sample_hdr 1002, [3]), (sample_hdr 1000, [1, 2])]
     = queue_all sample_tcp [(sample_hdr 1000, [1, 2]), (sample_hdr 1002, [3])]
   \<and> t_forward (queue_all sample_tcp [(sample_hdr 1002, [3]), (sample_hdr 1000, [1, 2])])
     = sort_key seq_key (map pkt_segment [(sample_hdr 1002, [3]), (sample_hdr 1000, [1, 2])])"
  by (rule queue_order_independent)
    (simp_all add: sample_tcp_def ntohl_inj not_before_def near_seq_def compare_u32_neg_iff)

definition sample_queued :: tcp_session where
  "sample_queued = sample_tcp\<lparr>t_forward := [new_segment 1000 True [1, 2]]\<rparr>"

theorem queue_tcp_spec_witness:
  "t_forward (queue_tcp (sample_hdr 1000) sample_queued [1, 2, 3])
     = [(new_segment 1000 True [1, 2])\<lparr>seg_data := [1, 2, 3]\<rparr>]"
proof -
  let ?g = "new_segment 1000 True [1, 2]"
  have q: "t_forward sample_queued = [?g]" "t_remote_seq sample_queued = 1000"
    by (simp_all add: sample_queued_def sample_tcp_def)
  have g: "seg_seq ?g = 1000" "seg_len ?g = 2" by (simp_all add: new_segment_def)
  have n: "not_before sample_queued (sample_hdr 1000, [1, 2, 3])"
    by (simp add: not_before_def q compare_u32_neg_iff)
  have "\<forall>s \<in> set (t_forward sample_queued). seg_seq s = ntohl (th_seq (sample_hdr 1000))
      \<and> not_before sample_queued (sample_hdr 1000, [1, 2, 3]) \<longrightarrow>
      t_forward (queue_tcp (sample_hdr 1000) sample_queued [1, 2, 3])
        = map (\<lambda>t. if t = s \<and> seg_len s < of_nat (length [1, 2, 3 :: u8]) then s\<lparr>seg_data := [1, 2, 3]\<rparr> else t)
            (t_forward sample_queued)"
    using queue_tcp_spec [of sample_queued "sample_hdr 1000" "[1, 2, 3]"] q(1) g(1)
    by (simp only: near_seq_def pkt_segment_seq) simp
  then show ?thesis using n by (simp add: q g)
qed

theorem receive_window_fits_witness:
  "\<exists>win w'. get_receive_window calm sample_ng start = Some (win, w') \<and> unat (drop_bit 7 win) \<le> 65535"
proof -
  obtain win w' where r: "get_receive_window calm sample_ng start = Some (win, w')"
    by (cases "get_receive_window calm sample_ng start")
      (auto simp: get_receive_window_def shl32_def shr32_def Let_def sample_ng_def sample_tcp_def
        split: prod.splits)
  then show ?thesis
    using receive_window_fits [OF r] by (auto simp: sample_ng_def sample_tcp_def)
qed

definition sample_acked :: tcp_session where "sample_acked = sample_tcp\<lparr>t_acked := 70\<rparr>"

theorem send_window_right_edge_witness:
  "t_local_seq sample_acked + get_send_window sample_acked = 70 + 65536
   \<and> get_send_window sample_acked = 65529"
proof -
  have f: "t_acked sample_acked = 70" "t_local_seq sample_acked = 77" "t_send_window sample_acked = 65536"
    by (simp_all add: sample_acked_def sample_tcp_def)
  have "\<not> compare_u32 70 77 > 0" by (simp only: compare_u32_pos_iff) simp
  then have c: "compare_u32 (t_acked sample_acked) (t_local_seq sample_acked) \<le> 0" by (simp add: f)
  then have "get_send_window sample_acked = 65529"
    by (simp add: get_send_window_def f)
  then show ?thesis using send_window_right_edge [OF c] by (simp add: f)
qed

theorem send_window_lost_at_boundary_witness:
  "get_send_window (sample_tcp\<lparr>t_acked := 0x7FFFFFFF, t_local_seq := 0x80000000\<rparr>) = 0"
  by (rule send_window_lost_at_boundary) (simp_all add: sample_tcp_def)

end
