(* ===== verification/SessionCheck.thy ===== *)
theory SessionCheck
  imports Sessions "HOL-Library.Multiset"
begin

text \<open>
  Sessions and descriptors. First the invariants of the three kinds of session and the account of a
  list of sessions: every descriptor a session holds was opened and is not closed, no two sessions
  share one, and \<open>epoll\<close> knows only descriptors that sessions of the list hold, with their addresses.
  Then the two interfaces between the event loop and the protocols: a session check, which may close
  the socket of its session and asks for the removal of closed sessions only, and a packet handler,
  which adds at most one session or changes one. Both keep the account. The interfaces are interpreted
  in the theories of the three protocols and, for the loop, on the checks of sessions of any kind.
\<close>

section \<open>Invariants of sessions\<close>

text \<open>
  Once the peer's end of the socket was seen, or a TCP session is closed, its socket is closed; a UDP
  session holds a socket exactly while it is active or finishing; an ICMP session always does.
\<close>

definition tcp_inv :: "tcp_session ng_session \<Rightarrow> bool" where
  "tcp_inv s \<longleftrightarrow>
     (t_state (ng_k s) \<in> {TCP_FIN_WAIT1, TCP_LAST_ACK, TCP_CLOSE} \<longrightarrow> ng_socket s < 0)"

definition udp_inv :: "udp_session ng_session \<Rightarrow> bool" where
  "udp_inv s \<longleftrightarrow> (0 \<le> ng_socket s \<longleftrightarrow> u_state (ng_k s) \<in> {UDP_ACTIVE, UDP_FINISHING})"

definition icmp_inv :: "icmp_session ng_session \<Rightarrow> bool" where
  "icmp_inv s \<longleftrightarrow> 0 \<le> ng_socket s"

fun sess_inv :: "session \<Rightarrow> bool" where
  "sess_inv (ICMP s) = icmp_inv s"
| "sess_inv (UDP s) = udp_inv s"
| "sess_inv (TCP s) = tcp_inv s"

section \<open>The account of a list of sessions\<close>

text \<open>The descriptors that a list of sessions holds.\<close>

definition held :: "('s \<Rightarrow> int) \<Rightarrow> 's list \<Rightarrow> int list" where
  "held sock ss = filter (\<lambda>fd. 0 \<le> fd) (map sock ss)"

definition accounted :: "('s \<Rightarrow> int) \<Rightarrow> ('s \<Rightarrow> nat) \<Rightarrow> 's list \<Rightarrow> effect list \<Rightarrow> bool" where
  "accounted sock ptr ss tr \<longleftrightarrow>
     mset (held sock ss) + mset (closed tr) \<subseteq># mset (opened tr)
     \<and> registered tr \<subseteq> (\<lambda>s. (sock s, ptr s)) ` {s \<in> set ss. 0 \<le> sock s}"

text \<open>A session keeps its socket, or its open socket is closed.\<close>

definition sock_change :: "('s \<Rightarrow> int) \<Rightarrow> ('s \<Rightarrow> nat) \<Rightarrow> 's \<Rightarrow> world \<Rightarrow> 's \<Rightarrow> world \<Rightarrow> bool" where
  "sock_change sock ptr s w s' w' \<longleftrightarrow> ptr s' = ptr s
     \<and> (sock s' = sock s \<and> ledger (w_trace w') = ledger (w_trace w)
        \<or> 0 \<le> sock s \<and> sock s' = - 1
          \<and> ledger (w_trace w') = ledger (w_trace w) @ [SockClose (sock s)])"

lemma held_simps [simp]:
  "held sock [] = []" "held sock (a @ b) = held sock a @ held sock b"
  "held sock (s # a) = (if 0 \<le> sock s then sock s # held sock a else held sock a)"
  by (simp_all add: held_def)

lemma accounted_Nil: "accounted sock ptr [] []"
  by (simp add: accounted_def registered_def)

lemma accounted_same:
  assumes "accounted sock ptr ss tr" "ledger tr' = ledger tr"
  shows "accounted sock ptr ss tr'"
  using assms(1) by (simp add: accounted_def ledger_same [OF assms(2)])

lemma accounted_spilled:
  assumes "accounted sock ptr ss (w_trace w)" "spilled w w'"
  shows "accounted sock ptr ss (w_trace w')"
  using assms(2) unfolding spilled_def
proof (elim disjE exE)
  fix fd v
  assume l: "ledger (w_trace w') = ledger (w_trace w) @ [SockOpen fd v]"
  have "mset (held sock ss) + mset (closed (w_trace w)) \<subseteq># mset (opened (w_trace w))"
    using assms(1) by (simp add: accounted_def)
  then have "mset (held sock ss) + mset (closed (w_trace w)) \<subseteq># mset (opened (w_trace w) @ [fd])"
    by (rule subset_mset.order_trans) simp
  then show ?thesis
    using assms(1) ledger_appended [OF l] by (simp add: accounted_def register1_def)
qed (rule accounted_same [OF assms(1)])

lemma accounted_new:
  assumes "accounted sock ptr ss (w_trace w)" "enrolled (sock s) (ptr s) w w'"
  shows "accounted sock ptr (s # ss) (w_trace w')"
proof -
  from assms(2) obtain v ev where s: "0 \<le> sock s" and
    e: "ledger (w_trace w') = ledger (w_trace w) @ [SockOpen (sock s) v, EpollAdd (sock s) ev (ptr s)]"
    by (auto simp: enrolled_def)
  note l = ledger_appended [OF e]
  have "registered (w_trace w') \<subseteq> (\<lambda>s. (sock s, ptr s)) ` {x \<in> set (s # ss). 0 \<le> sock x}"
    using assms(1) s l(3) by (auto simp: accounted_def register1_def)
  then show ?thesis using assms(1) s l(1,2) by (simp add: accounted_def)
qed

lemma accounted_change:
  assumes "accounted sock ptr (a @ s # b) (w_trace w)" "sock_change sock ptr s w s' w'"
  shows "accounted sock ptr (a @ s' # b) (w_trace w')"
proof -
  let ?R = "\<lambda>ss. (\<lambda>s. (sock s, ptr s)) ` {s \<in> set ss. 0 \<le> sock s}"
  have r: "registered (w_trace w) \<subseteq> ?R (a @ s # b)" using assms(1) by (simp add: accounted_def)
  from assms(2) consider
      (same) "ptr s' = ptr s" "sock s' = sock s" "ledger (w_trace w') = ledger (w_trace w)"
    | (close) "0 \<le> sock s" "sock s' = - 1" "ledger (w_trace w') = ledger (w_trace w) @ [SockClose (sock s)]"
    by (auto simp: sock_change_def)
  then show ?thesis
  proof cases
    case same
    have "?R (a @ s # b) \<subseteq> ?R (a @ s' # b)" using same(1,2) by (force simp: image_iff)
    then have "registered (w_trace w') \<subseteq> ?R (a @ s' # b)" using r ledger_same [OF same(3)] by simp
    moreover have "held sock (a @ s' # b) = held sock (a @ s # b)" using same(2) by simp
    ultimately show ?thesis using assms(1) ledger_same [OF same(3)] unfolding accounted_def by metis
  next
    case close
    note l = ledger_appended [OF close(3)]
    have "registered (w_trace w') \<subseteq> ?R (a @ s' # b)" using r l(3) by (auto simp: register1_def)
    then show ?thesis using assms(1) l(1,2) close(1,2) by (simp add: accounted_def ac_simps)
  qed
qed

lemma sock_change_traces:
  assumes "sock_change sock ptr s w s' w'"
  shows "opened (w_trace w') = opened (w_trace w)
    \<and> (sock s' = sock s \<and> closed (w_trace w') = closed (w_trace w)
       \<or> 0 \<le> sock s \<and> sock s' = - 1 \<and> closed (w_trace w') = closed (w_trace w) @ [sock s])"
  using assms unfolding sock_change_def
  by (auto dest: ledger_same ledger_appended)

lemma sock_change_quiet: "quiet w w' \<Longrightarrow> sock s' = sock s \<Longrightarrow> ptr s' = ptr s \<Longrightarrow> sock_change sock ptr s w s' w'"
  using quiet_ledger by (simp add: sock_change_def)

lemma accounted_drop: "accounted sock ptr (a @ s # b) tr \<Longrightarrow> sock s < 0 \<Longrightarrow> accounted sock ptr (a @ b) tr"
  unfolding accounted_def by auto

section \<open>The interface of a session check\<close>

text \<open>The loop: check every session of the list and keep those not to be removed.\<close>

fun sweep ::
  "('s \<Rightarrow> world \<Rightarrow> (bool \<times> 's \<times> world) option) \<Rightarrow> 's list \<Rightarrow> world \<Rightarrow> ('s list \<times> world) option" where
  "sweep chk [] w = Some ([], w)"
| "sweep chk (s # ss) w =
     do { (del, s', w) \<leftarrow> chk s w;
          (ss', w) \<leftarrow> sweep chk ss w;
          Some (if del then ss' else s' # ss', w) }"

locale session_check =
  fixes chk :: "env \<Rightarrow> int \<Rightarrow> int \<Rightarrow> 's \<Rightarrow> world \<Rightarrow> (bool \<times> 's \<times> world) option"
    and sock :: "'s \<Rightarrow> int" and ptr :: "'s \<Rightarrow> nat" and inv :: "'s \<Rightarrow> bool"
  assumes chk_inv: "inv s \<Longrightarrow> chk E n m s w = Some (del, s', w') \<Longrightarrow> \<not> del \<Longrightarrow> inv s'"
    and chk_removed: "inv s \<Longrightarrow> chk E n m s w = Some (del, s', w') \<Longrightarrow> del \<Longrightarrow> sock s' < 0"
    and chk_socket: "inv s \<Longrightarrow> chk E n m s w = Some (del, s', w') \<Longrightarrow> sock_change sock ptr s w s' w'"
begin

text \<open>The sweep loses no descriptor: what it no longer holds it has closed.\<close>

lemma sweep_spec:
  "\<forall>s \<in> set ss. inv s \<Longrightarrow> sweep (chk E n m) ss w = Some (ss', w') \<Longrightarrow>
     (\<forall>s \<in> set ss'. inv s)
     \<and> (\<exists>cl. ledger (w_trace w') = ledger (w_trace w) @ map SockClose cl
          \<and> mset (held sock ss) = mset (held sock ss') + mset cl)
     \<and> (accounted sock ptr (before @ ss) (w_trace w) \<longrightarrow> accounted sock ptr (before @ ss') (w_trace w'))"
proof (induction ss arbitrary: w ss' before)
  case Nil
  then show ?case by auto
next
  case (Cons s ss)
  from Cons.prems(2) obtain del s1 w1 ss1 where
    c: "chk E n m s w = Some (del, s1, w1)" and r: "sweep (chk E n m) ss w1 = Some (ss1, w')"
    and ss': "ss' = (if del then ss1 else s1 # ss1)"
    by (auto simp: bind_eq_Some_conv)
  from Cons.prems(1) have i: "inv s" by simp
  have ih: "\<forall>s \<in> set ss1. inv s"
    "\<exists>cl. ledger (w_trace w') = ledger (w_trace w1) @ map SockClose cl
       \<and> mset (held sock ss) = mset (held sock ss1) + mset cl"
    "\<And>b. accounted sock ptr (b @ ss) (w_trace w1) \<Longrightarrow> accounted sock ptr (b @ ss1) (w_trace w')"
    using Cons.IH [OF _ r] Cons.prems(1) by auto
  from ih(2) obtain cl where cl: "ledger (w_trace w') = ledger (w_trace w1) @ map SockClose cl"
    "mset (held sock ss) = mset (held sock ss1) + mset cl" by blast
  have ch: "sock_change sock ptr s w s1 w1" by (rule chk_socket [OF i c])
  have del: "del \<Longrightarrow> sock s1 < 0" by (rule chk_removed [OF i c])
  have "\<forall>s \<in> set ss'. inv s" using ih(1) chk_inv [OF i c] by (simp add: ss')
  moreover have "\<exists>cl. ledger (w_trace w') = ledger (w_trace w) @ map SockClose cl
      \<and> mset (held sock (s # ss)) = mset (held sock ss') + mset cl"
    using ch unfolding sock_change_def
  proof (elim conjE disjE)
    assume "sock s1 = sock s" "ledger (w_trace w1) = ledger (w_trace w)"
    then show ?thesis using cl del by (intro exI [of _ cl]) (auto simp: ss')
  next
    assume "0 \<le> sock s" "sock s1 = - 1" "ledger (w_trace w1) = ledger (w_trace w) @ [SockClose (sock s)]"
    then show ?thesis using cl by (intro exI [of _ "sock s # cl"]) (auto simp: ss')
  qed
  moreover have "accounted sock ptr (before @ ss') (w_trace w')" if "accounted sock ptr (before @ s # ss) (w_trace w)"
  proof -
    have a: "accounted sock ptr (before @ s1 # ss) (w_trace w1)" by (rule accounted_change [OF that ch])
    show ?thesis
    proof (cases del)
      case True
      then show ?thesis using ih(3) [OF accounted_drop [OF a]] del ss' by simp
    next
      case False
      then show ?thesis using ih(3) [of "before @ [s1]"] a ss' by simp
    qed
  qed
  ultimately show ?case by blast
qed

end

section \<open>The interface of a packet handler\<close>

abbreviation "accounts \<equiv> accounted sess_socket sess_ptr"

text \<open>
  What the handling of one packet may do to the sessions: nothing, lose a descriptor that could not be
  set up, put a session with a new, registered socket in front, or change one session.
\<close>

inductive move :: "session list \<Rightarrow> world \<Rightarrow> session list \<Rightarrow> world \<Rightarrow> bool" where
  spilled: "spilled w w' \<Longrightarrow> move ss w ss w'"
| added: "sess_inv s \<Longrightarrow> enrolled (sess_socket s) (sess_ptr s) w w' \<Longrightarrow> move ss w (s # ss) w'"
| changed: "sock_change sess_socket sess_ptr s w s' w' \<Longrightarrow> sess_inv s' \<Longrightarrow>
    move (a @ s # b) w (a @ s' # b) w'"

lemma move_accounts:
  "move ss w ss' w' \<Longrightarrow> accounts ss (w_trace w) \<Longrightarrow> accounts ss' (w_trace w')"
  by (induction rule: move.induct) (auto intro: accounted_spilled accounted_new accounted_change)

lemma move_inv: "move ss w ss' w' \<Longrightarrow> \<forall>s \<in> set ss. sess_inv s \<Longrightarrow> \<forall>s \<in> set ss'. sess_inv s"
  by (induction rule: move.induct) auto

lemma move_length: "move ss w ss' w' \<Longrightarrow> length ss \<le> length ss' \<and> length ss' \<le> length ss + 1"
  by (induction rule: move.induct) auto

lemma move_ptrs: "move ss w ss' w' \<Longrightarrow> sess_ptr ` set ss \<subseteq> sess_ptr ` set ss'"
  by (induction rule: move.induct) (auto simp: sock_change_def)

locale packet_handler =
  fixes h :: "env \<Rightarrow> bytes \<Rightarrow> nat \<Rightarrow> nat \<Rightarrow> int \<Rightarrow> session list \<Rightarrow> world \<Rightarrow> (session list \<times> world) option"
  assumes h_move: "\<forall>s \<in> set ss. sess_inv s \<Longrightarrow> h E m n p uid ss w = Some (ss', w') \<Longrightarrow> move ss w ss' w'"
begin

lemma h_keeps:
  assumes "\<forall>s \<in> set ss. sess_inv s" "accounts ss (w_trace w)" "h E m n p uid ss w = Some (ss', w')"
  shows "(\<forall>s \<in> set ss'. sess_inv s) \<and> accounts ss' (w_trace w')
    \<and> sess_ptr ` set ss \<subseteq> sess_ptr ` set ss' \<and> length ss' \<le> length ss + 1"
proof -
  have m: "move ss w ss' w'" by (rule h_move [OF assms(1,3)])
  show ?thesis
    using move_inv [OF m assms(1)] move_accounts [OF m assms(2)] move_length [OF m] move_ptrs [OF m] by simp
qed

end

section \<open>The interface of a socket handler\<close>

text \<open>
  What an event of a session's socket may do: change the session, whose invariant is kept. \<open>C\<close> makes a
  session of it.
\<close>

locale socket_handler =
  fixes h :: "env \<Rightarrow> u32 \<Rightarrow> 'k ng_session \<Rightarrow> world \<Rightarrow> ('k ng_session \<times> world) option"
    and C :: "'k ng_session \<Rightarrow> session" and live :: "'k ng_session \<Rightarrow> bool"
  assumes h_change: "live s \<Longrightarrow> sess_inv (C s) \<Longrightarrow> h E ev s w = Some (s', w') \<Longrightarrow>
      sock_change sess_socket sess_ptr (C s) w (C s') w' \<and> sess_inv (C s')"
begin

lemma h_move:
  assumes "live s" "sess_inv (C s)" "h E ev s w = Some (s', w')"
  shows "move (a @ C s # b) w (a @ C s' # b) w'"
  using h_change [OF assms] by (intro move.changed) simp_all

end

end
