(* ===== verification/TcpSession.thy ===== *)
theory TcpSession
  imports TcpQueue SessionCheck
begin

text \<open>
  The periodic work on a TCP session: \<open>check_tcp_session\<close> (timeouts, closing, removal) and
  \<open>monitor_tcp_session\<close> (the events to wait for and the keep alive towards the tunnel).
\<close>

text \<open>The three steps of the check: expire, close, forget the counters.\<close>

definition tcp_expire ::
  "env \<Rightarrow> int \<Rightarrow> int \<Rightarrow> tcp_session \<Rightarrow> world \<Rightarrow> (tcp_session \<times> world) option" where
  "tcp_expire E timeout now t w =
     (if t_state t \<noteq> TCP_CLOSING \<and> t_state t \<noteq> TCP_CLOSE \<and> t_time t + timeout < now then
        (if t_state t = TCP_LISTEN then Some (t\<lparr>t_state := TCP_CLOSING\<rparr>, w)
         else write_rst E t w)
      else Some (t, w))"

definition tcp_finish :: "env \<Rightarrow> tcp_session ng_session \<Rightarrow> world \<Rightarrow> tcp_session ng_session \<times> world" where
  "tcp_finish E s w =
     (if t_state (ng_k s) = TCP_CLOSING then
        let (sock, w) = (if 0 \<le> ng_socket s then (- 1, sys_close (ng_socket s) w)
                         else (ng_socket s, w));
            (now', w) = sys_time E w
        in (s\<lparr>ng_k := (ng_k s)\<lparr>t_time := now', t_state := TCP_CLOSE\<rparr>, ng_socket := sock\<rparr>, w)
      else (s, w))"

definition tcp_uncount :: "tcp_session \<Rightarrow> tcp_session" where
  "tcp_uncount t =
     (if (t_state t = TCP_CLOSING \<or> t_state t = TCP_CLOSE) \<and> (t_sent t \<noteq> 0 \<or> t_received t \<noteq> 0)
      then t\<lparr>t_sent := 0, t_received := 0\<rparr> else t)"

definition check_tcp_session ::
  "env \<Rightarrow> int \<Rightarrow> int \<Rightarrow> tcp_session ng_session \<Rightarrow> world
     \<Rightarrow> (bool \<times> tcp_session ng_session \<times> world) option" where
  "check_tcp_session E sessions maxsessions s w =
     do { let (now, w) = sys_time E w;
          timeout \<leftarrow> get_tcp_timeout (ng_k s) sessions maxsessions;
          (t, w) \<leftarrow> tcp_expire E timeout now (ng_k s) w;
          let (s, w) = tcp_finish E (s\<lparr>ng_k := t\<rparr>) w;
          let s = s\<lparr>ng_k := tcp_uncount (ng_k s)\<rparr>;
          Some (t_state (ng_k s) = TCP_CLOSE \<and> t_time (ng_k s) + TCP_KEEP_TIMEOUT < now, s, w) }"

text \<open>Whether to read from the socket, or else the keep alive that asks for a new window.\<close>

definition tcp_read_events :: "env \<Rightarrow> tcp_session \<Rightarrow> world \<Rightarrow> (bool \<times> u32 \<times> tcp_session \<times> world) option"
where
  "tcp_read_events E t w =
     (if get_send_window t > 0 then Some (False, EPOLLERR OR EPOLLIN, t, w)
      else do { let (ms, w) = get_ms E w;
                if ms - t_last_keep_alive t > EPOLL_MIN_CHECK then
                  do { let t = t\<lparr>t_last_keep_alive := ms, t_remote_seq := t_remote_seq t - 1\<rparr>;
                       (res, t, w) \<leftarrow> write_ack E t w;
                       Some (True, EPOLLERR, t\<lparr>t_remote_seq := t_remote_seq t + 1\<rparr>, w) }
                else Some (True, EPOLLERR, t, w) })"

text \<open>Whether the head of the queue continues the data forwarded and fits in the socket.\<close>

definition head_ready :: "tcp_session \<Rightarrow> u32 \<Rightarrow> bool" where
  "head_ready t room =
     (case t_forward t of [] \<Rightarrow> False
      | q # qs \<Rightarrow> seg_seq q + ucast (seg_sent q) = t_remote_seq t \<and> unsent q < room)"

definition monitor_events ::
  "env \<Rightarrow> tcp_session ng_session \<Rightarrow> world \<Rightarrow> (bool \<times> u32 \<times> tcp_session \<times> world) option" where
  "monitor_events E s w =
     (let t = ng_k s in
      if t_state t = TCP_LISTEN then
        let rport = htons (t_dest t)
        in Some (False, EPOLLERR OR (if t_connect_sent t = TCP_CONNECT_SENT \<and> rport = 443
                                     then EPOLLIN else EPOLLOUT), t, w)
      else if t_state t = TCP_ESTABLISHED \<or> t_state t = TCP_CLOSE_WAIT then
        do { (recheck, events, t, w) \<leftarrow> tcp_read_events E t w;
             if t_forward t \<noteq> [] then
               do { let (buf, w) = get_receive_buffer E s w;
                    if head_ready t (of_int buf) then Some (recheck, events OR EPOLLOUT, t, w)
                    else Some (True, events, t, w) }
             else Some (recheck, events, t, w) }
      else Some (False, EPOLLERR, t, w))"

definition monitor_tcp_session ::
  "env \<Rightarrow> tcp_session ng_session \<Rightarrow> world \<Rightarrow> (bool \<times> tcp_session ng_session \<times> world) option" where
  "monitor_tcp_session E s w =
     do { (recheck, events, t, w) \<leftarrow> monitor_events E s w;
          if events \<noteq> ng_ev s then
            do { let (fail, w) = epoll_mod E (ng_socket s) events w;
                 Some (recheck, s\<lparr>ng_k := (if fail then t\<lparr>t_state := TCP_CLOSING\<rparr> else t),
                                  ng_ev := events\<rparr>, w) }
          else Some (recheck, s\<lparr>ng_k := t\<rparr>, w) }"

section \<open>The check in cases\<close>

definition timed_out :: "env \<Rightarrow> int \<Rightarrow> int \<Rightarrow> tcp_session \<Rightarrow> world \<Rightarrow> bool" where
  "timed_out E n m t w \<longleftrightarrow>
     t_state t \<noteq> TCP_CLOSING \<and> t_state t \<noteq> TCP_CLOSE
     \<and> t_time t + the (get_tcp_timeout t n m) < e_time E (w_tick w)"

lemma tcp_uncount_frame [simp]:
  "t_state (tcp_uncount t) = t_state t" "t_time (tcp_uncount t) = t_time t"
  "t_forward (tcp_uncount t) = t_forward t" "t_recv_scale (tcp_uncount t) = t_recv_scale t"
  by (simp_all add: tcp_uncount_def)

lemma tcp_uncount_open: "t_state t \<noteq> TCP_CLOSING \<Longrightarrow> t_state t \<noteq> TCP_CLOSE \<Longrightarrow> tcp_uncount t = t"
  by (simp add: tcp_uncount_def)

lemma tcp_uncount_zero:
  "t_state t = TCP_CLOSE \<Longrightarrow> t_sent (tcp_uncount t) = 0 \<and> t_received (tcp_uncount t) = 0"
  by (auto simp: tcp_uncount_def)

lemma tcp_finish_other: "t_state (ng_k s) \<noteq> TCP_CLOSING \<Longrightarrow> tcp_finish E s w = (s, w)"
  by (simp add: tcp_finish_def)

lemma tcp_finish_closing:
  assumes "tcp_finish E s w = (s', w')" "t_state (ng_k s) = TCP_CLOSING"
  shows "t_state (ng_k s') = TCP_CLOSE \<and> ng_socket s' = (if 0 \<le> ng_socket s then - 1 else ng_socket s)
    \<and> w_trace w' = w_trace w @ (if 0 \<le> ng_socket s then [SockClose (ng_socket s)] else [])
    \<and> (\<exists>k \<ge> w_tick w. t_time (ng_k s') = e_time E k)"
  using assms
  by (auto simp: tcp_finish_def sys_time_def sys_close_def split: if_splits
      intro: exI [of _ "w_tick w"] exI [of _ "Suc (w_tick w)"])

lemma tcp_expire_other:
  "\<not> (t_state t \<noteq> TCP_CLOSING \<and> t_state t \<noteq> TCP_CLOSE \<and> t_time t + timeout < now) \<Longrightarrow>
     tcp_expire E timeout now t w = Some (t, w)"
  by (auto simp: tcp_expire_def)

lemma tcp_expire_timed_out:
  assumes "tcp_expire E timeout now t w = Some (t', w')"
    and "t_state t \<noteq> TCP_CLOSING" "t_state t \<noteq> TCP_CLOSE" "t_time t + timeout < now"
  shows "t_state t' = TCP_CLOSING \<and> w_tick w \<le> w_tick w' \<and> (\<exists>es. w_trace w' = w_trace w @ es
    \<and> (if t_state t = TCP_LISTEN then es = []
        else \<exists>p. es = [TunWrite p] \<and> tcp_packet t [] False False False True = Some p))"
proof (cases "t_state t = TCP_LISTEN")
  case True
  then show ?thesis using assms by (auto simp: tcp_expire_def)
next
  case False
  with assms have "map_option (\<lambda>(res, w'). (after_rst t, w'))
      (write_tcp E t [] False False False True w) = Some (t', w')"
    by (simp add: tcp_expire_def write_rst_eq listen_bump_def)
  then obtain res where "write_tcp E t [] False False False True w = Some (res, w')" "t' = after_rst t"
    by auto
  then show ?thesis using False assms(3) by (auto dest!: write_tcp_effect simp: frame_simps)
qed

text \<open>The check in terms of its steps.\<close>

lemma check_tcp_session_cases:
  assumes "check_tcp_session E n m s w = Some (del, s', w')"
  obtains timeout t1 w1 s2 where
    "get_tcp_timeout (ng_k s) n m = Some timeout"
    "tcp_expire E timeout (e_time E (w_tick w)) (ng_k s) (tick w) = Some (t1, w1)"
    "tcp_finish E (s\<lparr>ng_k := t1\<rparr>) w1 = (s2, w')"
    "s' = s2\<lparr>ng_k := tcp_uncount (ng_k s2)\<rparr>"
    "del = (t_state (ng_k s2) = TCP_CLOSE \<and> t_time (ng_k s2) + TCP_KEEP_TIMEOUT < e_time E (w_tick w))"
proof -
  from assms obtain timeout t1 w1 where r: "get_tcp_timeout (ng_k s) n m = Some timeout"
    "tcp_expire E timeout (e_time E (w_tick w)) (ng_k s) (tick w) = Some (t1, w1)"
    by (auto simp: check_tcp_session_def sys_time_def bind_eq_Some_conv Let_def)
  obtain s2 w2 where f: "tcp_finish E (s\<lparr>ng_k := t1\<rparr>) w1 = (s2, w2)"
    by (cases "tcp_finish E (s\<lparr>ng_k := t1\<rparr>) w1")
  from assms show thesis
    by (intro that [of timeout t1 w1 s2] r) (simp_all add: check_tcp_session_def sys_time_def r f)
qed

text \<open>A session that is neither timed out nor closing is left alone.\<close>

lemma check_tcp_session_idle:
  assumes "check_tcp_session E n m s w = Some (del, s', w')"
    and "\<not> timed_out E n m (ng_k s) w" and "t_state (ng_k s) \<noteq> TCP_CLOSING"
    and "t_state (ng_k s) \<noteq> TCP_CLOSE"
  shows "\<not> del \<and> s' = s \<and> w_trace w' = w_trace w"
  using assms(1)
proof (cases rule: check_tcp_session_cases)
  case (1 timeout t1 w1 s2)
  with assms(2-4) have "t1 = ng_k s" "w1 = tick w"
    by (simp_all add: timed_out_def tcp_expire_other)
  with 1(3-5) assms(3,4) show ?thesis
    by (simp add: tcp_finish_other) (auto simp: tcp_uncount_open)
qed

text \<open>A closed session only waits for its removal.\<close>

lemma check_tcp_session_closed:
  assumes "check_tcp_session E n m s w = Some (del, s', w')" and "t_state (ng_k s) = TCP_CLOSE"
  shows "del = (t_time (ng_k s) + TCP_KEEP_TIMEOUT < e_time E (w_tick w))
    \<and> ng_socket s' = ng_socket s \<and> t_state (ng_k s') = TCP_CLOSE
    \<and> t_time (ng_k s') = t_time (ng_k s) \<and> w_trace w' = w_trace w"
  using assms(1)
proof (cases rule: check_tcp_session_cases)
  case (1 timeout t1 w1 s2)
  with assms(2) have "t1 = ng_k s" "w1 = tick w" by (simp_all add: tcp_expire_other)
  with 1(3-5) assms(2) show ?thesis by (simp add: tcp_finish_other) auto
qed

text \<open>A session that is closing or timed out is closed now.\<close>

lemma check_tcp_session_closing:
  assumes "check_tcp_session E n m s w = Some (del, s', w')"
    and "t_state (ng_k s) = TCP_CLOSING \<or> timed_out E n m (ng_k s) w"
  shows "t_state (ng_k s') = TCP_CLOSE
    \<and> ng_socket s' = (if 0 \<le> ng_socket s then - 1 else ng_socket s)
    \<and> t_sent (ng_k s') = 0 \<and> t_received (ng_k s') = 0
    \<and> (\<exists>k > w_tick w. t_time (ng_k s') = e_time E k
           \<and> del = (e_time E k + TCP_KEEP_TIMEOUT < e_time E (w_tick w)))
    \<and> (\<exists>es. w_trace w' = w_trace w @ es @ (if 0 \<le> ng_socket s then [SockClose (ng_socket s)] else [])
         \<and> (if t_state (ng_k s) \<in> {TCP_CLOSING, TCP_LISTEN} then es = []
             else \<exists>p. es = [TunWrite p] \<and> tcp_packet (ng_k s) [] False False False True = Some p))"
  using assms(1)
proof (cases rule: check_tcp_session_cases)
  case (1 timeout t1 w1 s2)
  have "t_state t1 = TCP_CLOSING \<and> w_tick w < w_tick w1 \<and> (\<exists>es. w_trace w1 = w_trace w @ es
      \<and> (if t_state (ng_k s) \<in> {TCP_CLOSING, TCP_LISTEN} then es = []
          else \<exists>p. es = [TunWrite p] \<and> tcp_packet (ng_k s) [] False False False True = Some p))"
  proof (cases "t_state (ng_k s) = TCP_CLOSING")
    case True
    with 1(2) show ?thesis by (auto simp add: tcp_expire_other)
  next
    case False
    with assms(2) 1(1) tcp_expire_timed_out [OF 1(2)] show ?thesis
      by (auto simp: timed_out_def)
  qed
  then obtain es where es: "t_state t1 = TCP_CLOSING" "w_tick w < w_tick w1" "w_trace w1 = w_trace w @ es"
    "if t_state (ng_k s) \<in> {TCP_CLOSING, TCP_LISTEN} then es = []
     else \<exists>p. es = [TunWrite p] \<and> tcp_packet (ng_k s) [] False False False True = Some p"
    by blast
  from tcp_finish_closing [OF 1(3)] es(1) obtain k where
    f: "t_state (ng_k s2) = TCP_CLOSE" "ng_socket s2 = (if 0 \<le> ng_socket s then - 1 else ng_socket s)"
      "w_trace w' = w_trace w1 @ (if 0 \<le> ng_socket s then [SockClose (ng_socket s)] else [])"
      "w_tick w1 \<le> k" "t_time (ng_k s2) = e_time E k" by auto
  have "\<exists>es. w_trace w' = w_trace w @ es @ (if 0 \<le> ng_socket s then [SockClose (ng_socket s)] else [])
      \<and> (if t_state (ng_k s) \<in> {TCP_CLOSING, TCP_LISTEN} then es = []
          else \<exists>p. es = [TunWrite p] \<and> tcp_packet (ng_k s) [] False False False True = Some p)"
    using es(3,4) f(3) by (intro exI [of _ es]) simp
  moreover have "\<exists>k > w_tick w. t_time (ng_k s') = e_time E k
      \<and> del = (e_time E k + TCP_KEEP_TIMEOUT < e_time E (w_tick w))"
    using 1(4,5) f es(2) by (intro exI [of _ k]) simp
  ultimately show ?thesis
    using 1(4) f tcp_uncount_zero [OF f(1)] by simp
qed

lemma tcp_check_modes:
  "t_state (ng_k s) = TCP_CLOSE \<or> (t_state (ng_k s) = TCP_CLOSING \<or> timed_out E n m (ng_k s) w)
   \<or> (\<not> timed_out E n m (ng_k s) w \<and> t_state (ng_k s) \<noteq> TCP_CLOSING \<and> t_state (ng_k s) \<noteq> TCP_CLOSE)"
  by blast

lemma check_tcp_session_ptr: "check_tcp_session E n m s w = Some (del, s', w') \<Longrightarrow> ng_ptr s' = ng_ptr s"
  by (elim check_tcp_session_cases) (auto simp: tcp_finish_def Let_def split: if_splits prod.splits)

interpretation tcp_check: session_check check_tcp_session ng_socket ng_ptr tcp_inv
proof
  fix s :: "tcp_session ng_session" and E n m w del s' w'
  assume i: "tcp_inv s" and c: "check_tcp_session E n m s w = Some (del, s', w')"
  show "tcp_inv s'" if "\<not> del"
    using tcp_check_modes [of s E n m w] check_tcp_session_closed [OF c] check_tcp_session_closing [OF c]
      check_tcp_session_idle [OF c] i by (auto simp: tcp_inv_def)
  show "sock_change ng_socket ng_ptr s w s' w'"
    using tcp_check_modes [of s E n m w] check_tcp_session_closed [OF c] check_tcp_session_closing [OF c]
      check_tcp_session_idle [OF c] check_tcp_session_ptr [OF c] by (auto simp: sock_change_def split: if_splits)
  show "ng_socket s' < 0" if "del"
    using tcp_check_modes [of s E n m w] check_tcp_session_closed [OF c] check_tcp_session_closing [OF c]
      check_tcp_session_idle [OF c] i that by (auto simp: tcp_inv_def)
qed

section \<open>Monitoring\<close>

text \<open>Two sessions that agree but for the state, which may have become closing, and the alarm.\<close>

definition same_or_closing :: "tcp_session \<Rightarrow> tcp_session \<Rightarrow> bool" where
  "same_or_closing t t' \<longleftrightarrow>
     (\<exists>a st. t' = t\<lparr>t_last_keep_alive := a, t_state := st\<rparr> \<and> st \<in> {t_state t, TCP_CLOSING})"

lemma same_or_closingI:
  "st = t_state t \<or> st = TCP_CLOSING \<Longrightarrow> same_or_closing t (t\<lparr>t_last_keep_alive := a, t_state := st\<rparr>)"
  by (auto simp: same_or_closing_def)

lemma same_or_closing_same [simp]:
  "same_or_closing t t" "same_or_closing t (t\<lparr>t_last_keep_alive := a\<rparr>)"
  "same_or_closing t (t\<lparr>t_last_keep_alive := a, t_state := TCP_CLOSING\<rparr>)"
  "same_or_closing t (t\<lparr>t_state := TCP_CLOSING\<rparr>)"
  using same_or_closingI [of "t_state t" t "t_last_keep_alive t"] same_or_closingI [of "t_state t" t a]
    same_or_closingI [of TCP_CLOSING t a] same_or_closingI [of TCP_CLOSING t "t_last_keep_alive t"]
  by simp_all

lemma same_or_closing_close:
  assumes "same_or_closing t t'"
  shows "same_or_closing t (t'\<lparr>t_state := TCP_CLOSING\<rparr>)"
proof -
  from assms obtain a st where "t' = t\<lparr>t_last_keep_alive := a, t_state := st\<rparr>"
    by (auto simp: same_or_closing_def)
  then show ?thesis by simp
qed

lemma same_or_closing_frame:
  assumes "same_or_closing t t'"
  shows "t_remote_seq t' = t_remote_seq t" "t_local_seq t' = t_local_seq t" "t_forward t' = t_forward t"
    "t_acked t' = t_acked t" "t_send_window t' = t_send_window t" "t_recv_scale t' = t_recv_scale t"
    "t_state t' = t_state t \<or> t_state t' = TCP_CLOSING"
  using assms by (auto simp: same_or_closing_def)

lemma tcp_read_events_spec:
  assumes "tcp_read_events E t w = Some (recheck, ev, t', w')"
  shows "same_or_closing t t' \<and> ev = (if get_send_window t > 0 then EPOLLERR OR EPOLLIN else EPOLLERR)
    \<and> recheck = (\<not> get_send_window t > 0)
    \<and> (\<exists>es. w_trace w' = w_trace w @ es \<and> (es = [] \<or> (\<exists>p. es = [TunWrite p]
          \<and> tcp_packet (t\<lparr>t_last_keep_alive := e_ms E (w_tick w), t_remote_seq := t_remote_seq t - 1\<rparr>)
              [] False True False False = Some p \<and> get_send_window t = 0)))"
proof (cases "get_send_window t > 0")
  case True
  with assms show ?thesis by (auto simp: tcp_read_events_def)
next
  case False
  let ?t = "t\<lparr>t_last_keep_alive := e_ms E (w_tick w), t_remote_seq := t_remote_seq t - 1\<rparr>"
  show ?thesis
  proof (cases "e_ms E (w_tick w) - t_last_keep_alive t > EPOLL_MIN_CHECK")
    case True
    with False assms obtain res t1 where r: "write_ack E ?t (tick w) = Some (res, t1, w')"
      "recheck" "ev = EPOLLERR" "t' = t1\<lparr>t_remote_seq := t_remote_seq t1 + 1\<rparr>"
      by (auto simp: tcp_read_events_def get_ms_def Let_def bind_eq_Some_conv)
    from wrapper_effects(2) [OF r(1)] obtain p where
      "t1 = ?t \<or> t1 = ?t\<lparr>t_state := TCP_CLOSING\<rparr>" "tcp_packet ?t [] False True False False = Some p"
      "w_trace w' = w_trace (tick w) @ [TunWrite p]"
      unfolding acked_write_def by blast
    with False r(2-4) show ?thesis by (auto simp: word_gt_0)
  next
    case Fb: False
    with False assms show ?thesis
      by (auto simp: tcp_read_events_def get_ms_def Let_def)
  qed
qed

lemma get_receive_buffer_trace [trace_simps]: "w_trace (snd (get_receive_buffer E s w)) = w_trace w"
  by (simp add: get_receive_buffer_def Let_def)

lemma monitor_events_spec:
  assumes "monitor_events E s w = Some (recheck, ev, t', w')"
  shows "same_or_closing (ng_k s) t'
    \<and> (ev AND EPOLLIN \<noteq> 0 \<longleftrightarrow>
         (if t_state (ng_k s) = TCP_LISTEN
          then t_connect_sent (ng_k s) = TCP_CONNECT_SENT \<and> htons (t_dest (ng_k s)) = 443
          else t_state (ng_k s) \<in> {TCP_ESTABLISHED, TCP_CLOSE_WAIT} \<and> get_send_window (ng_k s) > 0))
    \<and> (ev AND EPOLLOUT \<noteq> 0 \<and> t_state (ng_k s) \<noteq> TCP_LISTEN \<longrightarrow>
         (\<exists>q qs. t_forward (ng_k s) = q # qs \<and> seg_seq q + ucast (seg_sent q) = t_remote_seq (ng_k s)))
    \<and> (\<exists>es. w_trace w' = w_trace w @ es \<and> (es = [] \<or> (\<exists>p. es = [TunWrite p]
          \<and> tcp_packet ((ng_k s)\<lparr>t_last_keep_alive := e_ms E (w_tick w),
                                t_remote_seq := t_remote_seq (ng_k s) - 1\<rparr>)
              [] False True False False = Some p \<and> get_send_window (ng_k s) = 0)))"
proof (cases "t_state (ng_k s) = TCP_ESTABLISHED \<or> t_state (ng_k s) = TCP_CLOSE_WAIT")
  case False
  with assms show ?thesis by (auto simp: monitor_events_def Let_def epoll_bits split: if_splits)
next
  case True
  with assms obtain rc ev1 t1 w1 where
    r: "tcp_read_events E (ng_k s) w = Some (rc, ev1, t1, w1)"
    and m: "(if t_forward t1 \<noteq> [] then
               let (buf, w) = get_receive_buffer E s w1 in
               if head_ready t1 (of_int buf) then Some (rc, ev1 OR EPOLLOUT, t1, w)
               else Some (True, ev1, t1, w)
             else Some (rc, ev1, t1, w1)) = Some (recheck, ev, t', w')"
    by (auto simp: monitor_events_def Let_def bind_eq_Some_conv split: if_splits)
  note sp = tcp_read_events_spec [OF r]
  note fr = same_or_closing_frame [OF conjunct1 [OF sp]]
  have "t' = t1" "w_trace w' = w_trace w1" and ev: "ev = ev1 \<or> ev = ev1 OR EPOLLOUT \<and> (\<exists>room. head_ready t1 room)"
    using m get_receive_buffer_trace [of E s w1] by (auto split: if_splits prod.splits)
  moreover have "ev1 AND EPOLLIN \<noteq> 0 \<longleftrightarrow> get_send_window (ng_k s) > 0" "ev1 AND EPOLLOUT = 0"
    "(ev1 OR EPOLLOUT) AND EPOLLIN \<noteq> 0 \<longleftrightarrow> get_send_window (ng_k s) > 0"
    using sp by (auto simp: epoll_bits)
  moreover have "\<exists>q qs. t_forward (ng_k s) = q # qs \<and> seg_seq q + ucast (seg_sent q) = t_remote_seq (ng_k s)"
    if "head_ready t1 room" for room
    using that fr by (auto simp: head_ready_def split: list.splits)
  ultimately show ?thesis using sp True by auto
qed

lemma monitor_cases:
  assumes "monitor_tcp_session E s w = Some (recheck, s', w')"
  obtains ev t1 w1 where "monitor_events E s w = Some (recheck, ev, t1, w1)"
    "ng_ev s' = ev" "ng_socket s' = ng_socket s" "ng_ptr s' = ng_ptr s"
    "ng_k s' = t1 \<or> ng_k s' = t1\<lparr>t_state := TCP_CLOSING\<rparr>"
    "w_trace w' = w_trace w1 @ (if ev = ng_ev s then [] else [EpollMod (ng_socket s) ev])"
proof -
  from assms obtain rc ev t1 w1 where m: "monitor_events E s w = Some (rc, ev, t1, w1)"
    by (auto simp: monitor_tcp_session_def bind_eq_Some_conv)
  show thesis
    using assms m
    by (intro that [of ev t1 w1])
      (auto simp: monitor_tcp_session_def epoll_mod_def Let_def split: if_splits prod.splits)
qed

section \<open>Properties\<close>

text \<open>
  C19. The life cycle under the periodic check, for a clock that does not run backwards: a session
  is removed only when it was closed more than \<open>TCP_KEEP_TIMEOUT\<close> seconds ago; a session that is
  closing or has timed out is closed, its socket is closed exactly if it was open, and the peer
  gets one reset unless the connection was never set up; any other session stays as it is.
\<close>

theorem tcp_session_lifecycle:
  assumes "check_tcp_session E n m s w = Some (del, s', w')"
    and "\<forall>i j. i \<le> j \<longrightarrow> e_time E i \<le> e_time E j"
  shows "(del \<longleftrightarrow> t_state (ng_k s) = TCP_CLOSE
            \<and> t_time (ng_k s) + TCP_KEEP_TIMEOUT < e_time E (w_tick w))
    \<and> (if t_state (ng_k s) = TCP_CLOSING \<or> timed_out E n m (ng_k s) w then
         t_state (ng_k s') = TCP_CLOSE \<and> ng_socket s' < 0
         \<and> closed (w_trace w') = closed (w_trace w) @ (if 0 \<le> ng_socket s then [ng_socket s] else [])
         \<and> (\<exists>rst. tun_packets (w_trace w') = tun_packets (w_trace w) @ rst
              \<and> (if t_state (ng_k s) \<in> {TCP_CLOSING, TCP_LISTEN} then rst = []
                  else map Some rst = [tcp_packet (ng_k s) [] False False False True]))
       else t_state (ng_k s) = TCP_CLOSE \<and> ng_socket s' = ng_socket s \<and> t_state (ng_k s') = TCP_CLOSE
            \<or> s' = s)
    \<and> (tcp_inv s \<longrightarrow> tcp_inv s')"
proof -
  have keep: "\<not> e_time E k + TCP_KEEP_TIMEOUT < e_time E (w_tick w)" if "w_tick w < k" for k
    using assms(2) [rule_format, of "w_tick w" k] that by (simp add: timeouts)
  consider (gone) "t_state (ng_k s) = TCP_CLOSE"
    | (fin) "t_state (ng_k s) = TCP_CLOSING \<or> timed_out E n m (ng_k s) w" "t_state (ng_k s) \<noteq> TCP_CLOSE"
    | (idle) "\<not> timed_out E n m (ng_k s) w" "t_state (ng_k s) \<noteq> TCP_CLOSING" "t_state (ng_k s) \<noteq> TCP_CLOSE"
    by (auto simp: timed_out_def)
  then show ?thesis
  proof cases
    case gone
    then have "\<not> timed_out E n m (ng_k s) w" by (simp add: timed_out_def)
    then show ?thesis using check_tcp_session_closed [OF assms(1) gone] gone by (auto simp: tcp_inv_def)
  next
    case fin
    from check_tcp_session_closing [OF assms(1) fin(1)] obtain k es where c:
      "t_state (ng_k s') = TCP_CLOSE" "ng_socket s' = (if 0 \<le> ng_socket s then - 1 else ng_socket s)"
      "w_tick w < k" "del = (e_time E k + TCP_KEEP_TIMEOUT < e_time E (w_tick w))"
      "w_trace w' = w_trace w @ es @ (if 0 \<le> ng_socket s then [SockClose (ng_socket s)] else [])"
      "if t_state (ng_k s) \<in> {TCP_CLOSING, TCP_LISTEN} then es = []
       else \<exists>p. es = [TunWrite p] \<and> tcp_packet (ng_k s) [] False False False True = Some p"
      by auto
    have "closed es = []" "\<exists>rst. tun_packets es = rst \<and> (if t_state (ng_k s) \<in> {TCP_CLOSING, TCP_LISTEN}
        then rst = [] else map Some rst = [tcp_packet (ng_k s) [] False False False True])"
      using c(6) by (auto split: if_splits)
    then show ?thesis using c(1-5) fin keep [OF c(3)] by (simp add: tcp_inv_def)
  next
    case idle
    then show ?thesis using check_tcp_session_idle [OF assms(1) idle] by simp
  qed
qed

theorem tcp_session_lifecycle_witness:
  "\<exists>del s' w'. check_tcp_session calm 1 100 (sample_ng\<lparr>ng_k := sample_tcp\<lparr>t_state := TCP_CLOSING\<rparr>\<rparr>) start
      = Some (del, s', w')
    \<and> \<not> del \<and> t_state (ng_k s') = TCP_CLOSE \<and> ng_socket s' < 0 \<and> closed (w_trace w') = [9]"
proof -
  let ?s = "sample_ng\<lparr>ng_k := sample_tcp\<lparr>t_state := TCP_CLOSING\<rparr>\<rparr>"
  have "check_tcp_session calm 1 100 ?s start \<noteq> None"
    by (simp add: check_tcp_session_def get_tcp_timeout_def scale_timeout_def tcp_expire_def Let_def
        sys_time_def split: prod.splits)
  then obtain del s' w' where c: "check_tcp_session calm 1 100 ?s start = Some (del, s', w')" by auto
  have "\<forall>i j. i \<le> j \<longrightarrow> e_time calm i \<le> e_time calm j" by (simp add: calm_def)
  from tcp_session_lifecycle [OF c this]
  have "\<not> del \<and> t_state (ng_k s') = TCP_CLOSE \<and> ng_socket s' < 0 \<and> closed (w_trace w') = [9]"
    by (simp add: sample_ng_def start_def)
  with c show ?thesis by blast
qed

text \<open>
  The events a monitored session waits for: the socket is read exactly when the peer has room
  (or, before the connection is up, when the answer of the proxy is awaited), and written only
  when the head of the queue continues the data forwarded. The session does not change but for
  a failure, which makes it closing, and for the time of the last keep alive; a keep alive is
  written only to a peer without room and carries the acknowledgement of the byte before.
\<close>

theorem monitor_tcp_session_events:
  assumes "monitor_tcp_session E s w = Some (recheck, s', w')"
  defines "t \<equiv> ng_k s"
  shows "same_or_closing t (ng_k s') \<and> ng_socket s' = ng_socket s
    \<and> (ng_ev s' AND EPOLLIN \<noteq> 0 \<longleftrightarrow>
         (if t_state t = TCP_LISTEN then t_connect_sent t = TCP_CONNECT_SENT \<and> htons (t_dest t) = 443
          else t_state t \<in> {TCP_ESTABLISHED, TCP_CLOSE_WAIT} \<and> get_send_window t > 0))
    \<and> (ng_ev s' AND EPOLLOUT \<noteq> 0 \<and> t_state t \<noteq> TCP_LISTEN \<longrightarrow>
         (\<exists>q qs. t_forward t = q # qs \<and> seg_seq q + ucast (seg_sent q) = t_remote_seq t))
    \<and> (\<forall>p \<in> set (drop (length (tun_packets (w_trace w))) (tun_packets (w_trace w'))).
         get_send_window t = 0 \<and> tcp_packet (t\<lparr>t_last_keep_alive := e_ms E (w_tick w),
           t_remote_seq := t_remote_seq t - 1\<rparr>) [] False True False False = Some p)"
proof -
  from assms(1) obtain ev t1 w1 where m: "monitor_events E s w = Some (recheck, ev, t1, w1)"
    "ng_ev s' = ev" "ng_socket s' = ng_socket s"
    "ng_k s' = t1 \<or> ng_k s' = t1\<lparr>t_state := TCP_CLOSING\<rparr>"
    "w_trace w' = w_trace w1 @ (if ev = ng_ev s then [] else [EpollMod (ng_socket s) ev])"
    by (rule monitor_cases)
  note sp = monitor_events_spec [OF m(1)]
  have "same_or_closing t (ng_k s')"
    using sp m(4) same_or_closing_close [of t t1] by (auto simp: t_def)
  moreover have "tun_packets (w_trace w') = tun_packets (w_trace w1)" using m(5) by simp
  ultimately show ?thesis using sp m(2,3) by (auto simp: t_def)
qed

theorem monitor_tcp_session_events_witness:
  "\<exists>recheck s' w'. monitor_tcp_session calm (sample_ng\<lparr>ng_k := sample_acked\<rparr>) start = Some (recheck, s', w')
    \<and> ng_ev s' AND EPOLLIN \<noteq> 0"
proof -
  let ?s = "sample_ng\<lparr>ng_k := sample_acked\<rparr>"
  have f: "t_acked sample_acked = 70" "t_local_seq sample_acked = 77" "t_send_window sample_acked = 65536"
    "t_state sample_acked = TCP_ESTABLISHED" "t_forward sample_acked = []"
    by (simp_all add: sample_acked_def sample_tcp_def)
  have "\<not> compare_u32 70 77 > 0" by (simp only: compare_u32_pos_iff) simp
  then have g: "get_send_window sample_acked = 65529" by (simp add: get_send_window_def f)
  have "monitor_tcp_session calm ?s start \<noteq> None"
    by (auto simp add: monitor_tcp_session_def monitor_events_def tcp_read_events_def f g split: prod.splits)
  then obtain recheck s' w' where m: "monitor_tcp_session calm ?s start = Some (recheck, s', w')" by auto
  from monitor_tcp_session_events [OF m] m show ?thesis by (simp add: f g)
qed

end
