(* ===== verification/TcpStates.thy ===== *)
theory TcpStates
  imports TcpSession
begin

text \<open>
  The abstract state machine of a relayed connection, which the handlers of \<open>tcp.c\<close> implement,
  with its reachability facts. \<open>TCP_CLOSE\<close> is final, and four states of the TCP standard never
  occur.
\<close>

inductive tcp_arc :: "tcp_state \<Rightarrow> tcp_state \<Rightarrow> bool" where
  socket_up: "tcp_arc TCP_LISTEN TCP_SYN_RECV"
| peer_ack: "tcp_arc TCP_SYN_RECV TCP_ESTABLISHED"
| peer_fin: "tcp_arc TCP_ESTABLISHED TCP_CLOSE_WAIT"
| socket_eof: "tcp_arc TCP_ESTABLISHED TCP_FIN_WAIT1"
| socket_eof_last: "tcp_arc TCP_CLOSE_WAIT TCP_LAST_ACK"
| peer_fin_last: "tcp_arc TCP_FIN_WAIT1 TCP_CLOSE"
| closed: "tcp_arc TCP_CLOSING TCP_CLOSE"
| fail: "st \<noteq> TCP_CLOSE \<Longrightarrow> tcp_arc st TCP_CLOSING"
| proxy_connect: "st \<notin> {TCP_CLOSE, TCP_FIN_WAIT1, TCP_LAST_ACK} \<Longrightarrow> tcp_arc st TCP_LISTEN"

code_pred tcp_arc .

inductive_cases tcp_arc_closeE: "tcp_arc TCP_CLOSE st"
inductive_simps tcp_arc_from_close [simp]: "tcp_arc TCP_CLOSE st"

abbreviation tcp_path :: "tcp_state \<Rightarrow> tcp_state \<Rightarrow> bool" where
  "tcp_path \<equiv> tcp_arc\<^sup>*\<^sup>*"

lemma path_fail [intro]: "st \<noteq> TCP_CLOSE \<Longrightarrow> tcp_path st TCP_CLOSING"
  by (blast intro: tcp_arc.fail)

lemma path_closed [intro]: "tcp_path st TCP_CLOSE"
proof (cases "st = TCP_CLOSE")
  case False
  then have "tcp_path st TCP_CLOSING" by blast
  then show ?thesis by (rule rtranclp.rtrancl_into_rtrancl) (rule tcp_arc.closed)
qed simp

lemma path_arcs [simp]:
  "tcp_path TCP_LISTEN TCP_SYN_RECV" "tcp_path TCP_SYN_RECV TCP_ESTABLISHED"
  "tcp_path TCP_ESTABLISHED TCP_CLOSE_WAIT" "tcp_path TCP_ESTABLISHED TCP_FIN_WAIT1"
  "tcp_path TCP_CLOSE_WAIT TCP_LAST_ACK" "tcp_path TCP_FIN_WAIT1 TCP_CLOSE"
  by (rule r_into_rtranclp, rule tcp_arc.intros)+

lemma path_from_close: "tcp_path TCP_CLOSE st \<longleftrightarrow> st = TCP_CLOSE"
  by (auto elim: converse_rtranclpE)

lemma path_keeps_alive: "tcp_path a b \<Longrightarrow> b \<noteq> TCP_CLOSE \<Longrightarrow> a \<noteq> TCP_CLOSE"
  using path_from_close by blast

text \<open>The states of a relayed connection.\<close>

definition relay_states :: "tcp_state set" where
  "relay_states = {TCP_LISTEN, TCP_SYN_RECV, TCP_ESTABLISHED, TCP_CLOSE_WAIT, TCP_FIN_WAIT1,
     TCP_LAST_ACK, TCP_CLOSING, TCP_CLOSE}"

lemma tcp_arc_states: "tcp_arc a b \<Longrightarrow> b \<in> relay_states"
  by (induction rule: tcp_arc.induct) (simp_all add: relay_states_def)

lemma tcp_path_states: "tcp_path a b \<Longrightarrow> a \<in> relay_states \<Longrightarrow> b \<in> relay_states"
  by (induction rule: rtranclp_induct) (auto dest: tcp_arc_states)

text \<open>The abstract effects of the routines that several handlers call.\<close>

lemma after_rst_path: "tcp_path (t_state t) (t_state (after_rst t))"
  by (auto simp: frame_simps)

lemma same_or_closing_path:
  "same_or_closing t t' \<Longrightarrow> t_state t \<noteq> TCP_CLOSE \<Longrightarrow> tcp_path (t_state t) (t_state t')"
  using same_or_closing_frame(7) [of t t'] by auto

lemma check_tcp_session_path:
  assumes "check_tcp_session E n m s w = Some (del, s', w')"
  shows "tcp_path (t_state (ng_k s)) (t_state (ng_k s'))"
  using tcp_check_modes [of s E n m w] check_tcp_session_closed [OF assms]
    check_tcp_session_closing [OF assms] check_tcp_session_idle [OF assms] by auto

text \<open>
  The monitor and the periodic check implement the abstract machine: each moves a session
  along its arcs; a monitored session is one with an open socket.
\<close>

lemma monitor_path:
  assumes "monitor_tcp_session E s w = Some (recheck, s', w')" "tcp_inv s" "0 \<le> ng_socket s"
  shows "tcp_path (t_state (ng_k s)) (t_state (ng_k s')) \<and> tcp_inv s' \<and> ng_socket s' = ng_socket s"
proof -
  have n: "t_state (ng_k s) \<notin> {TCP_FIN_WAIT1, TCP_LAST_ACK, TCP_CLOSE}"
    using assms(2,3) by (auto simp: tcp_inv_def)
  from assms(1) obtain ev t1 w1 where m: "monitor_events E s w = Some (recheck, ev, t1, w1)"
    "ng_socket s' = ng_socket s" "ng_k s' = t1 \<or> ng_k s' = t1\<lparr>t_state := TCP_CLOSING\<rparr>"
    by (rule monitor_cases)
  have "same_or_closing (ng_k s) t1" using monitor_events_spec [OF m(1)] by simp
  then have "t_state (ng_k s') = t_state (ng_k s) \<or> t_state (ng_k s') = TCP_CLOSING"
    using m(3) same_or_closing_frame(7) by auto
  then show ?thesis using n m(2) by (auto simp: tcp_inv_def)
qed

end
