(* ===== verification/TcpSocket.thy ===== *)
theory TcpSocket
  imports TcpStates Http
begin

text \<open>
  \<open>check_tcp_socket\<close>: what happens when \<open>epoll\<close> reports a TCP socket. A connection that is
  being set up is accepted towards the peer, or the answer of the proxy is read; queued data is
  sent to the socket; data from the socket is written to the tunnel.
\<close>

section \<open>Setting up\<close>

text \<open>
  The loop that throws away what else the proxy has answered. It ends when the socket has no more
  data; \<open>None\<close> is the loop that never ends.
\<close>

partial_function (option) drain :: "env \<Rightarrow> int \<Rightarrow> world \<Rightarrow> world option" where
  "drain E fd w =
     (let (r, w) = sys_recv E fd 512 w
      in (case r of Inl e \<Rightarrow> Some w | Inr b \<Rightarrow> if b = [] then Some w else drain E fd w))"

declare drain.simps [code]

text \<open>The first 12 bytes of the proxy's answer are compared as a string.\<close>

definition tcp_proxy_reply ::
  "env \<Rightarrow> tcp_session ng_session \<Rightarrow> world \<Rightarrow> (tcp_session \<times> world) option" where
  "tcp_proxy_reply E s w =
     (let t = ng_k s; (r, w) = sys_recv E (ng_socket s) 12 w
      in case r of
           Inl e \<Rightarrow> write_rst E t w
         | Inr buffer \<Rightarrow>
             if t_connect_sent t = TCP_CONNECT_SENT then
               (if cstr buffer = lit ''HTTP/1.0 200'' \<or> cstr buffer = lit ''HTTP/1.1 200'' then
                  do { w \<leftarrow> drain E (ng_socket s) w;
                       Some (t\<lparr>t_connect_sent := TCP_CONNECT_ESTABLISHED, t_state := TCP_SYN_RECV\<rparr>, w) }
                else write_rst E t w)
             else Some (t, w))"

definition tcp_connected :: "env \<Rightarrow> tcp_session \<Rightarrow> world \<Rightarrow> (tcp_session \<times> world) option" where
  "tcp_connected E t w =
     do { let t = t\<lparr>t_remote_seq := t_remote_seq t + 1\<rparr>;
          (res, t, w) \<leftarrow> write_syn_ack E t w;
          if res \<ge> 0 then
            do { let (now, w) = sys_time E w;
                 Some (t\<lparr>t_time := now, t_local_seq := t_local_seq t + 1, t_state := TCP_SYN_RECV\<rparr>, w) }
          else Some (t, w) }"

section \<open>Forwarding queued data\<close>

text \<open>
  What is handed to \<open>send\<close> for the head of the queue: its unsent bytes, or for port 80 the
  rewritten request. The routine reads from the segment's own allocation.
\<close>

definition outgoing :: "tcp_session \<Rightarrow> segment \<Rightarrow> bytes option" where
  "outgoing t q =
     (let data = drop (unat (seg_sent q)) (seg_data q);
          len = size_sub (unat (seg_len q)) (unat (seg_sent q))
      in if htons (t_dest t) = 80 then
           do { patched \<leftarrow> patch_http_url data len;
                case patched of Some new_data \<Rightarrow> Some new_data | None \<Rightarrow> rd_block data 0 len }
         else rd_block data 0 len)"

text \<open>
  The result of \<open>send\<close> as the code uses it: it is compared with the unsigned \<open>len\<close>, so that
  a result of -1 is the largest number.
\<close>

definition clip_sent :: "errno + nat \<Rightarrow> nat \<Rightarrow> int" where
  "clip_sent r len =
     (let sent = (case r of Inl e \<Rightarrow> - 1 | Inr n \<Rightarrow> int n)
      in if ssize_to_size sent > int len then int len else sent)"

fun forward_loop ::
  "env \<Rightarrow> int \<Rightarrow> u32 \<Rightarrow> bool \<Rightarrow> segment list \<Rightarrow> tcp_session \<Rightarrow> world
     \<Rightarrow> (bool \<times> tcp_session \<times> world) option" where
  "forward_loop E fd buffer_size fwd [] t w = Some (fwd, t\<lparr>t_forward := []\<rparr>, w)"
| "forward_loop E fd buffer_size fwd (q # qs) t w =
     (if seg_seq q + ucast (seg_sent q) = t_remote_seq t \<and> unsent q < buffer_size then
        do { data \<leftarrow> outgoing t q;
             let (r, w) = sys_send E fd data (\<not> seg_psh q) w;
             let sent = clip_sent r (size_sub (unat (seg_len q)) (unat (seg_sent q)));
             if sent < 0 then
               (if r = Inl EINTR \<or> r = Inl EAGAIN then Some (fwd, t\<lparr>t_forward := q # qs\<rparr>, w)
                else do { (t, w) \<leftarrow> write_rst E (t\<lparr>t_forward := q # qs\<rparr>) w; Some (fwd, t, w) })
             else
               do { let q = q\<lparr>seg_sent := seg_sent q + of_int sent\<rparr>;
                    let t = t\<lparr>t_sent := t_sent t + of_int sent,
                              t_remote_seq := seg_seq q + ucast (seg_sent q)\<rparr>;
                    if seg_len q = seg_sent q
                    then forward_loop E fd (buffer_size - of_int sent) True qs t w
                    else Some (True, t\<lparr>t_forward := q # qs\<rparr>, w) } }
      else Some (fwd, t\<lparr>t_forward := q # qs\<rparr>, w))"

section \<open>Reading from the socket\<close>

text \<open>The session when the socket is at its end: the peer gets a FIN, or a reset if data waits.\<close>

definition tcp_eof :: "env \<Rightarrow> tcp_session \<Rightarrow> world \<Rightarrow> (tcp_session \<times> world) option" where
  "tcp_eof E t w =
     (if t_forward t = [] then
        do { (res, t, w) \<leftarrow> write_fin_ack E t w;
             let t = (if res \<ge> 0 then t\<lparr>t_local_seq := t_local_seq t + 1\<rparr> else t);
             Some (if t_state t = TCP_ESTABLISHED then t\<lparr>t_state := TCP_FIN_WAIT1\<rparr>
                   else if t_state t = TCP_CLOSE_WAIT then t\<lparr>t_state := TCP_LAST_ACK\<rparr>
                   else t, w) }
      else write_rst E t w)"

definition tcp_receive ::
  "env \<Rightarrow> u32 \<Rightarrow> tcp_session ng_session \<Rightarrow> world \<Rightarrow> (tcp_session ng_session \<times> world) option" where
  "tcp_receive E ev s w =
     (let t = ng_k s; send_window = get_send_window t in
      if ev AND EPOLLIN \<noteq> 0 \<and> send_window > 0 then
        do { let (now, w) = sys_time E w;
             let t = t\<lparr>t_time := now\<rparr>;
             let buffer_size = (if send_window > ucast (t_mss t) then ucast (t_mss t) else send_window);
             let (r, w) = sys_recv E (ng_socket s) (unat buffer_size) w;
             case r of
               Inl e \<Rightarrow>
                 if e \<noteq> EINTR \<and> e \<noteq> EAGAIN then
                   do { (t, w) \<leftarrow> write_rst E t w; Some (s\<lparr>ng_k := t\<rparr>, w) }
                 else Some (s\<lparr>ng_k := t\<rparr>, w)
             | Inr buffer \<Rightarrow>
                 if buffer = [] then
                   do { (t, w) \<leftarrow> tcp_eof E t w;
                        let w = sys_close (ng_socket s) w;
                        Some (s\<lparr>ng_k := t, ng_socket := - 1\<rparr>, w) }
                 else
                   do { let t = t\<lparr>t_received := t_received t + of_nat (length buffer)\<rparr>;
                        (res, t, w) \<leftarrow> write_data E t buffer w;
                        Some (s\<lparr>ng_k := (if res \<ge> 0 then t\<lparr>t_local_seq := t_local_seq t + of_nat (length buffer)\<rparr>
                                        else t)\<rparr>, w) } }
      else Some (s, w))"

section \<open>The handler\<close>

text \<open>Sending what is queued, when the socket can be written.\<close>

definition tcp_forward ::
  "env \<Rightarrow> u32 \<Rightarrow> tcp_session ng_session \<Rightarrow> world \<Rightarrow> (bool \<times> tcp_session \<times> world) option" where
  "tcp_forward E ev s w =
     (if ev AND EPOLLOUT \<noteq> 0 then
        do { let (buf, w) = get_receive_buffer E s w;
             forward_loop E (ng_socket s) (of_int buf) False (t_forward (ng_k s)) (ng_k s) w }
      else Some (False, ng_k s, w))"

text \<open>
  The new window, and an acknowledgement when data was forwarded or the window opens; it confirms
  the FIN of the peer once nothing is queued any more.
\<close>

definition tcp_ack_forwarded ::
  "env \<Rightarrow> bool \<Rightarrow> u32 \<Rightarrow> tcp_session \<Rightarrow> world \<Rightarrow> (tcp_session \<times> world) option" where
  "tcp_ack_forwarded E fwd window t w =
     (let prev = t_recv_window t; t = t\<lparr>t_recv_window := window\<rparr> in
      if fwd \<or> (prev = 0 \<and> window > 0) then
        do { let t = (if fwd \<and> t_forward t = [] \<and> t_state t = TCP_CLOSE_WAIT
                      then t\<lparr>t_remote_seq := t_remote_seq t + 1\<rparr> else t);
             (res, t, w) \<leftarrow> write_ack E t w;
             if res \<ge> 0 then
               do { let (now, w) = sys_time E w; Some (t\<lparr>t_time := now\<rparr>, w) }
             else Some (t, w) }
      else Some (t, w))"

text \<open>A socket that is set up: forward, announce the window, acknowledge, read.\<close>

definition tcp_transfer ::
  "env \<Rightarrow> u32 \<Rightarrow> tcp_session ng_session \<Rightarrow> world \<Rightarrow> (tcp_session ng_session \<times> world) option" where
  "tcp_transfer E ev s w =
     do { (fwd, t, w) \<leftarrow> tcp_forward E ev s w;
          (window, w) \<leftarrow> get_receive_window E (s\<lparr>ng_k := t\<rparr>) w;
          (t, w) \<leftarrow> tcp_ack_forwarded E fwd window t w;
          if t_state t = TCP_ESTABLISHED \<or> t_state t = TCP_CLOSE_WAIT
          then tcp_receive E ev (s\<lparr>ng_k := t\<rparr>) w
          else Some (s\<lparr>ng_k := t\<rparr>, w) }"

text \<open>
  The whole handler. Reading and logging the pending socket error is not modelled, nor is the
  block under \<open>if (0)\<close>, which is never executed.
\<close>

definition check_tcp_socket ::
  "env \<Rightarrow> u32 \<Rightarrow> tcp_session ng_session \<Rightarrow> world \<Rightarrow> (tcp_session ng_session \<times> world) option" where
  "check_tcp_socket E ev s w =
     (if ev AND EPOLLERR \<noteq> 0 then
        do { let (now, w) = sys_time E w;
             (t, w) \<leftarrow> write_rst E ((ng_k s)\<lparr>t_time := now\<rparr>) w;
             Some (s\<lparr>ng_k := t\<rparr>, w) }
      else if t_state (ng_k s) = TCP_LISTEN then
        do { (t, w) \<leftarrow> (if ev AND EPOLLIN \<noteq> 0 then tcp_proxy_reply E s w
                        else tcp_connected E (ng_k s) w);
             Some (s\<lparr>ng_k := t\<rparr>, w) }
      else tcp_transfer E ev s w)"

section \<open>The byte stream of a queue\<close>

text \<open>
  The abstract view of the queue: the bytes still to be forwarded, each with its sequence
  number. A segment is well formed when it does not count more bytes as sent than it has.
\<close>

fun nums :: "u32 \<Rightarrow> bytes \<Rightarrow> (u32 \<times> u8) list" where
  "nums r [] = []"
| "nums r (x # xs) = (r, x) # nums (r + 1) xs"

definition seg_rest :: "segment \<Rightarrow> bytes" where
  "seg_rest q = take (unat (seg_len q) - unat (seg_sent q)) (drop (unat (seg_sent q)) (seg_data q))"

definition stream :: "segment list \<Rightarrow> (u32 \<times> u8) list" where
  "stream qs = concat (map (\<lambda>q. nums (seg_seq q + ucast (seg_sent q)) (seg_rest q)) qs)"

definition seg_wf :: "segment \<Rightarrow> bool" where
  "seg_wf q \<longleftrightarrow> unat (seg_sent q) \<le> unat (seg_len q) \<and> unat (seg_len q) \<le> length (seg_data q)"

lemma length_nums [simp]: "length (nums r xs) = length xs"
  by (induction xs arbitrary: r) simp_all

lemma nums_append: "nums r (xs @ ys) = nums r xs @ nums (r + of_nat (length xs)) ys"
  by (induction xs arbitrary: r) (simp_all add: add.assoc)

lemma take_nums: "take k (nums r xs) = nums r (take k xs)"
  by (induction xs arbitrary: r k) (simp_all add: take_Cons split: nat.splits)

lemma drop_nums: "k \<le> length xs \<Longrightarrow> drop k (nums r xs) = nums (r + of_nat k) (drop k xs)"
  by (induction xs arbitrary: r k) (auto simp: drop_Cons add.assoc split: nat.splits)

lemma map_snd_nums [simp]: "map snd (nums r xs) = xs"
  by (induction xs arbitrary: r) simp_all

lemma length_seg_rest: "seg_wf q \<Longrightarrow> length (seg_rest q) = unat (seg_len q) - unat (seg_sent q)"
  by (simp add: seg_rest_def seg_wf_def min_absorb2 diff_le_mono)

lemma stream_Cons: "stream (q # qs) = nums (seg_seq q + ucast (seg_sent q)) (seg_rest q) @ stream qs"
  by (simp add: stream_def)

lemma outgoing_plain: "seg_wf q \<Longrightarrow> htons (t_dest t) \<noteq> 80 \<Longrightarrow> outgoing t q = Some (seg_rest q)"
  by (simp add: outgoing_def rd_block_def seg_rest_def seg_wf_def Let_def diff_le_mono)

lemma clip_sent_ok: "k \<le> n \<Longrightarrow> n < 65536 \<Longrightarrow> clip_sent (Inr k) n = int k"
  by (simp add: clip_sent_def ssize_to_size_def)

lemma clip_sent_fail: "n < 65536 \<Longrightarrow> clip_sent (Inl e) n = int n"
  by (simp add: clip_sent_def ssize_to_size_def)

lemma clip_sent_nonneg: "n < 65536 \<Longrightarrow> 0 \<le> clip_sent r n"
  by (cases r) (auto simp: clip_sent_def Let_def ssize_to_size_def)

lemma clip_sent_le:
  "n < 65536 \<Longrightarrow> (\<And>b. r = Inr b \<Longrightarrow> b < 2 ^ 63) \<Longrightarrow> clip_sent r n \<le> int n"
  by (cases r) (auto simp: clip_sent_def Let_def ssize_to_size_def split: if_splits)

text \<open>A segment of which \<open>k\<close> more bytes were sent.\<close>

definition advance :: "nat \<Rightarrow> segment \<Rightarrow> segment" where
  "advance k q = q\<lparr>seg_sent := seg_sent q + of_nat k\<rparr>"

lemma unat_add_le16: "unat (a :: u16) + k \<le> unat (b :: u16) \<Longrightarrow> unat (a + of_nat k) = unat a + k"
  using unat_u16 [of b] by (simp add: unat_word_ariths unat_of_nat take_bit_eq_mod)

lemma advance_wf:
  assumes "seg_wf q" "k \<le> unat (seg_len q) - unat (seg_sent q)"
  shows "unat (seg_sent (advance k q)) = unat (seg_sent q) + k" "seg_wf (advance k q)"
    "seg_rest (advance k q) = drop k (seg_rest q)"
    "seg_seq (advance k q) + ucast (seg_sent (advance k q)) = seg_seq q + ucast (seg_sent q) + of_nat k"
proof -
  have le: "unat (seg_sent q) + k \<le> unat (seg_len q)" using assms by (auto simp: seg_wf_def)
  show u: "unat (seg_sent (advance k q)) = unat (seg_sent q) + k"
    using unat_add_le16 [OF le] by (simp add: advance_def)
  then show "seg_wf (advance k q)" using assms le by (simp add: seg_wf_def advance_def)
  show "seg_rest (advance k q) = drop k (seg_rest q)"
    by (simp only: seg_rest_def u) (simp add: advance_def drop_take ac_simps)
  have "(ucast (seg_sent (advance k q)) :: u32) = of_nat (unat (seg_sent q) + k)"
    by (simp flip: u)
  then show "seg_seq (advance k q) + ucast (seg_sent (advance k q))
      = seg_seq q + ucast (seg_sent q) + of_nat k"
    by (simp add: advance_def)
qed

text \<open>One turn of the loop on a well-formed head, for a port that is not rewritten.\<close>

lemma forward_loop_turn:
  assumes "seg_wf q" "htons (t_dest t) \<noteq> 80"
    and "seg_seq q + ucast (seg_sent q) = t_remote_seq t" "unsent q < room"
    and "sys_send E fd (seg_rest q) (\<not> seg_psh q) w = (r, w1)"
  defines "k \<equiv> nat (clip_sent r (unat (seg_len q) - unat (seg_sent q)))"
  defines "t1 \<equiv> t\<lparr>t_sent := t_sent t + of_nat k, t_remote_seq := t_remote_seq t + of_nat k\<rparr>"
  shows "forward_loop E fd room fwd (q # qs) t w =
    (if k = unat (seg_len q) - unat (seg_sent q)
     then forward_loop E fd (room - of_nat k) True qs t1 w1
     else Some (True, t1\<lparr>t_forward := advance k q # qs\<rparr>, w1))"
    and "k \<le> unat (seg_len q) - unat (seg_sent q)"
proof -
  let ?n = "unat (seg_len q) - unat (seg_sent q)"
  have n: "?n < 65536" using unat_u16 [of "seg_len q"] by simp
  have c: "clip_sent r ?n = int k"
    using clip_sent_nonneg [OF n, of r] by (simp add: k_def)
  have "b < 2 ^ 63" if "r = Inr b" for b
    using sys_send_bound [OF assms(5) [unfolded that]] length_seg_rest [OF assms(1)] n by simp
  then show kn: "k \<le> ?n" using clip_sent_le [OF n, of r] by (simp add: k_def)
  have wf: "unat (seg_sent q) \<le> unat (seg_len q)" using assms(1) by (simp add: seg_wf_def)
  have adv: "q\<lparr>seg_sent := seg_sent q + of_nat k\<rparr> = advance k q" by (simp add: advance_def)
  have rs: "seg_seq q + ucast (seg_sent q + of_nat k) = t_remote_seq t + of_nat k"
    using advance_wf(4) [OF assms(1) kn] assms(3) by (simp add: advance_def)
  have fin: "seg_len q = seg_sent (advance k q) \<longleftrightarrow> k = ?n"
    using advance_wf(1) [OF assms(1) kn] wf kn by (auto simp: word_unat_eq_iff)
  have f: "seg_len (advance k q) = seg_len q" "seg_seq (advance k q) = seg_seq q"
    by (simp_all add: advance_def)
  have rs'': "seg_seq (advance k q) + ucast (seg_sent (advance k q)) = t_remote_seq t + of_nat k"
    using rs by (simp add: advance_def)
  have "forward_loop E fd room fwd (q # qs) t w =
    (if seg_len q = seg_sent (advance k q) then forward_loop E fd (room - of_nat k) True qs t1 w1
     else Some (True, t1\<lparr>t_forward := advance k q # qs\<rparr>, w1))"
    unfolding forward_loop.simps outgoing_plain [OF assms(1,2)] Option.bind.bind_lunit Let_def
      assms(5) prod.case size_sub_le [OF wf] c of_int_of_nat_eq adv rs'' t1_def
    using assms(3,4) by (simp add: f(1))
  then show "forward_loop E fd room fwd (q # qs) t w =
    (if k = ?n then forward_loop E fd (room - of_nat k) True qs t1 w1
     else Some (True, t1\<lparr>t_forward := advance k q # qs\<rparr>, w1))"
    unfolding fin .
qed

text \<open>The whole loop, on the stream.\<close>

definition forwarded ::
  "tcp_session \<Rightarrow> segment list \<Rightarrow> bytes \<Rightarrow> tcp_session \<Rightarrow> bool" where
  "forwarded t qs a t' \<longleftrightarrow>
     nums (t_remote_seq t) a = take (length a) (stream qs)
     \<and> stream (t_forward t') = drop (length a) (stream qs)
     \<and> t_remote_seq t' = t_remote_seq t + of_nat (length a)
     \<and> t_sent t' = t_sent t + of_nat (length a)"

lemma forwarded_none: "forwarded t qs [] (t\<lparr>t_forward := qs\<rparr>)"
  by (simp add: forwarded_def)

lemma forwarded_part:
  assumes "seg_wf q" "seg_seq q + ucast (seg_sent q) = t_remote_seq t"
    and "k \<le> unat (seg_len q) - unat (seg_sent q)"
  shows "forwarded t (q # qs) (take k (seg_rest q))
    (t\<lparr>t_sent := t_sent t + of_nat k, t_remote_seq := t_remote_seq t + of_nat k,
       t_forward := advance k q # qs\<rparr>)"
proof -
  have l: "length (take k (seg_rest q)) = k" using length_seg_rest [OF assms(1)] assms(3) by simp
  have "drop k (nums (t_remote_seq t) (seg_rest q)) = nums (t_remote_seq t + of_nat k) (drop k (seg_rest q))"
    using l by (intro drop_nums) simp
  moreover have "k \<le> length (seg_rest q)" using l by simp
  ultimately show ?thesis
    using advance_wf(3,4) [OF assms(1,3)] assms(2) l
    by (simp add: forwarded_def stream_Cons take_nums)
qed

lemma forwarded_whole:
  assumes "seg_wf q" "seg_seq q + ucast (seg_sent q) = t_remote_seq t"
    and "k = unat (seg_len q) - unat (seg_sent q)"
    and "forwarded (t\<lparr>t_sent := t_sent t + of_nat k, t_remote_seq := t_remote_seq t + of_nat k\<rparr>) qs a t'"
  shows "forwarded t (q # qs) (seg_rest q @ a) t'"
proof -
  have l: "length (seg_rest q) = k" using length_seg_rest [OF assms(1)] assms(3) by simp
  then show ?thesis
    using assms(2,4) by (simp add: forwarded_def stream_Cons nums_append add.assoc)
qed

lemma sys_send_trace:
  "sys_send E fd b m w = (r, w1) \<Longrightarrow> w_trace w1 = w_trace w @ [SockSend fd b m r]"
  using sys_traces(9) [of E fd b m w] by simp

lemma forward_loop_stream:
  "forward_loop E fd room fwd qs t w = Some (fwd', t', w') \<Longrightarrow> \<forall>q \<in> set qs. seg_wf q \<Longrightarrow>
     htons (t_dest t) \<noteq> 80 \<Longrightarrow>
     \<exists>es. w_trace w' = w_trace w @ es \<and> tun_packets es = [] \<and> closed es = [] \<and> opened es = []
       \<and> t_state t' = t_state t \<and> (\<forall>q \<in> set (t_forward t'). seg_wf q)
       \<and> (\<not> send_failed es \<longrightarrow> forwarded t qs (accepted es) t')"
proof (induction qs arbitrary: room fwd t w)
  case Nil
  then show ?case by (intro exI [of _ "[]"]) (auto simp: forwarded_none)
next
  case (Cons q qs)
  then have wf: "seg_wf q" by simp
  show ?case
  proof (cases "seg_seq q + ucast (seg_sent q) = t_remote_seq t \<and> unsent q < room")
    case False
    with Cons.prems(1) have "t' = t\<lparr>t_forward := q # qs\<rparr>" "w' = w" by auto
    with Cons.prems(2) show ?thesis by (intro exI [of _ "[]"]) (simp add: forwarded_none)
  next
    case True
    obtain r w1 where s: "sys_send E fd (seg_rest q) (\<not> seg_psh q) w = (r, w1)"
      by (cases "sys_send E fd (seg_rest q) (\<not> seg_psh q) w")
    let ?n = "unat (seg_len q) - unat (seg_sent q)"
    define k where "k = nat (clip_sent r ?n)"
    define t1 where "t1 = t\<lparr>t_sent := t_sent t + of_nat k, t_remote_seq := t_remote_seq t + of_nat k\<rparr>"
    note turn = forward_loop_turn [OF wf Cons.prems(3) conjunct1 [OF True] conjunct2 [OF True] s,
        folded k_def, folded t1_def]
    have tr: "w_trace w1 = w_trace w @ [SockSend fd (seg_rest q) (\<not> seg_psh q) r]"
      by (rule sys_send_trace [OF s])
    have n: "?n < 65536" using unat_u16 [of "seg_len q"] by simp
    have acc: "accepted [SockSend fd (seg_rest q) (\<not> seg_psh q) r] = take k (seg_rest q)"
      if "\<not> send_failed [SockSend fd (seg_rest q) (\<not> seg_psh q) r]"
      using that sys_send_bound [of E fd "seg_rest q" _ w] s length_seg_rest [OF wf] n
      by (cases r) (auto simp: k_def clip_sent_ok)
    show ?thesis
    proof (cases "k = ?n")
      case kn: True
      with turn(1) Cons.prems(1)
      have f: "forward_loop E fd (room - of_nat k) True qs t1 w1 = Some (fwd', t', w')" by simp
      from Cons.IH [OF f] Cons.prems(2,3) obtain es where es: "w_trace w' = w_trace w1 @ es"
        "tun_packets es = []" "closed es = []" "opened es = []" "t_state t' = t_state t"
        "\<forall>q \<in> set (t_forward t'). seg_wf q" "\<not> send_failed es \<Longrightarrow> forwarded t1 qs (accepted es) t'"
        by (auto simp: t1_def)
      have "take k (seg_rest q) = seg_rest q" using kn length_seg_rest [OF wf] by simp
      then have "forwarded t (q # qs) (accepted ([SockSend fd (seg_rest q) (\<not> seg_psh q) r] @ es)) t'"
        if "\<not> send_failed ([SockSend fd (seg_rest q) (\<not> seg_psh q) r] @ es)"
        using that forwarded_whole [OF wf conjunct1 [OF True] kn, folded t1_def, OF es(7)] acc
        by (simp del: append_Cons append_Nil)
      then show ?thesis
        using es(1-6) tr by (intro exI [of _ "[SockSend fd (seg_rest q) (\<not> seg_psh q) r] @ es"]) simp
    next
      case False
      with turn(1) Cons.prems(1) have f: "t' = t1\<lparr>t_forward := advance k q # qs\<rparr>" "w' = w1" by simp_all
      have "forwarded t (q # qs) (take k (seg_rest q)) t'"
        using forwarded_part [OF wf conjunct1 [OF True] turn(2)] by (simp add: f t1_def)
      then show ?thesis
        using f tr acc advance_wf(2) [OF wf turn(2)] Cons.prems(2)
        by (intro exI [of _ "[SockSend fd (seg_rest q) (\<not> seg_psh q) r]"]) (simp add: t1_def)
    qed
  qed
qed

section \<open>Effects of the handler\<close>

lemma quiet_send: "sys_send E fd b m w = (r, w') \<Longrightarrow> quiet w w'"
  unfolding quiet_def by (intro exI [of _ "[SockSend fd b m r]"]) (simp add: sys_send_trace)

lemma quiet_wrappers:
  "write_syn_ack E t w = Some (res, t', w') \<Longrightarrow> quiet w w'"
  "write_ack E t w = Some (res, t', w') \<Longrightarrow> quiet w w'"
  "write_data E t buf w = Some (res, t', w') \<Longrightarrow> quiet w w'"
  "write_fin_ack E t w = Some (res, t', w') \<Longrightarrow> quiet w w'"
  "write_rst E t w = Some (t', w') \<Longrightarrow> quiet w w'"
  by (auto dest!: wrapper_effects write_rst_effect intro: quiet_tun)

text \<open>Whether a step made a session closing, or left the state alone.\<close>

definition kept_or_closing :: "tcp_session \<Rightarrow> tcp_session \<Rightarrow> bool" where
  "kept_or_closing t t' \<longleftrightarrow>
     t_state t' = t_state t \<or> t_state t \<noteq> TCP_CLOSE \<and> t_state t' = TCP_CLOSING"

lemma kept_refl [simp]: "kept_or_closing t t"
  by (simp add: kept_or_closing_def)

lemma kept_trans: "kept_or_closing a b \<Longrightarrow> kept_or_closing b c \<Longrightarrow> kept_or_closing a c"
  by (auto simp: kept_or_closing_def)

lemma kept_eq: "t_state t' = t_state t \<Longrightarrow> kept_or_closing t t'"
  by (simp add: kept_or_closing_def)

lemma kept_rst: "write_rst E t w = Some (t', w') \<Longrightarrow> kept_or_closing t t'"
  by (auto simp: kept_or_closing_def frame_simps dest!: write_rst_effect)

lemma kept_wrappers:
  "acked_write t res t' \<Longrightarrow> t_state t \<noteq> TCP_CLOSE \<Longrightarrow> kept_or_closing t t'"
  by (auto simp: acked_write_def kept_or_closing_def)

lemma kept_path: "kept_or_closing t t' \<Longrightarrow> tcp_path (t_state t) (t_state t')"
  by (auto simp: kept_or_closing_def)

lemma forward_loop_frame:
  "forward_loop E fd room fwd qs t w = Some (fwd', t', w') \<Longrightarrow>
     kept_or_closing t t' \<and> quiet w w' \<and> t_recv_scale t' = t_recv_scale t
     \<and> t_version t' = t_version t \<and> t_dest t' = t_dest t
     \<and> (room = 0 \<longrightarrow> fwd' = fwd \<and> t' = t\<lparr>t_forward := qs\<rparr> \<and> w' = w)"
proof (induction E fd room fwd qs t w rule: forward_loop.induct)
  case (1 E fd room fwd t w)
  then show ?case by (auto simp: kept_or_closing_def)
next
  case (2 E fd room fwd q qs t w)
  show ?case
  proof (cases "seg_seq q + ucast (seg_sent q) = t_remote_seq t \<and> unsent q < room")
    case False
    with "2.prems" show ?thesis by (auto simp: kept_or_closing_def)
  next
    case True
    with "2.prems" obtain data where d: "outgoing t q = Some data" by (auto simp: bind_eq_Some_conv)
    obtain r w1 where s: "sys_send E fd data (\<not> seg_psh q) w = (r, w1)"
      by (cases "sys_send E fd data (\<not> seg_psh q) w")
    define sent where "sent = clip_sent r (size_sub (unat (seg_len q)) (unat (seg_sent q)))"
    define q1 where "q1 = q\<lparr>seg_sent := seg_sent q + of_int sent\<rparr>"
    define t1 where "t1 = t\<lparr>t_sent := t_sent t + of_int sent,
      t_remote_seq := seg_seq q1 + ucast (seg_sent q1)\<rparr>"
    note e = "2.prems" [unfolded forward_loop.simps d Option.bind.bind_lunit Let_def s prod.case
        if_P [OF True], folded sent_def, folded q1_def, folded t1_def]
    have qs: "quiet w w1" by (rule quiet_send [OF s])
    consider (again) "sent < 0" "r = Inl EINTR \<or> r = Inl EAGAIN"
      | (rst) "sent < 0" "\<not> (r = Inl EINTR \<or> r = Inl EAGAIN)"
      | (whole) "\<not> sent < 0" "seg_len q1 = seg_sent q1" | (part) "\<not> sent < 0" "seg_len q1 \<noteq> seg_sent q1"
      by blast
    then have fr: "kept_or_closing t t' \<and> quiet w w' \<and> t_recv_scale t' = t_recv_scale t
       \<and> t_version t' = t_version t \<and> t_dest t' = t_dest t"
    proof cases
      case again
      with e qs show ?thesis by (auto simp: kept_or_closing_def)
    next
      case rst
      with e obtain w2 where w: "write_rst E (t\<lparr>t_forward := q # qs\<rparr>) w1 = Some (t', w2)" "w' = w2"
        by (auto simp: bind_eq_Some_conv)
      have "kept_or_closing t (t\<lparr>t_forward := q # qs\<rparr>)" by (simp add: kept_or_closing_def)
      then have "kept_or_closing t t'" using kept_rst [OF w(1)] by (rule kept_trans)
      then show ?thesis
        using quiet_trans [OF qs quiet_wrappers(5) [OF w(1)]] w write_rst_effect [OF w(1)]
        by (simp add: frame_simps)
    next
      case whole
      with e have f: "forward_loop E fd (room - of_int sent) True qs t1 w1 = Some (fwd', t', w')" by simp
      have "kept_or_closing t1 t' \<and> quiet w1 w' \<and> t_recv_scale t' = t_recv_scale t1
          \<and> t_version t' = t_version t1 \<and> t_dest t' = t_dest t1"
        using "2.IH" [OF True, of data "(r, w1)" r w1 sent q1 t1] f whole s d
        by (simp add: sent_def q1_def t1_def)
      then show ?thesis using qs by (auto simp: t1_def kept_or_closing_def intro: quiet_trans)
    next
      case part
      with e qs show ?thesis by (auto simp: t1_def kept_or_closing_def)
    qed
    have "room \<noteq> 0" using True by auto
    with fr show ?thesis by simp
  qed
qed

subsection \<open>Reading\<close>

text \<open>The number of bytes asked for: the room of the peer, but at most one segment.\<close>

definition read_size :: "tcp_session \<Rightarrow> nat" where
  "read_size t = (if get_send_window t > ucast (t_mss t) then unat (t_mss t)
                  else unat (get_send_window t))"

lemma unat_read_size:
  "unat (if get_send_window t > ucast (t_mss t) then ucast (t_mss t) else get_send_window t) = read_size t"
  using unat_u16 [of "t_mss t"] by (simp add: read_size_def unat_ucast_mod)

text \<open>The outcomes of a read: try again, failure, end of the stream, data.\<close>

definition read_outcome ::
  "env \<Rightarrow> tcp_session ng_session \<Rightarrow> tcp_session \<Rightarrow> errno + bytes \<Rightarrow> world
     \<Rightarrow> tcp_session ng_session \<Rightarrow> world \<Rightarrow> bool" where
  "read_outcome E s t0 r w2 s' w' \<longleftrightarrow>
     (\<exists>e. r = Inl e \<and> e \<in> {EINTR, EAGAIN} \<and> s' = s\<lparr>ng_k := t0\<rparr> \<and> w' = w2)
     \<or> (\<exists>e t1. r = Inl e \<and> write_rst E t0 w2 = Some (t1, w') \<and> s' = s\<lparr>ng_k := t1\<rparr>)
     \<or> (\<exists>t1 w3. r = Inr [] \<and> tcp_eof E t0 w2 = Some (t1, w3)
          \<and> s' = s\<lparr>ng_k := t1, ng_socket := - 1\<rparr> \<and> w' = sys_close (ng_socket s) w3)
     \<or> (\<exists>buf res t1. r = Inr buf \<and> buf \<noteq> []
          \<and> write_data E (t0\<lparr>t_received := t_received t0 + of_nat (length buf)\<rparr>) buf w2 = Some (res, t1, w')
          \<and> s' = s\<lparr>ng_k := (if res \<ge> 0 then t1\<lparr>t_local_seq := t_local_seq t1 + of_nat (length buf)\<rparr>
                              else t1)\<rparr>)"

lemma tcp_receive_cases:
  assumes "tcp_receive E ev s w = Some (s', w')"
  obtains (skip) "\<not> (ev AND EPOLLIN \<noteq> 0 \<and> get_send_window (ng_k s) > 0)" "s' = s" "w' = w"
  | (active) t0 r w2 where
      "ev AND EPOLLIN \<noteq> 0" "get_send_window (ng_k s) > 0"
      "t0 = (ng_k s)\<lparr>t_time := e_time E (w_tick w)\<rparr>"
      "sys_recv E (ng_socket s) (read_size (ng_k s)) (tick w) = (r, w2)"
      "read_outcome E s t0 r w2 s' w'"
proof (cases "ev AND EPOLLIN \<noteq> 0 \<and> get_send_window (ng_k s) > 0")
  case False
  with assms show thesis by (intro skip) (auto simp: tcp_receive_def Let_def)
next
  case True
  let ?t0 = "(ng_k s)\<lparr>t_time := e_time E (w_tick w)\<rparr>"
  obtain r w2 where r: "sys_recv E (ng_socket s) (read_size (ng_k s)) (tick w) = (r, w2)"
    by (cases "sys_recv E (ng_socket s) (read_size (ng_k s)) (tick w)")
  have g: "t_mss ?t0 = t_mss (ng_k s)" by simp
  note a = assms [unfolded tcp_receive_def Let_def sys_time_def prod.case if_P [OF True] g unat_read_size r]
  have "read_outcome E s ?t0 r w2 s' w'"
  proof (cases r)
    case (Inl e)
    with a show ?thesis
      unfolding read_outcome_def by (auto simp: bind_eq_Some_conv split: if_splits)
  next
    case (Inr buf)
    show ?thesis
    proof (cases "buf = []")
      case True
      with a Inr show ?thesis unfolding read_outcome_def by (auto simp: bind_eq_Some_conv Let_def)
    next
      case False
      let ?t1 = "?t0\<lparr>t_received := t_received ?t0 + of_nat (length buf)\<rparr>"
      from a Inr False obtain res t1 where "write_data E ?t1 buf w2 = Some (res, t1, w')"
        "s' = s\<lparr>ng_k := (if res \<ge> 0 then t1\<lparr>t_local_seq := t_local_seq t1 + of_nat (length buf)\<rparr> else t1)\<rparr>"
        by (simp add: bind_eq_Some_conv Let_def split del: if_split) blast
      with Inr False show ?thesis unfolding read_outcome_def by blast
    qed
  qed
  then show thesis by (rule active [OF conjunct1 [OF True] conjunct2 [OF True] refl r])
qed

subsection \<open>The contract of a handler\<close>

text \<open>
  What every handler of a TCP session keeps: it moves along the abstract machine, keeps the
  invariant, opens nothing, and closes at most the session's own open socket, after which the
  session holds none.
\<close>

definition handled ::
  "tcp_session ng_session \<Rightarrow> world \<Rightarrow> tcp_session ng_session \<Rightarrow> world \<Rightarrow> bool" where
  "handled s w s' w' \<longleftrightarrow>
     tcp_path (t_state (ng_k s)) (t_state (ng_k s')) \<and> tcp_inv s' \<and> sock_change ng_socket ng_ptr s w s' w'"

lemmas handled_defs = handled_def sock_change_def

lemma handled_quiet:
  assumes "kept_or_closing (ng_k s) t'" "quiet w w'" "tcp_inv s"
  shows "handled s w (s\<lparr>ng_k := t'\<rparr>) w'"
  using assms kept_path [OF assms(1)] quiet_ledger [OF assms(2)]
  by (auto simp: handled_defs tcp_inv_def kept_or_closing_def)

lemma handled_step:
  assumes "quiet w w1" "handled (s\<lparr>ng_k := t1\<rparr>) w1 s' w'" "tcp_path (t_state (ng_k s)) (t_state t1)"
  shows "handled s w s' w'"
  using assms quiet_ledger [OF assms(1)] by (auto simp: handled_defs intro: rtranclp_trans)

lemma sys_recv_open: "sys_recv E fd n w = (Inr b, w') \<Longrightarrow> 0 \<le> fd"
  by (auto simp: sys_recv_def split: if_splits)

lemma tcp_eof_spec:
  assumes "tcp_eof E t w = Some (t', w')" "t_state t \<in> {TCP_ESTABLISHED, TCP_CLOSE_WAIT}"
  shows "quiet w w' \<and> tcp_path (t_state t) (t_state t')
    \<and> t_state t' \<in> {TCP_CLOSING, if t_state t = TCP_ESTABLISHED then TCP_FIN_WAIT1 else TCP_LAST_ACK}"
proof (cases "t_forward t = []")
  case False
  with assms have r: "write_rst E t w = Some (t', w')" by (simp add: tcp_eof_def)
  show ?thesis
    using quiet_wrappers(5) [OF r] write_rst_effect [OF r] assms(2) by (auto simp: frame_simps)
next
  case True
  with assms obtain res t1 where f: "write_fin_ack E t w = Some (res, t1, w')"
    and e: "t' = (let t = (if res \<ge> 0 then t1\<lparr>t_local_seq := t_local_seq t1 + 1\<rparr> else t1)
             in if t_state t = TCP_ESTABLISHED then t\<lparr>t_state := TCP_FIN_WAIT1\<rparr>
                else if t_state t = TCP_CLOSE_WAIT then t\<lparr>t_state := TCP_LAST_ACK\<rparr> else t)"
    by (auto simp: tcp_eof_def bind_eq_Some_conv Let_def split del: if_split)
  have t': "t_state t' = (if t_state t1 = TCP_ESTABLISHED then TCP_FIN_WAIT1
        else if t_state t1 = TCP_CLOSE_WAIT then TCP_LAST_ACK else t_state t1)"
    unfolding e by (simp add: Let_def)
  have "acked_write t res t1" using wrapper_effects(4) [OF f] by blast
  then have "t_state t1 = t_state t \<or> t_state t1 = TCP_CLOSING" by (auto simp: acked_write_def)
  with t' assms(2) have "t_state t' = TCP_CLOSING
      \<or> t_state t = TCP_ESTABLISHED \<and> t_state t' = TCP_FIN_WAIT1
      \<or> t_state t = TCP_CLOSE_WAIT \<and> t_state t' = TCP_LAST_ACK" by auto
  then show ?thesis
    using quiet_wrappers(4) [OF f] assms(2) by auto
qed

lemma tcp_receive_handled:
  assumes "tcp_receive E ev s w = Some (s', w')" "tcp_inv s"
    and "t_state (ng_k s) \<in> {TCP_ESTABLISHED, TCP_CLOSE_WAIT}"
  shows "handled s w s' w'"
  using assms(1)
proof (cases rule: tcp_receive_cases)
  case skip
  then show ?thesis using handled_quiet [of s "ng_k s" w w] assms(2) by simp
next
  case (active t0 r w2)
  have st: "t_state t0 = t_state (ng_k s)" by (simp add: active(3))
  have q2: "quiet w w2" using quiet_recv [OF active(4)] quiet_tick by (rule quiet_trans [rotated])
  from active(5) [unfolded read_outcome_def] show ?thesis
  proof (elim disjE exE conjE)
    fix e assume "s' = s\<lparr>ng_k := t0\<rparr>" "w' = w2"
    then show ?thesis using handled_quiet [OF _ q2 assms(2), of t0] st by (simp add: kept_eq)
  next
    fix e t1 assume r: "write_rst E t0 w2 = Some (t1, w')" and s': "s' = s\<lparr>ng_k := t1\<rparr>"
    have "kept_or_closing (ng_k s) t1" using kept_trans [OF kept_eq [OF st] kept_rst [OF r]] .
    then show ?thesis
      unfolding s' by (rule handled_quiet [OF _ quiet_trans [OF q2 quiet_wrappers(5) [OF r]] assms(2)])
  next
    fix t1 w3 assume r: "r = Inr []" and f: "tcp_eof E t0 w2 = Some (t1, w3)"
      and s': "s' = s\<lparr>ng_k := t1, ng_socket := - 1\<rparr>" "w' = sys_close (ng_socket s) w3"
    have "0 \<le> ng_socket s" using active(4) unfolding r by (rule sys_recv_open)
    moreover have "quiet w w3" using q2 tcp_eof_spec [OF f] st assms(3) by (auto intro: quiet_trans)
    ultimately show ?thesis
      using tcp_eof_spec [OF f] st assms(3) s' quiet_ledger [of w w3]
      by (simp add: handled_defs tcp_inv_def sys_close_def)
  next
    fix buf res t1
    assume d: "write_data E (t0\<lparr>t_received := t_received t0 + of_nat (length buf)\<rparr>) buf w2 = Some (res, t1, w')"
      and s': "s' = s\<lparr>ng_k := (if res \<ge> 0 then t1\<lparr>t_local_seq := t_local_seq t1 + of_nat (length buf)\<rparr> else t1)\<rparr>"
    let ?t = "t0\<lparr>t_received := t_received t0 + of_nat (length buf)\<rparr>"
    have "acked_write ?t res t1" using wrapper_effects(3) [OF d] by blast
    then have "kept_or_closing ?t t1" using st assms(3) by (intro kept_wrappers) auto
    then have "kept_or_closing (ng_k s)
        (if res \<ge> 0 then t1\<lparr>t_local_seq := t_local_seq t1 + of_nat (length buf)\<rparr> else t1)"
      using st by (auto simp: kept_or_closing_def)
    then show ?thesis
      unfolding s' by (rule handled_quiet [OF _ quiet_trans [OF q2 quiet_wrappers(3) [OF d]] assms(2)])
  qed
qed

subsection \<open>The handler\<close>

lemma drain_trace:
  assumes "drain E fd w = Some w'"
  shows "w_trace w' = w_trace w"
proof (rule drain.raw_induct [OF _ assms])
  fix dr E fd w w'
  assume IH: "\<And>fd w b y. dr fd w b = Some y \<Longrightarrow> w_trace y = w_trace b"
    and d: "(let (r, w) = sys_recv E fd 512 w
      in case r of Inl e \<Rightarrow> Some w | Inr b \<Rightarrow> if b = [] then Some w else dr E fd w) = Some w'"
  obtain r w1 where r: "sys_recv E fd 512 w = (r, w1)" by (cases "sys_recv E fd 512 w")
  have "w_trace w1 = w_trace w" using sys_traces(8) [of E fd 512 w] r by simp
  with IH d r show "w_trace w' = w_trace w" by (auto split: sum.splits if_splits)
qed

lemma closed_window:
  assumes "get_receive_window E s w = Some (win, w')"
  shows "quiet w w' \<and> (ng_socket s < 0 \<longrightarrow> win = 0)"
  using assms get_receive_buffer_trace [of E s w]
  by (auto simp: get_receive_window_def get_receive_buffer_def Let_def shl32_def shr32_def
      intro!: quiet_same split: if_splits prod.splits option.splits)

lemma tcp_forward_frame:
  assumes "tcp_forward E ev s w = Some (fwd, t, w')"
  shows "kept_or_closing (ng_k s) t \<and> quiet w w' \<and> (ng_socket s < 0 \<longrightarrow> \<not> fwd)"
proof (cases "ev AND EPOLLOUT \<noteq> 0")
  case True
  obtain buf wb where b: "get_receive_buffer E s w = (buf, wb)" by (cases "get_receive_buffer E s w")
  have "quiet w wb" using get_receive_buffer_trace [of E s w] b by (intro quiet_same) simp
  moreover have "ng_socket s < 0 \<Longrightarrow> buf = 0" using b by (simp add: get_receive_buffer_def)
  moreover have "forward_loop E (ng_socket s) (of_int buf) False (t_forward (ng_k s)) (ng_k s) wb
      = Some (fwd, t, w')" using assms True b by (simp add: tcp_forward_def)
  from forward_loop_frame [OF this] have "kept_or_closing (ng_k s) t" "quiet wb w'" "buf = 0 \<Longrightarrow> \<not> fwd"
    by simp_all
  ultimately show ?thesis by (auto intro: quiet_trans)
next
  case False
  with assms show ?thesis by (simp add: tcp_forward_def)
qed

lemma tcp_ack_forwarded_frame:
  assumes "tcp_ack_forwarded E fwd win t w = Some (t', w')"
    and "fwd \<or> win > 0 \<Longrightarrow> t_state t \<noteq> TCP_CLOSE"
  shows "kept_or_closing t t' \<and> quiet w w'"
proof (cases "fwd \<or> (t_recv_window t = 0 \<and> win > 0)")
  case False
  with assms(1) show ?thesis by (auto simp: tcp_ack_forwarded_def Let_def kept_or_closing_def)
next
  case True
  define t2 where "t2 = (if fwd \<and> t_forward t = [] \<and> t_state t = TCP_CLOSE_WAIT
    then t\<lparr>t_recv_window := win, t_remote_seq := t_remote_seq t + 1\<rparr> else t\<lparr>t_recv_window := win\<rparr>)"
  have st2: "t_state t2 = t_state t" by (simp add: t2_def)
  have e: "tcp_ack_forwarded E fwd win t w = do { (res, t, w) \<leftarrow> write_ack E t2 w;
      if res \<ge> 0 then Some (t\<lparr>t_time := e_time E (w_tick w)\<rparr>, tick w) else Some (t, w) }"
    unfolding tcp_ack_forwarded_def t2_def sys_time_def Let_def prod.case using True by simp
  from assms(1) obtain res t3 w3 where r: "write_ack E t2 w = Some (res, t3, w3)"
    and t': "t_state t' = t_state t3" "w_trace w' = w_trace w3"
    unfolding e by (auto simp: bind_eq_Some_conv split: if_splits)
  have "acked_write t2 res t3" using wrapper_effects(2) [OF r] by blast
  then have "kept_or_closing t2 t3" using assms(2) True st2 by (intro kept_wrappers) auto
  then show ?thesis
    using t' st2 quiet_wrappers(2) [OF r] by (auto simp: kept_or_closing_def quiet_def)
qed

lemma tcp_transfer_handled:
  assumes "tcp_transfer E ev s w = Some (s', w')" "tcp_inv s"
  shows "handled s w s' w'"
proof -
  from assms(1) obtain fwd t1 w1 win w2 t3 w3 where
    f: "tcp_forward E ev s w = Some (fwd, t1, w1)"
    and g: "get_receive_window E (s\<lparr>ng_k := t1\<rparr>) w1 = Some (win, w2)"
    and a: "tcp_ack_forwarded E fwd win t1 w2 = Some (t3, w3)"
    and c: "(if t_state t3 = TCP_ESTABLISHED \<or> t_state t3 = TCP_CLOSE_WAIT
             then tcp_receive E ev (s\<lparr>ng_k := t3\<rparr>) w3 else Some (s\<lparr>ng_k := t3\<rparr>, w3)) = Some (s', w')"
    by (auto simp: tcp_transfer_def bind_eq_Some_conv split del: if_split)
  note f1 = tcp_forward_frame [OF f]
  have g1: "quiet w1 w2" "ng_socket s < 0 \<Longrightarrow> win = 0" using closed_window [OF g] by simp_all
  have "t_state t1 \<noteq> TCP_CLOSE" if "fwd \<or> win > 0"
  proof -
    have "0 \<le> ng_socket s" using f1 g1(2) that by force
    then show ?thesis using assms(2) f1 by (auto simp: tcp_inv_def kept_or_closing_def)
  qed
  with a have "kept_or_closing t1 t3 \<and> quiet w2 w3" by (rule tcp_ack_forwarded_frame)
  then have k: "kept_or_closing (ng_k s) t3" "quiet w w3"
    using f1 g1(1) by (auto intro: kept_trans quiet_trans)
  have inv3: "tcp_inv (s\<lparr>ng_k := t3\<rparr>)"
    using assms(2) k(1) by (auto simp: tcp_inv_def kept_or_closing_def)
  show ?thesis
  proof (cases "t_state t3 = TCP_ESTABLISHED \<or> t_state t3 = TCP_CLOSE_WAIT")
    case True
    with c have r: "tcp_receive E ev (s\<lparr>ng_k := t3\<rparr>) w3 = Some (s', w')" by simp
    have "handled (s\<lparr>ng_k := t3\<rparr>) w3 s' w'" using True by (intro tcp_receive_handled [OF r inv3]) auto
    then show ?thesis by (rule handled_step [OF k(2)]) (rule kept_path [OF k(1)])
  next
    case False
    with c show ?thesis using handled_quiet [OF k assms(2)] by simp
  qed
qed

lemma tcp_proxy_reply_cases:
  assumes "tcp_proxy_reply E s w = Some (t, w')"
    and x: "sys_recv E (ng_socket s) 12 w = (x, w1)"
  obtains (rst) "write_rst E (ng_k s) w1 = Some (t, w')"
    | (up) b where "x = Inr b" "t_connect_sent (ng_k s) = TCP_CONNECT_SENT"
        "cstr b = lit ''HTTP/1.0 200'' \<or> cstr b = lit ''HTTP/1.1 200''"
        "drain E (ng_socket s) w1 = Some w'"
        "t = (ng_k s)\<lparr>t_connect_sent := TCP_CONNECT_ESTABLISHED, t_state := TCP_SYN_RECV\<rparr>"
    | (same) "t = ng_k s" "w' = w1"
proof -
  note a = assms(1) [unfolded tcp_proxy_reply_def Let_def x prod.case]
  show thesis
  proof (cases x)
    case (Inl e)
    with a show thesis by (intro rst) simp
  next
    case (Inr b)
    let ?ok = "cstr b = lit ''HTTP/1.0 200'' \<or> cstr b = lit ''HTTP/1.1 200''"
    consider "t_connect_sent (ng_k s) \<noteq> TCP_CONNECT_SENT"
      | "t_connect_sent (ng_k s) = TCP_CONNECT_SENT" "?ok"
      | "t_connect_sent (ng_k s) = TCP_CONNECT_SENT" "\<not> ?ok" by blast
    then show thesis
    proof cases
      case 1
      with a Inr show thesis by (intro same) simp_all
    next
      case 2
      from a [unfolded Inr sum.case if_P [OF 2(1)] if_P [OF 2(2)]] obtain w2 where
        "drain E (ng_socket s) w1 = Some w2" "w' = w2"
        "t = (ng_k s)\<lparr>t_connect_sent := TCP_CONNECT_ESTABLISHED, t_state := TCP_SYN_RECV\<rparr>"
        by (cases "drain E (ng_socket s) w1") simp_all
      with Inr 2 show thesis by (intro up) simp_all
    next
      case 3
      from a [unfolded Inr sum.case if_P [OF 3(1)] if_not_P [OF 3(2)]] show thesis by (rule rst)
    qed
  qed
qed

lemma check_tcp_socket_handled:
  assumes "check_tcp_socket E ev s w = Some (s', w')" "tcp_inv s"
  shows "handled s w s' w'"
proof -
  consider (err) "ev AND EPOLLERR \<noteq> 0"
    | (reply) "ev AND EPOLLERR = 0" "t_state (ng_k s) = TCP_LISTEN" "ev AND EPOLLIN \<noteq> 0"
    | (up) "ev AND EPOLLERR = 0" "t_state (ng_k s) = TCP_LISTEN" "ev AND EPOLLIN = 0"
    | (transfer) "ev AND EPOLLERR = 0" "t_state (ng_k s) \<noteq> TCP_LISTEN"
    by blast
  then show ?thesis
  proof cases
    case err
    let ?t = "(ng_k s)\<lparr>t_time := e_time E (w_tick w)\<rparr>"
    from assms(1) err obtain t where r: "write_rst E ?t (tick w) = Some (t, w')" "s' = s\<lparr>ng_k := t\<rparr>"
      by (auto simp: check_tcp_socket_def sys_time_def bind_eq_Some_conv)
    have "kept_or_closing (ng_k s) t" using kept_rst [OF r(1)] by (simp add: kept_or_closing_def)
    then show ?thesis
      unfolding r(2)
      by (rule handled_quiet [OF _ quiet_trans [OF quiet_tick quiet_wrappers(5) [OF r(1)]] assms(2)])
  next
    case reply
    from assms(1) reply obtain t where r: "tcp_proxy_reply E s w = Some (t, w')" "s' = s\<lparr>ng_k := t\<rparr>"
      by (auto simp: check_tcp_socket_def bind_eq_Some_conv)
    obtain x w1 where x: "sys_recv E (ng_socket s) 12 w = (x, w1)"
      by (cases "sys_recv E (ng_socket s) 12 w")
    have q1: "quiet w w1" by (rule quiet_recv [OF x])
    from r(1) x show ?thesis
    proof (cases rule: tcp_proxy_reply_cases)
      case rst
      show ?thesis
        unfolding r(2)
        by (rule handled_quiet [OF kept_rst [OF rst] quiet_trans [OF q1 quiet_wrappers(5) [OF rst]] assms(2)])
    next
      case (up b)
      have "quiet w w'" using q1 drain_trace [OF up(4)] by (auto intro: quiet_trans quiet_same)
      moreover have "t_state t = TCP_SYN_RECV" by (simp add: up(5))
      ultimately show ?thesis
        using r(2) reply(2) quiet_ledger [of w w'] by (simp add: handled_defs tcp_inv_def)
    next
      case same
      then show ?thesis using r(2) handled_quiet [OF kept_refl q1 assms(2)] by simp
    qed
  next
    case up
    let ?t = "(ng_k s)\<lparr>t_remote_seq := t_remote_seq (ng_k s) + 1\<rparr>"
    from assms(1) up obtain t where c: "tcp_connected E (ng_k s) w = Some (t, w')" "s' = s\<lparr>ng_k := t\<rparr>"
      by (auto simp: check_tcp_socket_def bind_eq_Some_conv)
    from c(1) obtain res t1 w1 where a: "write_syn_ack E ?t w = Some (res, t1, w1)"
      and e: "(if res \<ge> 0 then Some (t1\<lparr>t_time := e_time E (w_tick w1), t_local_seq := t_local_seq t1 + 1,
          t_state := TCP_SYN_RECV\<rparr>, tick w1) else Some (t1, w1)) = Some (t, w')"
      unfolding tcp_connected_def sys_time_def Let_def prod.case
      by (auto simp: bind_eq_Some_conv split del: if_split)
    have t: "t_state t = (if res \<ge> 0 then TCP_SYN_RECV else t_state t1)" "w_trace w' = w_trace w1"
      using e by (cases "res \<ge> 0"; auto)+
    have "acked_write ?t res t1" using wrapper_effects(1) [OF a] by blast
    then have "t_state t \<in> {TCP_SYN_RECV, TCP_CLOSING}" using t(1) up(2) by (auto simp: acked_write_def)
    moreover have "quiet w w'" using quiet_wrappers(1) [OF a] t(2) by (simp add: quiet_def)
    ultimately show ?thesis
      using c(2) up(2) quiet_ledger [of w w'] by (auto simp: handled_defs tcp_inv_def)
  next
    case transfer
    with assms(1) have "tcp_transfer E ev s w = Some (s', w')" by (simp add: check_tcp_socket_def)
    then show ?thesis using assms(2) by (rule tcp_transfer_handled)
  qed
qed

section \<open>Properties\<close>


definition sample_fwd :: "tcp_session ng_session" where
  "sample_fwd = sample_ng\<lparr>ng_k := sample_queued\<rparr>"


text \<open>
  A failing \<open>send\<close> loses data: because its result is compared with the unsigned length, the
  error branch is never taken, and a segment of which the kernel took nothing (a full socket
  buffer, \<open>EAGAIN\<close>, included) is removed from the queue and counted as forwarded, so that
  the acknowledgement that follows confirms bytes that were never sent.
\<close>

theorem send_failure_drops_segment:
  assumes "seg_wf q" and "htons (t_dest t) \<noteq> 80" and "seg_seq q + ucast (seg_sent q) = t_remote_seq t"
    and "unsent q < room" and "e_send E (w_tick w) fd = Inl e" and "0 \<le> fd"
  shows "\<exists>w'. forward_loop E fd room False [q] t w =
      Some (True, t\<lparr>t_sent := t_sent t + of_nat (length (seg_rest q)),
                    t_remote_seq := t_remote_seq t + of_nat (length (seg_rest q)),
                    t_forward := []\<rparr>, w')
    \<and> w_trace w' = w_trace w @ [SockSend fd (seg_rest q) (\<not> seg_psh q) (Inl e)]"
proof -
  obtain w1 where s: "sys_send E fd (seg_rest q) (\<not> seg_psh q) w = (Inl e, w1)"
    using assms(5,6) by (simp add: sys_send_def Let_def)
  have n: "unat (seg_len q) - unat (seg_sent q) < 65536" using unat_u16 [of "seg_len q"] by simp
  show ?thesis
    using forward_loop_turn(1) [OF assms(1-4) s, of False "[]"] sys_send_trace [OF s]
      length_seg_rest [OF assms(1)] clip_sent_fail [OF n, of e]
    by simp
qed

theorem send_failure_drops_segment_witness:
  "\<exists>w'. forward_loop (calm\<lparr>e_send := (\<lambda>n fd. Inl EAGAIN)\<rparr>) 9 65536 False
       [new_segment 1000 True [1, 2]] sample_queued start =
      Some (True, sample_queued\<lparr>t_sent := t_sent sample_queued + 2,
                    t_remote_seq := t_remote_seq sample_queued + 2, t_forward := []\<rparr>, w')
    \<and> accepted (w_trace w') = []"
proof -
  let ?g = "new_segment 1000 True [1, 2]"
  have q: "t_remote_seq sample_queued = 1000" "ntohs (t_dest sample_queued) = 443"
    by (simp_all add: sample_queued_def sample_tcp_def)
  have g: "seg_wf ?g" "seg_rest ?g = [1, 2]" "seg_seq ?g + ucast (seg_sent ?g) = 1000" "unsent ?g < 65536"
    by (simp_all add: seg_wf_def seg_rest_def unsent_def new_segment_def)
  show ?thesis
    using send_failure_drops_segment [of ?g sample_queued 65536 "calm\<lparr>e_send := (\<lambda>n fd. Inl EAGAIN)\<rparr>"
        start 9 EAGAIN] g q by (auto simp: start_def)
qed

text \<open>
  C23. Data read from the socket reaches the peer once and in sequence: at most as much is read as
  the peer has room for and as fits in a segment; it is written in one packet with the session's
  local sequence number, which then advances by the number of bytes; if the packet cannot be
  written the number stays and the session is closing.
\<close>

theorem tcp_read_to_tunnel:
  assumes "tcp_receive E ev s w = Some (s', w')" and "ev AND EPOLLIN \<noteq> 0"
    and "get_send_window (ng_k s) > 0" and "0 < t_mss (ng_k s)" and "0 \<le> ng_socket s"
    and "e_recv E (w_tick w + 1) (ng_socket s) = Inr b" and "b \<noteq> []"
  defines "t \<equiv> ng_k s" and "buf \<equiv> take (read_size (ng_k s)) b"
  shows "length buf \<le> unat (get_send_window t) \<and> length buf \<le> unat (t_mss t) \<and> buf \<noteq> []
    \<and> (\<exists>t0 p. t_local_seq t0 = t_local_seq t \<and> t_remote_seq t0 = t_remote_seq t
         \<and> tcp_packet t0 buf False True False False = Some p \<and> w_trace w' = w_trace w @ [TunWrite p])
    \<and> (t_state (ng_k s') = t_state t \<and> t_local_seq (ng_k s') = t_local_seq t + of_nat (length buf)
       \<or> t_state (ng_k s') = TCP_CLOSING \<and> t_local_seq (ng_k s') = t_local_seq t)"
  using assms(1)
proof (cases rule: tcp_receive_cases)
  case skip
  with assms(2,3) show ?thesis by simp
next
  case (active t0 r w2)
  have "r = Inr buf"
    using active(4) assms(5,6) by (simp add: sys_recv_def buf_def)
  have rs: "0 < read_size t" "read_size t \<le> unat (get_send_window t)" "read_size t \<le> unat (t_mss t)"
    using assms(3,4) unat_u16 [of "t_mss t"]
    by (auto simp: read_size_def t_def word_less_nat_alt unat_ucast_mod)
  then have b: "buf \<noteq> []" "length buf \<le> read_size t" using assms(7) by (simp_all add: buf_def t_def)
  let ?t1 = "t0\<lparr>t_received := t_received t0 + of_nat (length buf)\<rparr>"
  from active(5) b(1) \<open>r = Inr buf\<close> obtain res t1 where
    d: "write_data E ?t1 buf w2 = Some (res, t1, w')"
    and s': "s' = s\<lparr>ng_k := (if res \<ge> 0 then t1\<lparr>t_local_seq := t_local_seq t1 + of_nat (length buf)\<rparr> else t1)\<rparr>"
    by (auto simp: read_outcome_def split del: if_split)
  have w2: "w_trace w2 = w_trace w"
    using sys_traces(8) [of E "ng_socket s" "read_size (ng_k s)" "tick w"] active(4) by simp
  obtain p where p: "tcp_packet ?t1 buf False True False False = Some p" "w_trace w' = w_trace w2 @ [TunWrite p]"
    and a: "acked_write ?t1 res t1" using wrapper_effects(3) [OF d] by blast
  have t1: "t_local_seq ?t1 = t_local_seq t" "t_remote_seq ?t1 = t_remote_seq t" "t_state ?t1 = t_state t"
    by (simp_all add: active(3) t_def)
  have "t_state (ng_k s') = t_state t \<and> t_local_seq (ng_k s') = t_local_seq t + of_nat (length buf)
      \<or> t_state (ng_k s') = TCP_CLOSING \<and> t_local_seq (ng_k s') = t_local_seq t"
    using a t1 unfolding acked_write_def by (elim disjE conjE) (simp_all add: s')
  moreover have "\<exists>t0 p. t_local_seq t0 = t_local_seq t \<and> t_remote_seq t0 = t_remote_seq t
      \<and> tcp_packet t0 buf False True False False = Some p \<and> w_trace w' = w_trace w @ [TunWrite p]"
    using p t1(1,2) w2 by (intro exI [of _ ?t1] exI [of _ p]) simp
  ultimately show ?thesis using b rs by simp
qed


definition talkative :: env where
  "talkative = calm\<lparr>e_recv := (\<lambda>n fd. Inr [5, 6])\<rparr>"

definition sample_open :: "tcp_session ng_session" where
  "sample_open = sample_ng\<lparr>ng_k := sample_acked\<rparr>"

lemma sample_open_simps [simp]:
  "ng_socket sample_open = 9" "t_state (ng_k sample_open) = TCP_ESTABLISHED"
  "t_mss (ng_k sample_open) = 1460" "get_send_window (ng_k sample_open) = 65529"
  "t_recv_scale (ng_k sample_open) = 7" "t_local_seq (ng_k sample_open) = 77"
  "t_forward (ng_k sample_open) = []"
proof -
  have f: "t_acked sample_acked = 70" "t_local_seq sample_acked = 77" "t_send_window sample_acked = 65536"
    by (simp_all add: sample_acked_def sample_tcp_def)
  have "\<not> compare_u32 70 77 > 0" by (simp only: compare_u32_pos_iff) simp
  then show "get_send_window (ng_k sample_open) = 65529"
    by (simp add: get_send_window_def f sample_open_def)
qed (simp_all add: sample_open_def sample_ng_def sample_acked_def sample_tcp_def)

lemma write_data_some:
  "unat (t_recv_scale cur) < 32 \<Longrightarrow> \<exists>res t w'. write_data E cur data w = Some (res, t, w')"
  using wrapper_defined [of E cur data False True False False w]
  by (auto simp: write_data_def)

theorem tcp_read_to_tunnel_witness:
  "\<exists>s' w'. tcp_receive talkative EPOLLIN sample_open start = Some (s', w')
    \<and> (\<exists>t0 p. t_local_seq t0 = 77 \<and> tcp_packet t0 [5, 6] False True False False = Some p
         \<and> w_trace w' = [TunWrite p])"
proof -
  have b: "e_recv talkative (w_tick start + 1) (ng_socket sample_open) = Inr [5, 6]"
    by (simp add: talkative_def)
  have rs: "take (read_size (ng_k sample_open)) [5, 6 :: u8] = [5, 6]"
    by (simp add: read_size_def)
  let ?t1 = "(ng_k sample_open)\<lparr>t_time := e_time talkative 0,
      t_received := t_received (ng_k sample_open) + 2\<rparr>"
  have "unat (t_recv_scale ?t1) < 32" by simp
  from write_data_some [OF this] obtain res t1 w1 where
    d: "write_data talkative ?t1 [5, 6] (tick (tick start)) = Some (res, t1, w1)" by blast
  have rc: "sys_recv talkative 9 (unat (if get_send_window (ng_k sample_open) > ucast (t_mss (ng_k sample_open))
      then ucast (t_mss (ng_k sample_open)) else get_send_window (ng_k sample_open))) (tick start)
      = (Inr [5, 6], tick (tick start))"
    by (simp add: sys_recv_def talkative_def)
  have "\<exists>r. tcp_receive talkative EPOLLIN sample_open start = Some r"
    using d rc by (simp add: tcp_receive_def sys_time_def epoll_bits Let_def start_def)
  then obtain s' w' where r: "tcp_receive talkative EPOLLIN sample_open start = Some (s', w')" by auto
  have "\<exists>t0 p. t_local_seq t0 = 77 \<and> tcp_packet t0 [5, 6] False True False False = Some p
      \<and> w_trace w' = [TunWrite p]"
    using tcp_read_to_tunnel [OF r _ _ _ _ b] rs by (auto simp: epoll_bits start_def)
  with r show ?thesis by blast
qed


end
