(* ===== verification/TcpHandle.thy ===== *)
theory TcpHandle
  imports TcpSocket Tls
begin

text \<open>
  \<open>handle_tcp\<close>: what happens when a TCP packet comes out of the tunnel. The first part of the theory
  is the translation, in the order of the source: the options of a SYN, opening the socket towards
  the server or the proxy, the new session, the \<open>CONNECT\<close> request of port 443, the packet of a
  known session. Then come the facts about the routines and the properties.

  The packet lies in the buffer \<open>m\<close> of the tunnel's reader, of which \<open>len\<close> bytes were read.
\<close>

section \<open>Options\<close>

text \<open>One option: its kind, its length and what it changes.\<close>

definition tcp_option :: "bytes \<Rightarrow> nat \<Rightarrow> u16 \<Rightarrow> u8 \<Rightarrow> (u8 \<times> u8 \<times> u16 \<times> u8) option" where
  "tcp_option m p mss ws =
     do { kind \<leftarrow> rd8 m p;
          len \<leftarrow> rd8 m (p + 1);
          if kind = 2 \<and> len = 4 then do { v \<leftarrow> rd16 m (p + 2); Some (kind, len, ntohs v, ws) }
          else if kind = 3 \<and> len = 3 then do { v \<leftarrow> rd8 m (p + 2); Some (kind, len, mss, v) }
          else Some (kind, len, mss, ws) }"

text \<open>
  The loop over the options. The outer \<open>None\<close> is the loop that never ends, the inner one a read
  outside the buffer.
\<close>

partial_function (option) tcp_options ::
  "bytes \<Rightarrow> nat \<Rightarrow> int \<Rightarrow> u16 \<Rightarrow> u8 \<Rightarrow> (u16 \<times> u8) option option" where
  "tcp_options m p optlen mss ws =
     (if optlen \<le> 0 then Some (Some (mss, ws))
      else (case tcp_option m p mss ws of
              None \<Rightarrow> Some None
            | Some (kind, len, mss', ws') \<Rightarrow>
                if kind = 0 then Some (Some (mss, ws))
                else if kind = 1 then tcp_options m (p + 1) (optlen - 1) mss' ws'
                else tcp_options m (p + unat len) (optlen - int (unat len)) mss' ws'))"

declare tcp_options.simps [code]

section \<open>Opening the socket\<close>

text \<open>Ports 80 and 443 are redirected to the proxy, all others go to the server.\<close>

definition open_tcp_socket :: "env \<Rightarrow> tcp_session \<Rightarrow> allowed \<Rightarrow> world \<Rightarrow> int \<times> world" where
  "open_tcp_socket E cur redirect w =
     (let rport = htons (t_dest cur);
          redirect = (if rport \<noteq> 80 \<and> rport \<noteq> 443 then None else Some redirect);
          version = (case redirect of None \<Rightarrow> t_version cur
                     | Some r \<Rightarrow> if of_char CHR '':'' \<in> set (al_raddr r) then 6 else 4);
          (r, w) = sys_socket E (if version = 4 then 4 else 6) w
      in case r of Inl e \<Rightarrow> (- 1, w)
         | Inr sock \<Rightarrow>
             let (prot, w) = protect_socket E sock w in
             if prot < 0 then (- 1, w) else
             let (flags, w) = sys_fcntl E sock w in
             if flags < 0 then (- 1, w) else
             let (res, w) = sys_fcntl E sock w in
             if res < 0 then (- 1, w) else
             let (addr, port) = (case redirect of
                    None \<Rightarrow> (if version = 4 then ip4 (t_daddr cur) else t_daddr cur, t_dest cur)
                  | Some r \<Rightarrow> (e_pton E (version = 4) (al_raddr r), htons (al_rport r)));
                 (err, w) = sys_connect E sock addr port w
             in if err \<noteq> None \<and> err \<noteq> Some EINPROGRESS then (- 1, w) else (sock, w))"

text \<open>The address of the proxy as the packet handler copies it; \<open>raddr\<close> has 47 characters.\<close>

definition tcp_redirect :: "arguments \<Rightarrow> allowed option" where
  "tcp_redirect args =
     (let a = cstr (a_proxyIp args)
      in if length a < 47 then Some \<lparr>al_raddr = a, al_rport = of_int (a_proxyPort args)\<rparr> else None)"

section \<open>The packet\<close>

text \<open>
  The variables at the head of \<open>handle_tcp\<close>. \<open>ti_mem\<close> is the memory behind the pointer \<open>data\<close>;
  the lengths wrap around as their types do.
\<close>

record tcp_in =
  ti_version :: nat
  ti_src :: bytes
  ti_dst :: bytes
  ti_hdr :: tcphdr
  ti_optlen :: u8
  ti_mem :: bytes
  ti_datalen :: u16
  ti_uid :: int

definition tcp_in_of :: "bytes \<Rightarrow> nat \<Rightarrow> nat \<Rightarrow> int \<Rightarrow> tcp_in option" where
  "tcp_in_of m len payload uid =
     do { b \<leftarrow> rd8 m 0;
          let version = unat (drop_bit 4 b);
          hdr \<leftarrow> rd_tcphdr m payload;
          let tcpoptlen = (of_int ((int (th_doff hdr) - 5) * 4) :: u8);
          let data = payload + 20 + unat tcpoptlen;
          (src, dst) \<leftarrow> pkt_addrs version m;
          Some \<lparr>ti_version = version, ti_src = src, ti_dst = dst, ti_hdr = hdr, ti_optlen = tcpoptlen,
                ti_mem = drop data m, ti_datalen = of_int (int len - int data), ti_uid = uid\<rparr> }"

definition tcp_matches :: "tcp_in \<Rightarrow> session \<Rightarrow> bool" where
  "tcp_matches ti s =
     (case s of
        TCP c \<Rightarrow> t_version (ng_k c) = ti_version ti
          \<and> t_source (ng_k c) = th_source (ti_hdr ti) \<and> t_dest (ng_k c) = th_dest (ti_hdr ti)
          \<and> (if ti_version ti = 4
             then ip4 (t_saddr (ng_k c)) = ti_src ti \<and> ip4 (t_daddr (ng_k c)) = ti_dst ti
             else t_saddr (ng_k c) = ti_src ti \<and> t_daddr (ng_k c) = ti_dst ti)
      | _ \<Rightarrow> False)"

text \<open>Whether \<open>queue_tcp\<close> copies the data of a packet; only then does it read it.\<close>

definition queue_copies :: "tcphdr \<Rightarrow> tcp_session \<Rightarrow> u16 \<Rightarrow> bool" where
  "queue_copies hdr cur datalen =
     (let seq = ntohl (th_seq hdr) in
      \<not> compare_u32 seq (t_remote_seq cur) < 0
      \<and> (case dropWhile (\<lambda>s. compare_u32 (seg_seq s) seq < 0) (t_forward cur) of
           [] \<Rightarrow> True
         | s # q \<Rightarrow> compare_u32 (seg_seq s) seq > 0 \<or> seg_len s < datalen))"

definition tcp_queue_data :: "tcp_in \<Rightarrow> tcp_session \<Rightarrow> tcp_session option" where
  "tcp_queue_data ti t =
     (if queue_copies (ti_hdr ti) t (ti_datalen ti) then
        do { data \<leftarrow> rd_block (ti_mem ti) 0 (unat (ti_datalen ti)); Some (queue_tcp (ti_hdr ti) t data) }
      else Some t)"

section \<open>A new session\<close>

text \<open>
  The members of the new session; the window is set once the socket is open and the host name
  before its first use.
\<close>

definition tcp_fresh :: "tcp_in \<Rightarrow> u16 \<Rightarrow> u8 \<Rightarrow> int \<Rightarrow> u32 \<Rightarrow> u32 \<Rightarrow> tcp_session" where
  "tcp_fresh ti mss ws now send_window rnd =
     (let h = ti_hdr ti; isn = ntohl (th_seq h); rport = htons (th_dest h) in
      \<lparr>t_uid = ti_uid ti, t_time = now, t_version = ti_version ti, t_mss = mss, t_recv_scale = ws,
       t_send_scale = ws, t_recv_window = 0, t_send_window = send_window, t_remote_seq = isn,
       t_local_seq = rnd, t_remote_start = isn, t_local_start = rnd, t_acked = 0,
       t_last_keep_alive = 0, t_sent = 0, t_received = 0, t_saddr = ti_src ti, t_source = th_source h,
       t_daddr = ti_dst ti, t_dest = th_dest h, t_state = TCP_LISTEN, t_forward = [],
       t_hostname = [],
       t_connect_sent = (if rport = 80 then TCP_CONNECT_ESTABLISHED else TCP_CONNECT_NOT_SENT)\<rparr>)"

text \<open>Data of a SYN is queued with the number of the SYN itself.\<close>

definition tcp_syn_data :: "tcp_in \<Rightarrow> tcp_session \<Rightarrow> tcp_session option" where
  "tcp_syn_data ti t =
     (if ti_datalen ti \<noteq> 0 then
        do { data \<leftarrow> rd_block (ti_mem ti) 0 (unat (ti_datalen ti));
             Some (t\<lparr>t_forward := [new_segment (t_remote_seq t) (th_psh (ti_hdr ti)) data]\<rparr>) }
      else Some t)"

text \<open>
  The shift in the arguments of the log message is evaluated too. The result is \<open>None\<close> when the
  socket could not be opened.
\<close>

definition tcp_new_session ::
  "env \<Rightarrow> allowed \<Rightarrow> tcp_in \<Rightarrow> u16 \<Rightarrow> u8 \<Rightarrow> world \<Rightarrow> (tcp_session ng_session option \<times> world) option"
where
  "tcp_new_session E redirect ti mss ws w =
     do { let window = ntohs (th_window (ti_hdr ti));
          logged \<leftarrow> shl_int window ws;
          let ptr = w_tick w;
          let (now, w) = sys_time E w;
          send_window \<leftarrow> shl32 (ucast window) ws;
          let (rnd, w) = sys_rand E w;
          t \<leftarrow> tcp_syn_data ti (tcp_fresh ti mss ws now send_window rnd);
          let (sock, w) = open_tcp_socket E t redirect w;
          if sock < 0 then Some (None, w)
          else
            do { let events = EPOLLOUT OR EPOLLERR;
                 let s = \<lparr>ng_k = t, ng_socket = sock, ng_ev = events, ng_ptr = ptr\<rparr>;
                 (window, w) \<leftarrow> get_receive_window E s w;
                 let (fail, w) = epoll_add E sock events ptr w;
                 Some (Some (s\<lparr>ng_k := t\<lparr>t_recv_window := window\<rparr>\<rparr>), w) } }"

text \<open>
  The session for the reset of an unknown connection: all zero but for the fields set, and of
  version 4.
\<close>

definition tcp_unknown :: "tcp_in \<Rightarrow> tcp_session" where
  "tcp_unknown ti =
     (let h = ti_hdr ti in
      \<lparr>t_uid = 0, t_time = 0, t_version = 4, t_mss = 0, t_recv_scale = 0,
       t_send_scale = 0, t_recv_window = 0, t_send_window = 0,
       t_remote_seq = ntohl (th_seq h) + ucast (ti_datalen ti) + (if th_syn h \<or> th_fin h then 1 else 0),
       t_local_seq = ntohl (th_ack_seq h), t_remote_start = 0, t_local_start = 0, t_acked = 0,
       t_last_keep_alive = 0, t_sent = 0, t_received = 0, t_saddr = ti_src ti, t_source = th_source h,
       t_daddr = ti_dst ti, t_dest = th_dest h, t_state = TCP_NONE, t_forward = [],
       t_hostname = [], t_connect_sent = 0\<rparr>)"

section \<open>Port 443\<close>

text \<open>The C library's text of an IPv4 address.\<close>

definition decimal :: "u8 \<Rightarrow> bytes" where
  "decimal b = (let n = unat b; digit = (\<lambda>k. of_nat (48 + k)) in
     (if 100 \<le> n then [digit (n div 100)] else []) @ (if 10 \<le> n then [digit (n div 10 mod 10)] else [])
     @ [digit (n mod 10)])"

definition inet_ntoa :: "bytes \<Rightarrow> bytes" where
  "inet_ntoa a = concat (map (\<lambda>b. decimal b @ [of_char CHR ''.'']) (butlast a)) @ decimal (last a)"

text \<open>\<open>DNS_LOOKUPS\<close> is not defined: the name of a host is the text of its address.\<close>

definition lookup_hostname :: "bytes \<Rightarrow> nat \<Rightarrow> bytes" where
  "lookup_hostname addr hostlen = take (hostlen - 1) (inet_ntoa addr)"

definition connect_request :: "bytes \<Rightarrow> bytes" where
  "connect_request host = lit ''CONNECT '' @ host @ lit '':443 HTTP/1.0'' @ [13, 10, 13, 10]"

text \<open>
  The name from the client hello, else the address; the request goes out once. \<open>None\<close> is a text that
  does not fit in a buffer of 512 characters.
\<close>

definition tcp_https ::
  "env \<Rightarrow> bytes \<Rightarrow> tcp_session ng_session \<Rightarrow> world \<Rightarrow> (tcp_session ng_session \<times> world) option" where
  "tcp_https E hostname s w =
     do { let host = (if hostname \<noteq> [] then hostname else lookup_hostname (ip4 (t_daddr (ng_k s))) 512);
          let t = (if host \<noteq> [] then (ng_k s)\<lparr>t_hostname := host\<rparr> else ng_k s);
          if t_connect_sent t = TCP_CONNECT_NOT_SENT \<and> host \<noteq> [] then
            (if 512 \<le> length (connect_request (t_hostname t)) then None
             else do { let (sent, w) = sys_send E (ng_socket s) (connect_request (t_hostname t)) False w;
                       case sent of
                         Inl e \<Rightarrow> do { (t, w) \<leftarrow> write_rst E t w; Some (s\<lparr>ng_k := t\<rparr>, w) }
                       | Inr n \<Rightarrow> Some (s\<lparr>ng_k := t\<lparr>t_connect_sent := TCP_CONNECT_SENT,
                                                   t_state := TCP_LISTEN\<rparr>\<rparr>, w) })
          else Some (s\<lparr>ng_k := t\<rparr>, w) }"

section \<open>A packet of a known session\<close>

definition tcp_fin :: "env \<Rightarrow> tcp_session \<Rightarrow> world \<Rightarrow> (tcp_session \<times> world) option" where
  "tcp_fin E t w =
     (if t_state t = TCP_ESTABLISHED then
        (if t_forward t = [] then
           do { (res, t, w) \<leftarrow> write_ack E (t\<lparr>t_remote_seq := t_remote_seq t + 1\<rparr>) w;
                Some (if res \<ge> 0 then t\<lparr>t_state := TCP_CLOSE_WAIT\<rparr> else t, w) }
         else Some (t\<lparr>t_state := TCP_CLOSE_WAIT\<rparr>, w))
      else if t_state t = TCP_FIN_WAIT1 then
        do { (res, t, w) \<leftarrow> write_ack E (t\<lparr>t_remote_seq := t_remote_seq t + 1\<rparr>) w;
             Some (if res \<ge> 0 then t\<lparr>t_state := TCP_CLOSE\<rparr> else t, w) }
      else Some (t, w))"

definition tcp_acked :: "u32 \<Rightarrow> tcp_session \<Rightarrow> tcp_session" where
  "tcp_acked ack t =
     (let t = t\<lparr>t_acked := ack\<rparr> in
      if t_state t = TCP_SYN_RECV then t\<lparr>t_state := TCP_ESTABLISHED\<rparr>
      else if t_state t = TCP_LAST_ACK then t\<lparr>t_state := TCP_CLOSING\<rparr>
      else t)"

text \<open>An acknowledgement of something else than all that was sent.\<close>

definition tcp_other_ack ::
  "env \<Rightarrow> int \<Rightarrow> u32 \<Rightarrow> tcp_session \<Rightarrow> world \<Rightarrow> (tcp_session \<times> world) option" where
  "tcp_other_ack E sock ack t w =
     (if ack + 1 = t_local_seq t then
        Some (t, if t_state t = TCP_ESTABLISHED then sys_setsockopt sock SO_KEEPALIVE w else w)
      else if compare_u32 ack (t_local_seq t) < 0 then
        Some (if compare_u32 ack (t_acked t) \<le> 0 then t else t\<lparr>t_acked := ack\<rparr>, w)
      else write_rst E t w)"

definition tcp_control ::
  "env \<Rightarrow> int \<Rightarrow> tcphdr \<Rightarrow> tcp_session \<Rightarrow> world \<Rightarrow> (tcp_session \<times> world) option" where
  "tcp_control E sock h t w =
     (if th_rst h then Some (t\<lparr>t_state := TCP_CLOSING\<rparr>, w)
      else if \<not> th_ack h \<or> ntohl (th_ack_seq h) = t_local_seq t then
        (if th_syn h then Some (t, w)
         else if th_fin h then tcp_fin E t w
         else if th_ack h then Some (tcp_acked (ntohl (th_ack_seq h)) t, w)
         else Some (t, w))
      else tcp_other_ack E sock (ntohl (th_ack_seq h)) t w)"

text \<open>The new window is shifted as an \<open>int\<close>.\<close>

definition tcp_known ::
  "env \<Rightarrow> tcp_in \<Rightarrow> tcp_session ng_session \<Rightarrow> world \<Rightarrow> (tcp_session ng_session \<times> world) option" where
  "tcp_known E ti s w =
     (let t = ng_k s; h = ti_hdr ti in
      if t_state t = TCP_CLOSING \<or> t_state t = TCP_CLOSE then
        do { (t, w) \<leftarrow> write_rst E t w; Some (s\<lparr>ng_k := t\<rparr>, w) }
      else
        do { let (now, w) = sys_time E w;
             window \<leftarrow> shl_int (ntohs (th_window h)) (t_send_scale t);
             let t = t\<lparr>t_time := now, t_send_window := window\<rparr>;
             if ti_datalen ti \<noteq> 0 \<and> (ng_socket s < 0 \<or> t_state t = TCP_CLOSE_WAIT) then
               do { (t, w) \<leftarrow> write_rst E t w; Some (s\<lparr>ng_k := t\<rparr>, w) }
             else
               do { t \<leftarrow> (if ti_datalen ti \<noteq> 0 then tcp_queue_data ti t else Some t);
                    (t, w) \<leftarrow> tcp_control E (ng_socket s) h t w;
                    Some (s\<lparr>ng_k := t\<rparr>, w) } })"

text \<open>A session that was found; until the proxy has answered, packets for port 443 are only queued.\<close>

definition tcp_found ::
  "env \<Rightarrow> tcp_in \<Rightarrow> bytes \<Rightarrow> tcp_session ng_session \<Rightarrow> world \<Rightarrow> (tcp_session ng_session \<times> world) option"
where
  "tcp_found E ti hostname s w =
     do { let rport = htons (th_dest (ti_hdr ti));
          (s, w) \<leftarrow> (if rport = 443 then tcp_https E hostname s w else Some (s, w));
          if rport = 443 \<and> t_connect_sent (ng_k s) \<noteq> TCP_CONNECT_ESTABLISHED then
            do { t \<leftarrow> tcp_queue_data ti (ng_k s); Some (s\<lparr>ng_k := t\<rparr>, w) }
          else tcp_known E ti s w }"

section \<open>The handler\<close>

definition handle_tcp ::
  "env \<Rightarrow> arguments \<Rightarrow> bytes \<Rightarrow> nat \<Rightarrow> nat \<Rightarrow> int \<Rightarrow> session list \<Rightarrow> world \<Rightarrow> (session list \<times> world) option"
where
  "handle_tcp E args m len payload uid ss w =
     do { ti \<leftarrow> tcp_in_of m len payload uid;
          sni \<leftarrow> parse_tls_header (e_char_signed E) (ti_mem ti) (unat (ti_datalen ti));
          let hostname = (case sni of None \<Rightarrow> [] | Some h \<Rightarrow> h);
          redirect \<leftarrow> tcp_redirect args;
          if th_urg (ti_hdr ti) then Some (ss, w)
          else (case List.extract (tcp_matches ti) ss of
              None \<Rightarrow>
                if th_syn (ti_hdr ti) then
                  do { r \<leftarrow> tcp_options m (payload + 20) (uint (ti_optlen ti)) (get_default_mss (ti_version ti)) 0;
                       (mss, ws) \<leftarrow> r;
                       (new, w) \<leftarrow> tcp_new_session E redirect ti mss ws w;
                       Some (case new of None \<Rightarrow> ss | Some s \<Rightarrow> TCP s # ss, w) }
                else do { (t, w) \<leftarrow> write_rst E (tcp_unknown ti) w; Some (ss, w) }
            | Some (before, s, behind) \<Rightarrow>
                (case s of
                   TCP c \<Rightarrow> do { (c, w) \<leftarrow> tcp_found E ti hostname c w; Some (before @ TCP c # behind, w) }
                 | _ \<Rightarrow> Some (ss, w))) }"

section \<open>Known sessions and the abstract machine\<close>



text \<open>
  A step that moves along the abstract machine and gets to the end of the socket only from there;
  such steps of the session compose and keep the contract of a handler.
\<close>

definition tame :: "tcp_session \<Rightarrow> tcp_session \<Rightarrow> bool" where
  "tame t t' \<longleftrightarrow> tcp_path (t_state t) (t_state t')
     \<and> (t_state t' \<in> {TCP_FIN_WAIT1, TCP_LAST_ACK, TCP_CLOSE} \<longrightarrow>
        t_state t \<in> {TCP_FIN_WAIT1, TCP_LAST_ACK, TCP_CLOSE})"

lemma tame_kept: "kept_or_closing t t' \<Longrightarrow> tame t t'"
  using kept_path [of t t'] by (auto simp: tame_def kept_or_closing_def)

lemma tame_same: "t_state t' = t_state t \<Longrightarrow> tame t t'"
  by (simp add: tame_kept kept_eq)

lemma tame_trans: "tame a b \<Longrightarrow> tame b c \<Longrightarrow> tame a c"
  using rtranclp_trans [of tcp_arc "t_state a" "t_state b" "t_state c"] by (auto simp: tame_def)

lemma tame_from: "tame a b \<Longrightarrow> t_state a' = t_state a \<Longrightarrow> tame a' b"
  by (simp add: tame_def)

lemma handled_tame:
  assumes "tame (ng_k s) t'" "quiet w w'" "tcp_inv s"
  shows "handled s w (s\<lparr>ng_k := t'\<rparr>) w'"
  using assms quiet_ledger [OF assms(2)] by (auto simp: handled_defs tcp_inv_def tame_def)

lemma tcp_fin_cases:
  assumes "tcp_fin E t w = Some (t', w')"
  obtains (ack) res t1 st where "write_ack E (t\<lparr>t_remote_seq := t_remote_seq t + 1\<rparr>) w = Some (res, t1, w')"
      "t' = (if res \<ge> 0 then t1\<lparr>t_state := st\<rparr> else t1)"
      "t_state t = TCP_ESTABLISHED \<and> st = TCP_CLOSE_WAIT \<or> t_state t = TCP_FIN_WAIT1 \<and> st = TCP_CLOSE"
  | (queued) "t_state t = TCP_ESTABLISHED" "t_forward t \<noteq> []" "t' = t\<lparr>t_state := TCP_CLOSE_WAIT\<rparr>" "w' = w"
  | (other) "t' = t" "w' = w"
proof -
  consider (est) "t_state t = TCP_ESTABLISHED" "t_forward t = []"
    | (more) "t_state t = TCP_ESTABLISHED" "t_forward t \<noteq> []"
    | (wait) "t_state t \<noteq> TCP_ESTABLISHED" "t_state t = TCP_FIN_WAIT1"
    | (rest) "t_state t \<noteq> TCP_ESTABLISHED" "t_state t \<noteq> TCP_FIN_WAIT1"
    by blast
  then show thesis
  proof cases
    case est
    from assms [unfolded tcp_fin_def if_P [OF est(1)] if_P [OF est(2)] bind3_Some] obtain res t1 where
      "write_ack E (t\<lparr>t_remote_seq := t_remote_seq t + 1\<rparr>) w = Some (res, t1, w')"
      "t' = (if res \<ge> 0 then t1\<lparr>t_state := TCP_CLOSE_WAIT\<rparr> else t1)" by blast
    with est(1) show thesis by (intro ack [of res t1 TCP_CLOSE_WAIT]) simp_all
  next
    case wait
    from assms [unfolded tcp_fin_def if_not_P [OF wait(1)] if_P [OF wait(2)] bind3_Some] obtain res t1 where
      "write_ack E (t\<lparr>t_remote_seq := t_remote_seq t + 1\<rparr>) w = Some (res, t1, w')"
      "t' = (if res \<ge> 0 then t1\<lparr>t_state := TCP_CLOSE\<rparr> else t1)" by blast
    with wait(2) show thesis by (intro ack [of res t1 TCP_CLOSE]) simp_all
  next
    case more
    with assms show thesis by (intro queued) (auto simp: tcp_fin_def)
  next
    case rest
    with assms show thesis by (intro other) (simp_all add: tcp_fin_def)
  qed
qed

lemma tcp_fin_tame:
  assumes "tcp_fin E t w = Some (t', w')"
  shows "tame t t' \<and> quiet w w'"
  using assms
proof (cases rule: tcp_fin_cases)
  case (ack res t1 st)
  have "acked_write (t\<lparr>t_remote_seq := t_remote_seq t + 1\<rparr>) res t1" using wrapper_effects(2) [OF ack(1)] by blast
  then have "t_state t1 = TCP_CLOSING \<and> res < 0 \<or> 0 \<le> res" by (auto simp: acked_write_def)
  then show ?thesis using ack(2,3) quiet_wrappers(2) [OF ack(1)] by (auto simp: tame_def)
qed (simp_all add: tame_def)

lemma tcp_acked_tame: "tame t (tcp_acked ack t)"
proof -
  have "tcp_path TCP_LAST_ACK TCP_CLOSING" by auto
  then show ?thesis by (auto simp: tame_def tcp_acked_def Let_def)
qed

lemma tcp_other_ack_tame:
  assumes "tcp_other_ack E sock ack t w = Some (t', w')"
  shows "tame t t' \<and> quiet w w'"
proof -
  consider (keep) "ack + 1 = t_local_seq t"
    | (old) "ack + 1 \<noteq> t_local_seq t" "compare_u32 ack (t_local_seq t) < 0"
    | (future) "ack + 1 \<noteq> t_local_seq t" "\<not> compare_u32 ack (t_local_seq t) < 0" by blast
  then show ?thesis
  proof cases
    case keep
    with assms show ?thesis by (auto simp: tcp_other_ack_def tame_same)
  next
    case old
    with assms have "w' = w" "t_state t' = t_state t"
      by (auto simp: tcp_other_ack_def split: if_splits)
    then show ?thesis by (simp add: tame_same)
  next
    case future
    with assms have "write_rst E t w = Some (t', w')" by (simp add: tcp_other_ack_def)
    then show ?thesis by (blast intro: tame_kept kept_rst quiet_wrappers)
  qed
qed

lemma tcp_control_tame:
  assumes "tcp_control E sock h t w = Some (t', w')" "t_state t \<noteq> TCP_CLOSE"
  shows "tame t t' \<and> quiet w w'"
proof -
  let ?now = "\<not> th_ack h \<or> ntohl (th_ack_seq h) = t_local_seq t"
  consider (rst) "th_rst h"
    | (fin) "\<not> th_rst h" ?now "\<not> th_syn h" "th_fin h"
    | (ack) "\<not> th_rst h" ?now "\<not> th_syn h" "\<not> th_fin h" "th_ack h"
    | (same) "\<not> th_rst h" ?now "th_syn h \<or> \<not> th_fin h \<and> \<not> th_ack h"
    | (other) "\<not> th_rst h" "\<not> ?now" by blast
  then show ?thesis
  proof cases
    case rst
    with assms have "t' = t\<lparr>t_state := TCP_CLOSING\<rparr>" "w' = w" by (simp_all add: tcp_control_def)
    then show ?thesis using assms(2) by (auto simp: tame_def)
  next
    case fin
    with assms have "tcp_fin E t w = Some (t', w')"
      unfolding tcp_control_def if_not_P [OF fin(1)] if_P [OF fin(2)] by simp
    then show ?thesis by (rule tcp_fin_tame)
  next
    case ack
    with assms have "t' = tcp_acked (ntohl (th_ack_seq h)) t" "w' = w"
      unfolding tcp_control_def if_not_P [OF ack(1)] if_P [OF ack(2)] by simp_all
    then show ?thesis by (simp add: tcp_acked_tame)
  next
    case same
    with assms have "t' = t" "w' = w"
      unfolding tcp_control_def if_not_P [OF same(1)] if_P [OF same(2)] by (cases "th_syn h"; simp)+
    then show ?thesis by (simp add: tame_same)
  next
    case other
    with assms have "tcp_other_ack E sock (ntohl (th_ack_seq h)) t w = Some (t', w')"
      unfolding tcp_control_def if_not_P [OF other(1)] if_not_P [OF other(2)] by simp
    then show ?thesis by (rule tcp_other_ack_tame)
  qed
qed

lemma tcp_queue_data_defined:
  "unat (ti_datalen ti) \<le> length (ti_mem ti) \<Longrightarrow> \<exists>t'. tcp_queue_data ti t = Some t'"
  by (simp add: tcp_queue_data_def rd_block_def)

lemma queue_tcp_frame: "\<exists>q. queue_tcp h t d = t\<lparr>t_forward := q\<rparr>"
proof (cases "compare_u32 (ntohl (th_seq h)) (t_remote_seq t) < 0")
  case True
  then have "queue_tcp h t d = t\<lparr>t_forward := t_forward t\<rparr>" by (simp add: queue_tcp_def)
  then show ?thesis by blast
next
  case False
  then show ?thesis unfolding queue_tcp_def Let_def if_not_P [OF False] by blast
qed

lemma tcp_queue_data_frame:
  assumes "tcp_queue_data ti t = Some t'"
  shows "\<exists>q. t' = t\<lparr>t_forward := q\<rparr>"
proof (cases "queue_copies (ti_hdr ti) t (ti_datalen ti)")
  case True
  with assms obtain d where "t' = queue_tcp (ti_hdr ti) t d"
    by (auto simp: tcp_queue_data_def bind_eq_Some_conv)
  then show ?thesis using queue_tcp_frame by simp
next
  case False
  with assms have "t' = t\<lparr>t_forward := t_forward t\<rparr>" by (simp add: tcp_queue_data_def)
  then show ?thesis by blast
qed

text \<open>The branches of \<open>tcp_known\<close>.\<close>

lemma tcp_known_cases:
  assumes "tcp_known E ti s w = Some (s', w')"
  obtains (closed) t' where "t_state (ng_k s) = TCP_CLOSING \<or> t_state (ng_k s) = TCP_CLOSE"
      "write_rst E (ng_k s) w = Some (t', w')" "s' = s\<lparr>ng_k := t'\<rparr>"
  | (refused) t0 t' where "t_state (ng_k s) \<noteq> TCP_CLOSING" "t_state (ng_k s) \<noteq> TCP_CLOSE"
      "ti_datalen ti \<noteq> 0" "ng_socket s < 0 \<or> t_state (ng_k s) = TCP_CLOSE_WAIT"
      "\<exists>window. t0 = (ng_k s)\<lparr>t_time := e_time E (w_tick w), t_send_window := window\<rparr>"
      "write_rst E t0 (tick w) = Some (t', w')" "s' = s\<lparr>ng_k := t'\<rparr>"
  | (control) window t0 t1 t' where "t_state (ng_k s) \<noteq> TCP_CLOSING" "t_state (ng_k s) \<noteq> TCP_CLOSE"
      "shl_int (ntohs (th_window (ti_hdr ti))) (t_send_scale (ng_k s)) = Some window"
      "t0 = (ng_k s)\<lparr>t_time := e_time E (w_tick w), t_send_window := window\<rparr>"
      "(if ti_datalen ti \<noteq> 0 then tcp_queue_data ti t0 else Some t0) = Some t1"
      "ti_datalen ti \<noteq> 0 \<Longrightarrow> 0 \<le> ng_socket s \<and> t_state (ng_k s) \<noteq> TCP_CLOSE_WAIT"
      "tcp_control E (ng_socket s) (ti_hdr ti) t1 (tick w) = Some (t', w')" "s' = s\<lparr>ng_k := t'\<rparr>"
proof (cases "t_state (ng_k s) = TCP_CLOSING \<or> t_state (ng_k s) = TCP_CLOSE")
  case True
  from assms [unfolded tcp_known_def Let_def if_P [OF True] bind2_Some] obtain t' where
    "write_rst E (ng_k s) w = Some (t', w')" "s' = s\<lparr>ng_k := t'\<rparr>" by blast
  with True show thesis by (rule closed)
next
  case False
  note a = assms [unfolded tcp_known_def Let_def if_not_P [OF False] sys_time_def prod.case]
  from a obtain window where sw: "shl_int (ntohs (th_window (ti_hdr ti))) (t_send_scale (ng_k s)) = Some window"
    by (auto simp: bind_eq_Some_conv)
  let ?t = "(ng_k s)\<lparr>t_time := e_time E (w_tick w), t_send_window := window\<rparr>"
  show thesis
  proof (cases "ti_datalen ti \<noteq> 0 \<and> (ng_socket s < 0 \<or> t_state ?t = TCP_CLOSE_WAIT)")
    case True
    from a [unfolded sw Option.bind.bind_lunit if_P [OF True]] obtain t' where
      "write_rst E ?t (tick w) = Some (t', w')" "s' = s\<lparr>ng_k := t'\<rparr>" unfolding bind2_Some by blast
    with True False show thesis by (intro refused [of ?t]) auto
  next
    case F2: False
    from a [unfolded sw Option.bind.bind_lunit if_not_P [OF F2]] obtain t1 t' where
      "(if ti_datalen ti \<noteq> 0 then tcp_queue_data ti ?t else Some ?t) = Some t1"
      "tcp_control E (ng_socket s) (ti_hdr ti) t1 (tick w) = Some (t', w')" "s' = s\<lparr>ng_k := t'\<rparr>"
      unfolding bind_eq_Some_conv [of "if _ then _ else _"] bind2_Some by blast
    with F2 False sw show thesis by (intro control [of window ?t t1]) auto
  qed
qed

lemma tcp_known_handled:
  assumes "tcp_known E ti s w = Some (s', w')" "tcp_inv s"
  shows "handled s w s' w'"
  using assms(1)
proof (cases rule: tcp_known_cases)
  case (closed t')
  then show ?thesis
    using handled_quiet [OF kept_rst quiet_wrappers(5) assms(2)] by blast
next
  case (refused t0 t')
  have "kept_or_closing (ng_k s) t0" using refused(5) by (auto simp: kept_or_closing_def)
  then have "kept_or_closing (ng_k s) t'" using kept_rst [OF refused(6)] by (rule kept_trans)
  then show ?thesis
    unfolding refused(7)
    by (rule handled_quiet [OF _ quiet_trans [OF quiet_tick quiet_wrappers(5) [OF refused(6)]] assms(2)])
next
  case (control window t0 t1 t')
  have "t_state t1 = t_state t0"
    using control(5) by (auto dest!: tcp_queue_data_frame split: if_splits)
  then have st: "t_state t1 = t_state (ng_k s)" using control(4) by simp
  then have c: "tame t1 t' \<and> quiet (tick w) w'" using control(2,7) by (intro tcp_control_tame) simp_all
  then have "tame (ng_k s) t'" "quiet w w'"
    using tame_from [of t1 t' "ng_k s"] st quiet_trans [OF quiet_tick] by auto
  then show ?thesis unfolding control(8) by (rule handled_tame [OF _ _ assms(2)])
qed

subsection \<open>Port 443\<close>

text \<open>The session once its host name is noted, and the two ways the request can end.\<close>

definition with_host :: "bytes \<Rightarrow> tcp_session \<Rightarrow> tcp_session" where
  "with_host hostname t =
     (let host = (if hostname \<noteq> [] then hostname else lookup_hostname (ip4 (t_daddr t)) 512)
      in if host \<noteq> [] then t\<lparr>t_hostname := host\<rparr> else t)"

lemma with_host_frame [simp]:
  "t_state (with_host h t) = t_state t" "t_connect_sent (with_host h t) = t_connect_sent t"
  "t_forward (with_host h t) = t_forward t" "t_remote_seq (with_host h t) = t_remote_seq t"
  "t_local_seq (with_host h t) = t_local_seq t" "t_recv_scale (with_host h t) = t_recv_scale t"
  by (simp_all add: with_host_def Let_def)

lemma tcp_https_cases:
  assumes "tcp_https E hostname s w = Some (s', w')"
  obtains (noted) "s' = s\<lparr>ng_k := with_host hostname (ng_k s)\<rparr>" "w' = w"
  | (failed) e t' w1 where
      "t_connect_sent (ng_k s) = TCP_CONNECT_NOT_SENT"
      "sys_send E (ng_socket s) (connect_request (t_hostname (with_host hostname (ng_k s)))) False w
         = (Inl e, w1)"
      "write_rst E (with_host hostname (ng_k s)) w1 = Some (t', w')" "s' = s\<lparr>ng_k := t'\<rparr>"
  | (sent) n where
      "t_connect_sent (ng_k s) = TCP_CONNECT_NOT_SENT"
      "sys_send E (ng_socket s) (connect_request (t_hostname (with_host hostname (ng_k s)))) False w
         = (Inr n, w')"
      "s' = s\<lparr>ng_k := (with_host hostname (ng_k s))\<lparr>t_connect_sent := TCP_CONNECT_SENT,
                                                t_state := TCP_LISTEN\<rparr>\<rparr>"
proof -
  let ?host = "if hostname \<noteq> [] then hostname else lookup_hostname (ip4 (t_daddr (ng_k s))) 512"
  let ?t = "with_host hostname (ng_k s)"
  let ?req = "connect_request (t_hostname ?t)"
  have t: "(if ?host \<noteq> [] then (ng_k s)\<lparr>t_hostname := ?host\<rparr> else ng_k s) = ?t"
    by (simp add: with_host_def)
  note a = assms [unfolded tcp_https_def Let_def t]
  show thesis
  proof (cases "t_connect_sent ?t = TCP_CONNECT_NOT_SENT \<and> ?host \<noteq> []")
    case False
    from a [unfolded if_not_P [OF False]] show thesis by (intro noted) simp_all
  next
    case True
    note b = a [unfolded if_P [OF True]]
    then have len: "\<not> 512 \<le> length ?req" by (auto split: if_splits)
    obtain r w1 where r: "sys_send E (ng_socket s) ?req False w = (r, w1)"
      by (cases "sys_send E (ng_socket s) ?req False w")
    note c = b [unfolded if_not_P [OF len] r prod.case]
    show thesis
    proof (cases r)
      case (Inl e)
      from c [unfolded Inl sum.case bind2_Some] obtain t' where
        "write_rst E ?t w1 = Some (t', w')" "s' = s\<lparr>ng_k := t'\<rparr>" by blast
      with True r Inl show thesis by (intro failed) simp_all
    next
      case (Inr n)
      from c [unfolded Inr sum.case] have "s' = s\<lparr>ng_k := ?t\<lparr>t_connect_sent := TCP_CONNECT_SENT,
          t_state := TCP_LISTEN\<rparr>\<rparr>" "w' = w1" by simp_all
      with True r Inr show thesis by (intro sent) simp_all
    qed
  qed
qed

lemma tcp_https_handled:
  assumes "tcp_https E hostname s w = Some (s', w')" "tcp_inv s"
  shows "handled s w s' w'"
  using assms(1)
proof (cases rule: tcp_https_cases)
  case noted
  then show ?thesis
    using handled_quiet [OF kept_eq quiet_refl assms(2)] by simp
next
  case (failed e t' w1)
  have "kept_or_closing (ng_k s) t'"
    using kept_rst [OF failed(3)] by (simp add: kept_or_closing_def)
  then show ?thesis
    unfolding failed(4)
    by (rule handled_quiet [OF _ quiet_trans [OF quiet_send [OF failed(2)] quiet_wrappers(5) [OF failed(3)]] assms(2)])
next
  case (sent n)
  have "0 \<le> ng_socket s" using sent(2) by (auto simp: sys_send_def Let_def split: if_splits)
  then have "t_state (ng_k s) \<notin> {TCP_CLOSE, TCP_FIN_WAIT1, TCP_LAST_ACK}"
    using assms(2) by (auto simp: tcp_inv_def)
  then have "tcp_path (t_state (ng_k s)) TCP_LISTEN"
    by (intro r_into_rtranclp tcp_arc.proxy_connect)
  then show ?thesis
    using quiet_ledger [OF quiet_send [OF sent(2)]] by (simp add: handled_defs tcp_inv_def sent(3))
qed

lemma handled_trans:
  assumes "handled a wa b wb" "handled b wb c wc" "0 \<le> ng_socket a \<Longrightarrow> ng_socket b = ng_socket a"
  shows "handled a wa c wc"
  using assms by (auto simp: handled_defs intro: rtranclp_trans)

lemma tcp_found_handled:
  assumes "tcp_found E ti hostname s w = Some (s', w')" "tcp_inv s"
  shows "handled s w s' w'"
proof -
  let ?p = "htons (th_dest (ti_hdr ti))"
  from assms(1) obtain s1 w1 where
    a: "(if ?p = 443 then tcp_https E hostname s w else Some (s, w)) = Some (s1, w1)"
    and b: "(if ?p = 443 \<and> t_connect_sent (ng_k s1) \<noteq> TCP_CONNECT_ESTABLISHED
       then do { t \<leftarrow> tcp_queue_data ti (ng_k s1); Some (s1\<lparr>ng_k := t\<rparr>, w1) }
       else tcp_known E ti s1 w1) = Some (s', w')"
    by (auto simp: tcp_found_def Let_def bind_eq_Some_conv split del: if_split)
  have h1: "handled s w s1 w1"
  proof (cases "?p = 443")
    case True
    with a have "tcp_https E hostname s w = Some (s1, w1)" by simp
    then show ?thesis using assms(2) by (rule tcp_https_handled)
  next
    case False
    with a have "s1 = s\<lparr>ng_k := ng_k s\<rparr>" "w1 = w" by simp_all
    then show ?thesis using handled_quiet [OF kept_refl quiet_refl assms(2), of w] by simp
  qed
  have sock: "ng_socket s1 = ng_socket s"
  proof (cases "?p = 443")
    case True
    with a have "tcp_https E hostname s w = Some (s1, w1)" by simp
    then show ?thesis by (cases rule: tcp_https_cases) simp_all
  next
    case False
    with a show ?thesis by simp
  qed
  have i1: "tcp_inv s1" using h1 by (simp add: handled_defs)
  have "handled s1 w1 s' w'"
  proof (cases "?p = 443 \<and> t_connect_sent (ng_k s1) \<noteq> TCP_CONNECT_ESTABLISHED")
    case True
    from b [unfolded if_P [OF True]] obtain t where q: "tcp_queue_data ti (ng_k s1) = Some t"
      and s': "s' = s1\<lparr>ng_k := t\<rparr>" "w' = w1" by (auto simp: bind_eq_Some_conv)
    have "t_state t = t_state (ng_k s1)" using tcp_queue_data_frame [OF q] by auto
    then show ?thesis unfolding s' by (rule handled_quiet [OF kept_eq quiet_refl i1])
  next
    case False
    from b [unfolded if_not_P [OF False]] show ?thesis using i1 by (rule tcp_known_handled)
  qed
  with h1 show ?thesis by (rule handled_trans) (rule sock)
qed

subsection \<open>Opening\<close>

text \<open>
  The socket is opened first; when a later step fails the result is -1 and the descriptor stays
  open.
\<close>

lemma open_tcp_socket_trace:
  assumes "open_tcp_socket E cur redirect w = (sock, w')"
  shows "sock = - 1 \<and> spilled w w'
    \<or> 0 \<le> sock \<and> (\<exists>v. ledger (w_trace w') = ledger (w_trace w) @ [SockOpen sock v])"
proof -
  define red where "red = (if htons (t_dest cur) \<noteq> 80 \<and> htons (t_dest cur) \<noteq> 443 then None else Some redirect)"
  define v where "v = (case red of None \<Rightarrow> t_version cur
                     | Some r \<Rightarrow> if of_char CHR '':'' \<in> set (al_raddr r) then 6 else 4)"
  define pf where "pf = (if v = 4 then 4 else 6 :: nat)"
  define ap where "ap = (case red of None \<Rightarrow> (if v = 4 then ip4 (t_daddr cur) else t_daddr cur, t_dest cur)
                  | Some r \<Rightarrow> (e_pton E (v = 4) (al_raddr r), htons (al_rport r)))"
  note a = assms [unfolded open_tcp_socket_def Let_def, folded red_def, folded v_def, folded pf_def ap_def]
  show ?thesis
  proof (cases "e_socket E (w_tick w)")
    case (Inl e)
    with a show ?thesis by (auto simp: sys_socket_def spilled_def)
  next
    case (Inr n)
    define w1 where "w1 = emit (SockOpen (int n) pf) w"
    have s: "sys_socket E pf w = (Inr (int n), w1)" using Inr by (simp add: sys_socket_def w1_def)
    have w1: "ledger (w_trace w1) = ledger (w_trace w) @ [SockOpen (int n) pf]"
      by (simp add: w1_def)
    note b = a [unfolded s prod.case sum.case]
    show ?thesis
      using b w1
      by (auto simp: protect_socket_def sys_fcntl_def sys_connect_def spilled_def split: if_splits prod.splits)
  qed
qed

text \<open>A step after \<open>socket\<close> fails and the descriptor is lost.\<close>

lemma open_tcp_socket_unprotected:
  assumes "e_socket E (w_tick w) = Inr fd" and "\<not> e_protect E (w_tick w + 1) (int fd)"
  shows "\<exists>w'. open_tcp_socket E cur redirect w = (- 1, w')
    \<and> opened (w_trace w') = opened (w_trace w) @ [int fd] \<and> closed (w_trace w') = closed (w_trace w)"
  using assms by (simp add: open_tcp_socket_def sys_socket_def protect_socket_def Let_def)

lemma tcp_syn_data_frame:
  assumes "tcp_syn_data ti t = Some t'"
  shows "\<exists>q. t' = t\<lparr>t_forward := q\<rparr>"
proof (cases "ti_datalen ti \<noteq> 0")
  case True
  from assms [unfolded tcp_syn_data_def if_P [OF True]] show ?thesis by (auto simp: bind_eq_Some_conv)
next
  case False
  with assms have "t' = t\<lparr>t_forward := t_forward t\<rparr>" by (simp add: tcp_syn_data_def)
  then show ?thesis by blast
qed

text \<open>A new session: its state, or a descriptor lost.\<close>

lemma tcp_new_session_cases:
  assumes "tcp_new_session E redirect ti mss ws w = Some (so, w')"
  obtains (failed) "so = None" "spilled w w'"
  | (new) s q window where "so = Some s" "ng_ptr s = w_tick w" "ng_ev s = EPOLLOUT OR EPOLLERR"
      "enrolled (ng_socket s) (ng_ptr s) w w'"
      "ng_k s = (tcp_fresh ti mss ws (e_time E (w_tick w)) (push_bit (unat ws) (ucast (ntohs (th_window (ti_hdr ti)))))
                  (e_rand E (w_tick w + 1)))\<lparr>t_forward := q, t_recv_window := window\<rparr>"
      "ti_datalen ti = 0 \<Longrightarrow> q = []"
      "ti_datalen ti \<noteq> 0 \<Longrightarrow> \<exists>g. q = [g] \<and> seg_seq g = ntohl (th_seq (ti_hdr ti)) \<and> seg_sent g = 0"
proof -
  let ?win = "ntohs (th_window (ti_hdr ti))"
  let ?w2 = "tick (tick w)"
  let ?ev = "EPOLLOUT OR EPOLLERR"
  from assms obtain lg sw t where sw: "shl32 (ucast ?win) ws = Some sw"
    and t: "tcp_syn_data ti (tcp_fresh ti mss ws (e_time E (w_tick w)) sw (e_rand E (w_tick (tick w)))) = Some t"
    and r: "(case open_tcp_socket E t redirect ?w2 of (sock, w1) \<Rightarrow>
        if sock < 0 then Some (None, w1)
        else do { (window, w1) \<leftarrow> get_receive_window E \<lparr>ng_k = t, ng_socket = sock, ng_ev = ?ev, ng_ptr = w_tick w\<rparr> w1;
                  case epoll_add E sock ?ev (w_tick w) w1 of (fail, w1) \<Rightarrow>
                    Some (Some (\<lparr>ng_k = t, ng_socket = sock, ng_ev = ?ev, ng_ptr = w_tick w\<rparr>
                      \<lparr>ng_k := t\<lparr>t_recv_window := window\<rparr>\<rparr>), w1) }) = Some (so, w')"
    unfolding tcp_new_session_def Let_def sys_time_def sys_rand_def prod.case
    by (elim bind_eq_Some_conv [THEN iffD1, elim_format] exE conjE)
  obtain sock w3 where o: "open_tcp_socket E t redirect ?w2 = (sock, w3)"
    by (cases "open_tcp_socket E t redirect ?w2")
  note sp = open_tcp_socket_trace [OF o]
  note r2 = r [unfolded o prod.case]
  show thesis
  proof (cases "sock < 0")
    case True
    from r2 [unfolded if_P [OF True]] sp True show thesis by (intro failed) (auto simp: spilled_def)
  next
    case False
    let ?s = "\<lparr>ng_k = t, ng_socket = sock, ng_ev = ?ev, ng_ptr = w_tick w\<rparr>"
    from r2 [unfolded if_not_P [OF False]] obtain window w4 where
      g: "get_receive_window E ?s w3 = Some (window, w4)"
      and e: "so = Some (?s\<lparr>ng_k := t\<lparr>t_recv_window := window\<rparr>\<rparr>)" "w' = snd (epoll_add E sock ?ev (w_tick w) w4)"
      by (auto simp: bind_eq_Some_conv case_prod_beta)
    have q: "quiet w3 w4" using closed_window [OF g] by simp
    have tr: "w_trace w' = w_trace w4 @ [EpollAdd sock ?ev (w_tick w)]" by (simp add: e(2) trace_simps)
    obtain q where t': "t = (tcp_fresh ti mss ws (e_time E (w_tick w)) sw (e_rand E (w_tick (tick w))))\<lparr>t_forward := q\<rparr>"
      using tcp_syn_data_frame [OF t] by blast
    have swv: "sw = push_bit (unat ws) (ucast ?win)" using sw by (auto simp: shl32_def split: if_splits)
    show thesis
    proof (rule new)
      show "so = Some (?s\<lparr>ng_k := t\<lparr>t_recv_window := window\<rparr>\<rparr>)" by (rule e)
      show "ti_datalen ti = 0 \<Longrightarrow> q = []"
        using t t' by (simp add: tcp_syn_data_def tcp_fresh_def Let_def)
      show "ti_datalen ti \<noteq> 0 \<Longrightarrow> \<exists>g. q = [g] \<and> seg_seq g = ntohl (th_seq (ti_hdr ti)) \<and> seg_sent g = 0"
        using t t' by (auto simp: tcp_syn_data_def tcp_fresh_def new_segment_def Let_def bind_eq_Some_conv)
    qed (use False sp quiet_ledger [OF q] tr in \<open>auto simp: t' swv enrolled_def\<close>)
  qed
qed

subsection \<open>The handler\<close>

lemma handle_tcp_cases:
  assumes "handle_tcp E args m n payload uid ss w = Some (ss', w')"
  obtains (urgent) ti where "tcp_in_of m n payload uid = Some ti" "th_urg (ti_hdr ti)" "ss' = ss" "w' = w"
  | (reset) ti t where "tcp_in_of m n payload uid = Some ti" "\<not> th_syn (ti_hdr ti)"
      "\<forall>s \<in> set ss. \<not> tcp_matches ti s"
      "write_rst E (tcp_unknown ti) w = Some (t, w')" "ss' = ss"
  | (new) ti redirect mss ws so where "tcp_in_of m n payload uid = Some ti" "th_syn (ti_hdr ti)"
      "\<forall>s \<in> set ss. \<not> tcp_matches ti s"
      "tcp_options m (payload + 20) (uint (ti_optlen ti)) (get_default_mss (ti_version ti)) 0 = Some (Some (mss, ws))"
      "tcp_new_session E redirect ti mss ws w = Some (so, w')"
      "ss' = (case so of None \<Rightarrow> ss | Some s \<Rightarrow> TCP s # ss)"
  | (known) ti hostname before c c' behind where "tcp_in_of m n payload uid = Some ti"
      "ss = before @ TCP c # behind" "tcp_matches ti (TCP c)" "\<forall>s \<in> set before. \<not> tcp_matches ti s"
      "tcp_found E ti hostname c w = Some (c', w')" "ss' = before @ TCP c' # behind"
proof -
  from assms obtain ti sni redirect where ti: "tcp_in_of m n payload uid = Some ti"
    and "parse_tls_header (e_char_signed E) (ti_mem ti) (unat (ti_datalen ti)) = Some sni"
    and "tcp_redirect args = Some redirect"
    and r: "(if th_urg (ti_hdr ti) then Some (ss, w)
          else (case List.extract (tcp_matches ti) ss of
              None \<Rightarrow>
                if th_syn (ti_hdr ti) then
                  do { r \<leftarrow> tcp_options m (payload + 20) (uint (ti_optlen ti)) (get_default_mss (ti_version ti)) 0;
                       (mss, ws) \<leftarrow> r;
                       (new, w) \<leftarrow> tcp_new_session E redirect ti mss ws w;
                       Some (case new of None \<Rightarrow> ss | Some s \<Rightarrow> TCP s # ss, w) }
                else do { (t, w) \<leftarrow> write_rst E (tcp_unknown ti) w; Some (ss, w) }
            | Some (before, s, behind) \<Rightarrow>
                (case s of
                   TCP c \<Rightarrow> do { (c, w) \<leftarrow> tcp_found E ti (case sni of None \<Rightarrow> [] | Some h \<Rightarrow> h) c w;
                                Some (before @ TCP c # behind, w) }
                 | _ \<Rightarrow> Some (ss, w)))) = Some (ss', w')"
    unfolding handle_tcp_def Let_def
    by (elim bind_eq_Some_conv [THEN iffD1, elim_format] exE conjE)
  show thesis
  proof (cases "th_urg (ti_hdr ti)")
    case True
    with ti r show thesis by (intro urgent) simp_all
  next
    case False
    note r1 = r [unfolded if_not_P [OF False]]
    show thesis
    proof (cases "List.extract (tcp_matches ti) ss")
      case None
      note r2 = r1 [unfolded None option.case]
      have no: "\<forall>s \<in> set ss. \<not> tcp_matches ti s" using None by (simp add: extract_None_iff)
      show thesis
      proof (cases "th_syn (ti_hdr ti)")
        case True
        from r2 [unfolded if_P [OF True]] obtain mss ws so where
          "tcp_options m (payload + 20) (uint (ti_optlen ti)) (get_default_mss (ti_version ti)) 0 = Some (Some (mss, ws))"
          "tcp_new_session E redirect ti mss ws w = Some (so, w')"
          "ss' = (case so of None \<Rightarrow> ss | Some s \<Rightarrow> TCP s # ss)"
          by (auto simp: bind_eq_Some_conv)
        with ti True no show thesis by (rule new)
      next
        case F: False
        from r2 [unfolded if_not_P [OF F]] obtain t where "write_rst E (tcp_unknown ti) w = Some (t, w')"
          "ss' = ss" unfolding bind2_Some by blast
        with ti F no show thesis by (rule reset)
      qed
    next
      case (Some bsb)
      obtain before s behind where b: "bsb = (before, s, behind)" by (cases bsb)
      have x: "ss = before @ s # behind" "tcp_matches ti s" "\<forall>s \<in> set before. \<not> tcp_matches ti s"
        using extract_split [OF Some [unfolded b]] by simp_all
      from x(2) obtain c where c: "s = TCP c" by (cases s) (simp_all add: tcp_matches_def)
      from r1 [unfolded Some b option.case prod.case c session.case bind2_Some] obtain c' where
        "tcp_found E ti (case sni of None \<Rightarrow> [] | Some h \<Rightarrow> h) c w = Some (c', w')"
        "ss' = before @ TCP c' # behind" by blast
      with ti x show thesis unfolding c by (intro known)
    qed
  qed
qed

text \<open>
  The contract of the packet handlers of the three protocols with the event loop: the invariant of
  the sessions is kept, nothing is closed but the socket of one session, and what is opened is held
  by a new session or lost.
\<close>

definition tcp_ok :: "session list \<Rightarrow> bool" where
  "tcp_ok ss \<longleftrightarrow> (\<forall>c. TCP c \<in> set ss \<longrightarrow> tcp_inv c)"

lemma handle_tcp_effect:
  assumes "handle_tcp E args m n payload uid ss w = Some (ss', w')" and "tcp_ok ss"
  shows "tcp_ok ss' \<and>
    (ss' = ss \<and> spilled w w'
     \<or> (\<exists>c. ss' = TCP c # ss \<and> t_state (ng_k c) = TCP_LISTEN \<and> enrolled (ng_socket c) (ng_ptr c) w w')
     \<or> (\<exists>before c c' behind. ss = before @ TCP c # behind \<and> ss' = before @ TCP c' # behind
          \<and> handled c w c' w'))"
  using assms(1)
proof (cases rule: handle_tcp_cases)
  case urgent
  with assms(2) show ?thesis by (simp add: spilled_def)
next
  case (reset ti t)
  then show ?thesis using assms(2) quiet_spilled [OF quiet_wrappers(5) [OF reset(4)]] by simp
next
  case (new ti redirect mss ws so)
  from new(5) show ?thesis
  proof (cases rule: tcp_new_session_cases)
    case failed
    then show ?thesis using assms(2) new(6) by simp
  next
    case (new s q window)
    have st: "t_state (ng_k s) = TCP_LISTEN" by (simp add: new(5) tcp_fresh_def Let_def)
    have ss': "ss' = TCP s # ss" using \<open>ss' = _\<close> new(1) by simp
    have "tcp_ok ss'" using assms(2) st by (auto simp: tcp_ok_def ss' tcp_inv_def)
    then show ?thesis using new(4) st ss' by blast
  qed
next
  case (known ti hostname before c c' behind)
  have "tcp_inv c" using assms(2) known(2) by (simp add: tcp_ok_def)
  with known(5) have h: "handled c w c' w'" by (rule tcp_found_handled)
  then have "tcp_inv c'" by (simp add: handled_defs)
  then have "tcp_ok ss'" using assms(2) by (auto simp: tcp_ok_def known(2,6))
  with h known(2,6) show ?thesis by blast
qed

lemma handled_change: "handled c w c' w' \<Longrightarrow> sock_change sess_socket sess_ptr (TCP c) w (TCP c') w'"
  by (simp add: handled_defs)

interpretation tcp_packets: packet_handler "\<lambda>E. handle_tcp E args" for args
proof
  fix ss m n p uid w ss' w' E
  assume i: "\<forall>s \<in> set ss. sess_inv s" and h: "handle_tcp E args m n p uid ss w = Some (ss', w')"
  have "tcp_ok ss" using i by (auto simp: tcp_ok_def)
  from handle_tcp_effect [OF h this] show "move ss w ss' w'"
  proof (elim conjE disjE exE)
    fix c assume "tcp_ok ss'" "ss' = TCP c # ss" "enrolled (ng_socket c) (ng_ptr c) w w'"
    then show ?thesis by (simp add: tcp_ok_def move.added)
  next
    fix before c c' behind
    assume s: "ss = before @ TCP c # behind" "ss' = before @ TCP c' # behind" "handled c w c' w'"
    then have "sess_inv (TCP c')" by (simp add: handled_def)
    then show ?thesis unfolding s(1,2) using handled_change [OF s(3)] by (intro move.changed)
  qed (simp add: move.spilled)
qed

interpretation tcp_sockets: socket_handler check_tcp_socket TCP "\<lambda>s. True"
proof
  fix s E ev w s' w'
  assume "sess_inv (TCP s)" "check_tcp_socket E ev s w = Some (s', w')"
  then have "handled s w s' w'" by (intro check_tcp_socket_handled) simp_all
  then show "sock_change sess_socket sess_ptr (TCP s) w (TCP s') w' \<and> sess_inv (TCP s')"
    by (simp add: handled_defs)
qed

section \<open>Options that parse\<close>

text \<open>The options as RFC 793 and RFC 1323 write them, and what a list of them announces.\<close>

datatype tcp_opt = Nop | Mss u16 | Wscale u8 | Other u8 bytes

fun opt_ok :: "tcp_opt \<Rightarrow> bool" where
  "opt_ok (Other kind data) \<longleftrightarrow> kind \<notin> {0, 1, 2, 3} \<and> length data \<le> 253"
| "opt_ok _ \<longleftrightarrow> True"

fun encode_opt :: "tcp_opt \<Rightarrow> bytes" where
  "encode_opt Nop = [1]"
| "encode_opt (Mss v) = [2, 4] @ bytes16 (htons v)"
| "encode_opt (Wscale k) = [3, 3, k]"
| "encode_opt (Other kind data) = [kind, of_nat (length data + 2)] @ data"

definition encode_opts :: "tcp_opt list \<Rightarrow> bytes" where
  "encode_opts os = concat (map encode_opt os)"

fun announced :: "tcp_opt list \<Rightarrow> u16 \<times> u8 \<Rightarrow> u16 \<times> u8" where
  "announced [] a = a"
| "announced (Mss v # os) (mss, ws) = announced os (v, ws)"
| "announced (Wscale k # os) (mss, ws) = announced os (mss, k)"
| "announced (Nop # os) a = announced os a"
| "announced (Other k d # os) a = announced os a"

lemma tcp_options_end [simp]: "n \<le> 0 \<Longrightarrow> tcp_options m p n mss ws = Some (Some (mss, ws))"
  by (simp add: tcp_options.simps)

lemma tcp_options_step:
  assumes "0 < n" "tcp_option m p mss ws = Some (kind, len, mss', ws')" "kind \<noteq> 0"
  shows "tcp_options m p n mss ws =
    (if kind = 1 then tcp_options m (p + 1) (n - 1) mss' ws'
     else tcp_options m (p + unat len) (n - int (unat len)) mss' ws')"
  using assms by (subst tcp_options.simps) simp

text \<open>One option: \<open>x\<close> is a byte behind it, which is read as the length of a \<open>Nop\<close>.\<close>

lemma tcp_option_encoded:
  assumes "opt_ok opt" "rest \<noteq> []"
  shows "\<exists>kind len mss' ws'. tcp_option (pre @ encode_opt opt @ rest) (length pre) mss ws
      = Some (kind, len, mss', ws') \<and> kind \<noteq> 0
    \<and> (kind = 1 \<longleftrightarrow> opt = Nop) \<and> (kind \<noteq> 1 \<longrightarrow> unat len = length (encode_opt opt))
    \<and> (\<forall>os. announced os (mss', ws') = announced (opt # os) (mss, ws))"
proof (cases opt)
  case Nop
  then obtain x xs where "rest = x # xs" using assms(2) by (cases rest) auto
  with Nop show ?thesis by (simp add: tcp_option_def rd8_def nth_append)
next
  case (Mss v)
  then show ?thesis
    by (simp add: tcp_option_def rd8_def rd16_def nth_append bytes16_def le16_bytes)
next
  case (Wscale k)
  then show ?thesis by (simp add: tcp_option_def rd8_def nth_append)
next
  case (Other kind data)
  then have "kind \<notin> {0, 1, 2, 3}" "unat (of_nat (length data + 2) :: u8) = length data + 2"
    using assms(1) unat_of_nat8 [of "length data + 2"] by auto
  with Other show ?thesis by (simp add: tcp_option_def rd8_def nth_append)
qed

lemma tcp_options_encoded:
  "\<forall>opt \<in> set os. opt_ok opt \<Longrightarrow> rest \<noteq> [] \<Longrightarrow> k = 0 \<or> 1 < length rest \<and> hd rest = 0 \<Longrightarrow> 0 \<le> k \<Longrightarrow>
     tcp_options (pre @ encode_opts os @ rest) (length pre) (int (length (encode_opts os)) + k) mss ws
       = Some (Some (announced os (mss, ws)))"
proof (induction os arbitrary: pre mss ws)
  case Nil
  show ?case
  proof (cases "k = 0")
    case False
    with Nil obtain x xs where "rest = 0 # x # xs" by (cases rest; cases "tl rest") auto
    with Nil False show ?thesis
      by (simp add: encode_opts_def tcp_options.simps tcp_option_def rd8_def nth_append)
  qed (simp add: encode_opts_def)
next
  case (Cons opt os)
  let ?rest = "encode_opts os @ rest" and ?m = "pre @ encode_opts (opt # os) @ rest"
  have m: "?m = pre @ encode_opt opt @ ?rest" "?m = (pre @ encode_opt opt) @ encode_opts os @ rest"
    by (simp_all add: encode_opts_def)
  obtain kind len mss' ws' where o: "tcp_option ?m (length pre) mss ws = Some (kind, len, mss', ws')" "kind \<noteq> 0"
    "kind = 1 \<longleftrightarrow> opt = Nop" "kind \<noteq> 1 \<Longrightarrow> unat len = length (encode_opt opt)"
    "\<And>os. announced os (mss', ws') = announced (opt # os) (mss, ws)"
    using tcp_option_encoded [of opt ?rest pre mss ws] Cons.prems(1,2) unfolding m(1) by auto
  have n: "int (length (encode_opts (opt # os))) + k
      = int (length (encode_opt opt)) + (int (length (encode_opts os)) + k)"
    by (simp add: encode_opts_def)
  have pos: "0 < length (encode_opt opt)" by (cases opt) simp_all
  then have n0: "0 < int (length (encode_opts (opt # os))) + k" using n Cons.prems(4) by linarith
  have "tcp_options ?m (length pre) (int (length (encode_opts (opt # os))) + k) mss ws
      = tcp_options ?m (length (pre @ encode_opt opt)) (int (length (encode_opts os)) + k) mss' ws'"
    using tcp_options_step [OF n0 o(1,2)] o(3,4) by (cases "kind = 1") (simp_all only: n, auto)
  also have "\<dots> = Some (Some (announced os (mss', ws')))"
    unfolding m(2) by (rule Cons.IH) (use Cons.prems in simp_all)
  finally show ?case by (simp only: o(5))
qed

text \<open>An option of length zero: a turn of the loop leaves everything as it is.\<close>

lemma tcp_options_stuck:
  assumes "rd8 m p = Some kind" "kind \<notin> {0, 1}" "rd8 m (p + 1) = Some 0" "0 < n"
  shows "tcp_options m p n mss ws = None"
proof -
  have o: "tcp_option m p mss ws = Some (kind, 0, mss, ws)" using assms by (simp add: tcp_option_def)
  have "\<not> (\<exists>r. tcp_options m p n mss ws = Some r)"
  proof
    assume "\<exists>r. tcp_options m p n mss ws = Some r"
    then obtain r where r: "tcp_options m p n mss ws = Some r" by blast
    have "m' = m \<longrightarrow> p' = p \<longrightarrow> n' = n \<longrightarrow> mss' = mss \<longrightarrow> ws' = ws \<longrightarrow> False"
      if "tcp_options m' p' n' mss' ws' = Some r" for m' p' n' mss' ws'
    proof (rule tcp_options.raw_induct [OF _ that])
      fix rec m' p' n' mss' ws' y
      assume ih: "\<And>m' p' n' mss' ws' y. rec m' p' n' mss' ws' = Some y \<Longrightarrow>
          m' = m \<longrightarrow> p' = p \<longrightarrow> n' = n \<longrightarrow> mss' = mss \<longrightarrow> ws' = ws \<longrightarrow> False"
        and s: "(if n' \<le> 0 then Some (Some (mss', ws'))
          else case tcp_option m' p' mss' ws' of None \<Rightarrow> Some None
            | Some (kind, len, mss'', ws'') \<Rightarrow>
                if kind = 0 then Some (Some (mss', ws'))
                else if kind = 1 then rec m' (p' + 1) (n' - 1) mss'' ws''
                else rec m' (p' + unat len) (n' - int (unat len)) mss'' ws'') = Some y"
      show "m' = m \<longrightarrow> p' = p \<longrightarrow> n' = n \<longrightarrow> mss' = mss \<longrightarrow> ws' = ws \<longrightarrow> False"
        using ih [of m p n mss ws y] s o assms(2,4) by auto
    qed
    with r show False by blast
  qed
  then show ?thesis by simp
qed

section \<open>Properties\<close>


text \<open>
  C36. The options of a SYN are read as they are written: for any list of well-formed options, ended
  by the header's end or by an end-of-options byte, the loop ends and gives the last maximum segment
  size and the last window scale.
\<close>

theorem tcp_options_parsed:
  assumes "\<forall>opt \<in> set os. opt_ok opt" and "rest \<noteq> []"
    and "k = 0 \<or> 0 < k \<and> 1 < length rest \<and> hd rest = 0"
  shows "tcp_options (pre @ encode_opts os @ rest) (length pre) (int (length (encode_opts os)) + k) mss ws
    = Some (Some (announced os (mss, ws)))"
  using assms by (intro tcp_options_encoded) auto

text \<open>
  An option of length zero makes the loop never return, and the handler with it: every SYN of an
  unknown connection that carries one stops the engine.
\<close>

theorem tcp_option_zero_length_never_returns:
  assumes "tcp_in_of m n payload uid = Some ti" and "th_syn (ti_hdr ti)" and "\<not> th_urg (ti_hdr ti)"
    and "\<forall>s \<in> set ss. \<not> tcp_matches ti s" and "0 < ti_optlen ti"
    and "rd8 m (payload + 20) = Some kind" and "kind \<notin> {0, 1}" and "rd8 m (payload + 21) = Some 0"
  shows "tcp_options m (payload + 20) (uint (ti_optlen ti)) mss ws = None
    \<and> handle_tcp E args m n payload uid ss w = None"
proof -
  have "0 < uint (ti_optlen ti)" using assms(5) by (simp add: word_less_def)
  moreover have "rd8 m (payload + 20 + 1) = Some 0" using assms(8) by (simp add: add.commute)
  ultimately have stuck: "tcp_options m (payload + 20) (uint (ti_optlen ti)) mss ws = None" for mss ws
    using assms(6,7) by (intro tcp_options_stuck)
  have "List.extract (tcp_matches ti) ss = None" using assms(4) by (simp add: extract_None_iff)
  then have "handle_tcp E args m n payload uid ss w = None"
    unfolding handle_tcp_def using assms(1-3) stuck by (auto simp: Let_def bind_eq_None_conv)
  with stuck show ?thesis by blast
qed

text \<open>
  A packet of no connection is answered by exactly one reset that carries the number the peer
  expects, and the sessions stay; but the reset is always an IPv4 packet, also when the packet was
  an IPv6 one.
\<close>

theorem unknown_connection_reset:
  assumes "handle_tcp E args m n payload uid ss w = Some (ss', w')" and "tcp_in_of m n payload uid = Some ti"
    and "\<forall>s \<in> set ss. \<not> tcp_matches ti s" and "\<not> th_syn (ti_hdr ti)" and "\<not> th_urg (ti_hdr ti)"
  shows "ss' = ss \<and> (\<exists>p. w_trace w' = w_trace w @ [TunWrite p]
    \<and> tcp_packet (tcp_unknown ti) [] False False False True = Some p
    \<and> t_local_seq (tcp_unknown ti) = ntohl (th_ack_seq (ti_hdr ti)) \<and> take 1 p = [0x45])"
  using assms(1)
proof (cases rule: handle_tcp_cases)
  case (reset ti' t)
  with assms(2) have t: "write_rst E (tcp_unknown ti) w = Some (t, w')" by simp
  have l: "t_state (tcp_unknown ti) = TCP_NONE" "t_version (tcp_unknown ti) = 4"
    "t_local_seq (tcp_unknown ti) = ntohl (th_ack_seq (ti_hdr ti))"
    by (simp_all add: tcp_unknown_def Let_def)
  then have "listen_bump (tcp_unknown ti) = tcp_unknown ti" by (simp add: listen_bump_def)
  with write_rst_effect [OF t] l(1) obtain p where
    p: "tcp_packet (tcp_unknown ti) [] False False False True = Some p" "w_trace w' = w_trace w @ [TunWrite p]"
    by auto
  have "take 1 p = [0x45]"
    using p(1) l(2) by (auto simp: tcp_packet_def tcp_ip_part_def ip_part_def build_ip4_def ip4_header_def Let_def
        bind_eq_Some_conv)
  with p l(3) reset(5) show ?thesis by blast
qed (use assms in auto)

text \<open>
  Data that comes with a SYN is never forwarded: it is queued with the number of the SYN itself,
  the connection continues with the number after it, and so the head of the queue is never the
  segment to send.
\<close>

theorem syn_data_never_forwarded:
  assumes "tcp_new_session E redirect ti mss ws w = Some (Some s, w1)" and "ti_datalen ti \<noteq> 0"
    and "tcp_connected E' (ng_k s) w2 = Some (t, w3)"
  shows "t_forward t \<noteq> [] \<and> t_remote_seq t = ntohl (th_seq (ti_hdr ti)) + 1 \<and> \<not> head_ready t room
    \<and> forward_loop E' fd room False (t_forward t) t w4 = Some (False, t, w4)"
  using assms(1)
proof (cases rule: tcp_new_session_cases)
  case (new s' q window)
  then obtain g where g: "t_forward (ng_k s) = [g]" "seg_seq g = ntohl (th_seq (ti_hdr ti))" "seg_sent g = 0"
    using assms(2) by auto
  have r: "t_remote_seq (ng_k s) = ntohl (th_seq (ti_hdr ti))"
    using new by (simp add: tcp_fresh_def Let_def)
  let ?t = "(ng_k s)\<lparr>t_remote_seq := t_remote_seq (ng_k s) + 1\<rparr>"
  from assms(3) obtain res t1 w5 where a: "write_syn_ack E' ?t w2 = Some (res, t1, w5)"
    and "t_forward t = t_forward t1 \<and> t_remote_seq t = t_remote_seq t1"
    by (auto simp: tcp_connected_def sys_time_def bind_eq_Some_conv Let_def split: if_splits)
  moreover have "acked_write ?t res t1" using wrapper_effects(1) [OF a] by blast
  ultimately have t: "t_forward t = [g]" "t_remote_seq t = ntohl (th_seq (ti_hdr ti)) + 1"
    using g(1) r by (auto simp: acked_write_def)
  have "t\<lparr>t_forward := [g]\<rparr> = t" using t(1) by simp
  then show ?thesis using g(2,3) t by (simp add: head_ready_def)
qed simp

text \<open>
  The first data of a connection to port 443 is lost: while the answer of the proxy is
  outstanding the acknowledgement of the handshake queues a segment without data, the data that
  follows has the same number and only replaces the content of that segment, whose length stays
  zero; so nothing is left to forward until the peer sends it again.
\<close>

theorem tunnelled_first_data_lost:
  assumes "t_forward t = []" and "th_seq (ti_hdr a) = htonl (t_remote_seq t)" and "ti_datalen a = 0"
    and "th_seq (ti_hdr b) = htonl (t_remote_seq t)" and "ti_datalen b \<noteq> 0"
    and "tcp_queue_data a t = Some t1" and "tcp_queue_data b t1 = Some t2"
  shows "map seg_data (t_forward t2) = [take (unat (ti_datalen b)) (ti_mem b)] \<and> stream (t_forward t2) = []"
proof -
  let ?seq = "t_remote_seq t"
  have c: "compare_u32 ?seq ?seq = 0" by simp
  have "t1 = queue_tcp (ti_hdr a) t []"
    using assms(1-3,6) by (simp add: tcp_queue_data_def queue_copies_def rd_block_def c)
  then have t1: "t1 = t\<lparr>t_forward := [new_segment ?seq (th_psh (ti_hdr a)) []]\<rparr>"
    using assms(1,2) by (simp add: queue_tcp_def Let_def c)
  let ?g = "new_segment ?seq (th_psh (ti_hdr a)) []"
  have g: "seg_seq ?g = ?seq" "seg_len ?g = 0" "seg_sent ?g = 0" by (simp_all add: new_segment_def)
  have f1: "t_forward t1 = [?g]" "t_remote_seq t1 = ?seq" by (simp_all add: t1)
  have pos: "0 < ti_datalen b" using assms(5) by (simp add: word_gt_0)
  then have "queue_copies (ti_hdr b) t1 (ti_datalen b)"
    using assms(4) f1 g by (simp add: queue_copies_def c)
  with assms(7) obtain d where d: "rd_block (ti_mem b) 0 (unat (ti_datalen b)) = Some d"
    and t2: "t2 = queue_tcp (ti_hdr b) t1 d" by (auto simp: tcp_queue_data_def bind_eq_Some_conv)
  have dl: "length d = unat (ti_datalen b)" "d = take (unat (ti_datalen b)) (ti_mem b)"
    using d by (auto simp: rd_block_def split: if_splits)
  have "seg_len (new_segment ?seq (th_psh (ti_hdr b)) d) = ti_datalen b" by (simp add: new_segment_def dl(1))
  then have "t_forward t2 = [?g\<lparr>seg_data := d\<rparr>]"
    using f1 g pos assms(4,5) by (simp add: t2 queue_tcp_def Let_def new_segment_def c)
  then show ?thesis using g dl(2) by (simp add: stream_def seg_rest_def)
qed


text \<open>
  When a step behind \<open>socket\<close> fails, here the protection from the tunnel, the handler reports the
  failure and forgets the descriptor: nobody closes it.
\<close>

theorem open_tcp_socket_leaks:
  assumes "e_socket E (w_tick w) = Inr fd" and "\<not> e_protect E (w_tick w + 1) (int fd)"
  shows "\<exists>w'. open_tcp_socket E cur redirect w = (- 1, w')
    \<and> opened (w_trace w') = opened (w_trace w) @ [int fd] \<and> closed (w_trace w') = closed (w_trace w)"
  using assms by (rule open_tcp_socket_unprotected)

lemma length_decimal: "length (decimal b) \<le> 3"
  by (simp add: decimal_def Let_def)

lemma length_inet_ntoa: "length a = 4 \<Longrightarrow> length (inet_ntoa a) \<le> 15"
proof -
  assume "length a = 4"
  then obtain x y z u where a: "a = [x, y, z, u]" by (auto simp: eval_nat_numeral length_Suc_conv)
  show ?thesis
    using length_decimal [of x] length_decimal [of y] length_decimal [of z] length_decimal [of u]
    by (simp add: a inet_ntoa_def)
qed

lemma length_connect_request: "length (connect_request h) = length h + 25"
  by (simp add: connect_request_def)

lemma tcp_https_defined:
  assumes "length hostname \<le> 255" and "4 \<le> length (t_daddr (ng_k s))"
    and "unat (t_recv_scale (ng_k s)) < 32"
  shows "tcp_https E hostname s w \<noteq> None"
proof -
  let ?host = "if hostname \<noteq> [] then hostname else lookup_hostname (ip4 (t_daddr (ng_k s))) 512"
  have "length (inet_ntoa (ip4 (t_daddr (ng_k s)))) \<le> 15"
    using assms(2) by (intro length_inet_ntoa) (simp add: ip4_def)
  then have l: "length ?host \<le> 255" using assms(1) by (simp add: lookup_hostname_def)
  then have fits: "\<not> 512 \<le> length (connect_request (t_hostname (with_host hostname (ng_k s))))"
    if "?host \<noteq> []" using that by (simp add: with_host_def length_connect_request)
  have t: "(if ?host \<noteq> [] then (ng_k s)\<lparr>t_hostname := ?host\<rparr> else ng_k s) = with_host hostname (ng_k s)"
    by (simp add: with_host_def)
  have r: "\<exists>t w2. write_rst E (with_host hostname (ng_k s)) w1 = Some (t, w2)" for w1
    using write_rst_defined [of E "with_host hostname (ng_k s)" w1] assms(3) by auto
  show ?thesis
  proof (cases "t_connect_sent (with_host hostname (ng_k s)) = TCP_CONNECT_NOT_SENT \<and> ?host \<noteq> []")
    case True
    obtain x w1 where x: "sys_send E (ng_socket s)
        (connect_request (t_hostname (with_host hostname (ng_k s)))) False w = (x, w1)"
      by (cases "sys_send E (ng_socket s) (connect_request (t_hostname (with_host hostname (ng_k s)))) False w")
    obtain t w2 where "write_rst E (with_host hostname (ng_k s)) w1 = Some (t, w2)" using r by blast
    then show ?thesis
      unfolding tcp_https_def Let_def t if_P [OF True] if_not_P [OF fits [OF conjunct2 [OF True]]] x
      by (cases x) simp_all
  next
    case False
    show ?thesis unfolding tcp_https_def Let_def t if_not_P [OF False] by simp
  qed
qed

text \<open>
  The request to the proxy always fits in its buffer and is sent at most once: with a host name
  as the parser of the client hello gives it (at most 255 characters), or else with the address, the
  routine is defined; when the request was sent before nothing is sent, and after it was sent the
  session is marked, or closing if the socket did not take it.
\<close>

theorem connect_request_once:
  assumes "length hostname \<le> 255" and "4 \<le> length (t_daddr (ng_k s))"
    and "unat (t_recv_scale (ng_k s)) < 32" and "t_state (ng_k s) \<noteq> TCP_CLOSE"
  shows "\<exists>s' w'. tcp_https E hostname s w = Some (s', w')
    \<and> (t_connect_sent (ng_k s) \<noteq> TCP_CONNECT_NOT_SENT \<longrightarrow> w' = w)
    \<and> (w' = w \<or> t_connect_sent (ng_k s') = TCP_CONNECT_SENT \<or> t_state (ng_k s') = TCP_CLOSING)"
proof -
  obtain s' w' where h: "tcp_https E hostname s w = Some (s', w')"
    using tcp_https_defined [OF assms(1-3), of E w] by (cases "tcp_https E hostname s w") auto
  then have "(t_connect_sent (ng_k s) \<noteq> TCP_CONNECT_NOT_SENT \<longrightarrow> w' = w)
    \<and> (w' = w \<or> t_connect_sent (ng_k s') = TCP_CONNECT_SENT \<or> t_state (ng_k s') = TCP_CLOSING)"
  proof (cases rule: tcp_https_cases)
    case (failed e t' w1)
    then show ?thesis using assms(4) write_rst_effect [OF failed(3)] by (simp add: frame_simps)
  qed simp_all
  with h show ?thesis by blast
qed

text \<open>
  The acknowledged number only moves forward: a packet of an open connection leaves it, or sets
  it to all that was sent, or to a number that compares greater than it and less than what was sent.
\<close>

theorem acknowledged_moves_forward:
  assumes "tcp_control E sock h t w = Some (t', w')"
  shows "t_acked t' = t_acked t \<or> t_acked t' = t_local_seq t
    \<or> compare_u32 (t_acked t') (t_acked t) > 0 \<and> compare_u32 (t_acked t') (t_local_seq t) < 0"
proof -
  have fin: "t_acked t' = t_acked t" if "tcp_fin E t w = Some (t', w')"
  proof -
    from that show ?thesis
    proof (cases rule: tcp_fin_cases)
      case (ack res t1 st)
      have "t_acked t1 = t_acked t" using wrapper_effects(2) [OF ack(1)] by (auto simp: acked_write_def)
      then show ?thesis by (simp add: ack(2))
    qed simp_all
  qed
  have rst: "t_acked t' = t_acked t" if "write_rst E t w = Some (t', w')"
    using write_rst_effect [OF that] by (simp add: frame_simps)
  have acked: "t_acked (tcp_acked ack t) = ack" for ack by (simp add: tcp_acked_def Let_def)
  show ?thesis
  proof (cases "th_rst h")
    case True
    with assms show ?thesis by (auto simp: tcp_control_def)
  next
    case F: False
    note a = assms [unfolded tcp_control_def if_not_P [OF F]]
    show ?thesis
    proof (cases "\<not> th_ack h \<or> ntohl (th_ack_seq h) = t_local_seq t")
      case True
      note b = a [unfolded if_P [OF True]]
      consider (syn) "th_syn h" | (fin) "\<not> th_syn h" "th_fin h"
        | (ack) "\<not> th_syn h" "\<not> th_fin h" "th_ack h" | (none) "\<not> th_syn h" "\<not> th_fin h" "\<not> th_ack h"
        by blast
      then show ?thesis
      proof cases
        case fin
        with b have "tcp_fin E t w = Some (t', w')" by simp
        then show ?thesis using \<open>tcp_fin E t w = Some (t', w') \<Longrightarrow> t_acked t' = t_acked t\<close> by simp
      next
        case ack
        with b have "t' = tcp_acked (ntohl (th_ack_seq h)) t" by auto
        then show ?thesis using acked ack(3) True by simp
      qed (use b in auto)
    next
      case False
      note b = a [unfolded if_not_P [OF False] tcp_other_ack_def]
      let ?ack = "ntohl (th_ack_seq h)"
      consider "?ack + 1 = t_local_seq t" | "?ack + 1 \<noteq> t_local_seq t" "compare_u32 ?ack (t_local_seq t) < 0"
        | "?ack + 1 \<noteq> t_local_seq t" "\<not> compare_u32 ?ack (t_local_seq t) < 0" by blast
      then show ?thesis
      proof cases
        case 2
        with b have "t' = (if compare_u32 ?ack (t_acked t) \<le> 0 then t else t\<lparr>t_acked := ?ack\<rparr>)" by auto
        then show ?thesis using 2(2) by simp
      qed (use b rst in auto)
    qed
  qed
qed

section \<open>Instances\<close>

definition sample_args :: arguments where
  "sample_args = \<lparr>a_fwd53 = True, a_rcode = 3, a_proxyIp = lit ''10.0.0.1'' @ [0], a_proxyPort = 8080\<rparr>"

text \<open>A packet from 10.1.10.1:1024 to 93.184.216.34:443 with the given flags and options.\<close>

definition sample_packet :: "u8 \<Rightarrow> u8 \<Rightarrow> bytes \<Rightarrow> bytes" where
  "sample_packet doff flags options =
     [0x45, 0, 0, 40, 0, 0, 0, 0, 64, 6, 0, 0, 10, 1, 10, 1, 93, 184, 216, 34,
      4, 0, 1, 187, 0, 0, 3, 232, 0, 0, 0, 77, doff, flags, 2, 0, 0, 0, 0, 0] @ options"

definition sample_ack_in :: tcp_in where
  "sample_ack_in = the (tcp_in_of (sample_packet 0x50 16 []) 40 20 0)"

definition sample_syn_in :: tcp_in where
  "sample_syn_in = the (tcp_in_of (sample_packet 0x60 2 [5, 0, 0, 0]) 44 20 0)"

lemma sample_ack_in:
  "tcp_in_of (sample_packet 0x50 16 []) 40 20 0 = Some sample_ack_in"
  "\<not> th_syn (ti_hdr sample_ack_in)" "\<not> th_urg (ti_hdr sample_ack_in)" "\<not> th_rst (ti_hdr sample_ack_in)"
  "\<not> th_fin (ti_hdr sample_ack_in)" "th_ack (ti_hdr sample_ack_in)"
  "ti_mem sample_ack_in = []" "ti_datalen sample_ack_in = 0" "ti_optlen sample_ack_in = 0"
  by (simp_all add: sample_ack_in_def) code_simp+

lemma sample_syn_in:
  "tcp_in_of (sample_packet 0x60 2 [5, 0, 0, 0]) 44 20 0 = Some sample_syn_in"
  "th_syn (ti_hdr sample_syn_in)" "\<not> th_urg (ti_hdr sample_syn_in)" "0 < ti_optlen sample_syn_in"
  "rd8 (sample_packet 0x60 2 [5, 0, 0, 0]) 40 = Some 5" "rd8 (sample_packet 0x60 2 [5, 0, 0, 0]) 41 = Some 0"
  by (simp_all add: sample_syn_in_def) code_simp+

lemma sample_redirect: "\<exists>r. tcp_redirect sample_args = Some r"
  by (simp add: tcp_redirect_def sample_args_def cstr_def lit_def)

lemma sample_reset:
  "\<exists>w'. handle_tcp calm sample_args (sample_packet 0x50 16 []) 40 20 0 [] start = Some ([], w')"
proof -
  obtain r where r: "tcp_redirect sample_args = Some r" using sample_redirect by blast
  obtain t w' where "write_rst calm (tcp_unknown sample_ack_in) start = Some (t, w')"
    using write_rst_defined [of calm "tcp_unknown sample_ack_in" start] by (auto simp: tcp_unknown_def Let_def)
  then show ?thesis
    using sample_ack_in r
    by (simp add: handle_tcp_def Let_def parse_tls_header_def TLS_HEADER_LEN_def List.extract_def)
qed


theorem tcp_options_parsed_witness:
  "tcp_options ([9] @ encode_opts [Mss 1460, Nop, Wscale 7, Other 8 [1, 2]] @ [0, 0]) 1
     (int (length (encode_opts [Mss 1460, Nop, Wscale 7, Other 8 [1, 2]])) + 2) 536 0 = Some (Some (1460, 7))"
  using tcp_options_parsed [of "[Mss 1460, Nop, Wscale 7, Other 8 [1, 2]]" "[0, 0]" 2 "[9]" 536 0] by simp

theorem tcp_option_zero_length_never_returns_witness:
  "handle_tcp calm sample_args (sample_packet 0x60 2 [5, 0, 0, 0]) 44 20 0 [] start = None"
  using tcp_option_zero_length_never_returns [OF sample_syn_in(1-3), of "[]" 5] sample_syn_in(4-6) by simp

theorem unknown_connection_reset_witness:
  "\<exists>w' p. handle_tcp calm sample_args (sample_packet 0x50 16 []) 40 20 0 [] start = Some ([], w')
    \<and> w_trace w' = [TunWrite p] \<and> take 1 p = [0x45]"
proof -
  obtain w' where h: "handle_tcp calm sample_args (sample_packet 0x50 16 []) 40 20 0 [] start = Some ([], w')"
    using sample_reset by blast
  from unknown_connection_reset [OF h sample_ack_in(1) _ sample_ack_in(2,3)] h show ?thesis
    by (auto simp: start_def)
qed

theorem tunnelled_first_data_lost_witness:
  "\<exists>t1 t2. tcp_queue_data (sample_ack_in\<lparr>ti_hdr := sample_hdr 1000\<rparr>) sample_tcp = Some t1
    \<and> tcp_queue_data (sample_ack_in\<lparr>ti_hdr := sample_hdr 1000, ti_mem := [22, 3], ti_datalen := 2\<rparr>) t1 = Some t2
    \<and> stream (t_forward t2) = []"
proof -
  let ?a = "sample_ack_in\<lparr>ti_hdr := sample_hdr 1000\<rparr>"
  let ?b = "sample_ack_in\<lparr>ti_hdr := sample_hdr 1000, ti_mem := [22, 3], ti_datalen := 2\<rparr>"
  have s: "t_forward sample_tcp = []" "t_remote_seq sample_tcp = 1000" by (simp_all add: sample_tcp_def)
  obtain t1 where t1: "tcp_queue_data ?a sample_tcp = Some t1"
    using tcp_queue_data_defined [of ?a sample_tcp] sample_ack_in(8) by auto
  obtain t2 where t2: "tcp_queue_data ?b t1 = Some t2" using tcp_queue_data_defined [of ?b t1] by auto
  from tunnelled_first_data_lost [of sample_tcp ?a ?b t1 t2] s t1 t2 sample_ack_in(8) show ?thesis by simp
qed


theorem open_tcp_socket_leaks_witness:
  "\<exists>w'. open_tcp_socket (calm\<lparr>e_protect := (\<lambda>n fd. False)\<rparr>) sample_tcp \<lparr>al_raddr = [], al_rport = 8080\<rparr> start
      = (- 1, w') \<and> opened (w_trace w') = [9] \<and> closed (w_trace w') = []"
  using open_tcp_socket_leaks [of "calm\<lparr>e_protect := (\<lambda>n fd. False)\<rparr>" start 9] by (simp add: calm_def start_def)

theorem connect_request_once_witness:
  "\<exists>s' w'. tcp_https calm [] sample_ng start = Some (s', w')"
  using connect_request_once [of "[]" sample_ng calm start] by (auto simp: sample_ng_def sample_tcp_def)

theorem acknowledged_moves_forward_witness:
  "\<exists>t' w'. tcp_control calm 9 (sample_hdr 1000) sample_tcp start = Some (t', w')
    \<and> (t_acked t' = t_acked sample_tcp \<or> t_acked t' = 77)"
proof -
  have l: "t_local_seq sample_tcp = 77" by (simp add: sample_tcp_def)
  then obtain t' w' where c: "tcp_control calm 9 (sample_hdr 1000) sample_tcp start = Some (t', w')"
    and "t_acked t' = 77"
    by (simp add: tcp_control_def sample_hdr_def tcp_acked_def Let_def)
  with acknowledged_moves_forward [OF c] show ?thesis by blast
qed

theorem syn_data_never_forwarded_witness:
  "\<exists>s w1 t w3. tcp_new_session calm \<lparr>al_raddr = [], al_rport = 8080\<rparr>
       (sample_syn_in\<lparr>ti_mem := [1, 2], ti_datalen := 2\<rparr>) 1460 0 start = Some (Some s, w1)
     \<and> tcp_connected calm (ng_k s) w1 = Some (t, w3) \<and> t_forward t \<noteq> [] \<and> \<not> head_ready t 65536"
proof -
  let ?ti = "sample_syn_in\<lparr>ti_mem := [1, 2], ti_datalen := 2\<rparr>" and ?r = "\<lparr>al_raddr = [], al_rport = 8080\<rparr>"
  obtain fresh where fresh: "tcp_syn_data ?ti (tcp_fresh ?ti 1460 0 (e_time calm 0)
      (ucast (ntohs (th_window (ti_hdr ?ti)))) (e_rand calm 1)) = Some fresh"
    by (simp add: tcp_syn_data_def rd_block_def)
  have port: "t_recv_scale fresh = 0"
    using tcp_syn_data_frame [OF fresh] by (auto simp: tcp_fresh_def Let_def)
  have o: "open_tcp_socket calm fresh ?r (tick (tick start)) =
      (9, snd (open_tcp_socket calm fresh ?r (tick (tick start))))"
    by (auto simp: open_tcp_socket_def calm_def sys_socket_def protect_socket_def
        sys_fcntl_def sys_connect_def Let_def split: option.splits prod.splits)
  let ?s = "\<lparr>ng_k = fresh, ng_socket = 9, ng_ev = EPOLLOUT OR EPOLLERR, ng_ptr = 0\<rparr>"
  obtain win w2 where g: "get_receive_window calm ?s (snd (open_tcp_socket calm fresh ?r (tick (tick start))))
      = Some (win, w2)"
    by (cases "get_receive_window calm ?s (snd (open_tcp_socket calm fresh ?r (tick (tick start))))")
      (auto simp: get_receive_window_def shl32_def shr32_def Let_def port split: prod.splits)
  have l: "\<exists>v. shl_int (ntohs (th_window (ti_hdr ?ti))) 0 = Some v"
    using unat_u16 [of "ntohs (th_window (ti_hdr ?ti))"] by (simp add: shl_int_def)
  have "\<exists>s w1. tcp_new_session calm ?r ?ti 1460 0 start = Some (Some s, w1)"
    unfolding tcp_new_session_def Let_def sys_time_def sys_rand_def prod.case
    using l fresh o g by (auto simp: shl32_def start_def split: prod.splits)
  then obtain s w1 where n: "tcp_new_session calm ?r ?ti 1460 0 start = Some (Some s, w1)" by blast
  have sc: "t_recv_scale (ng_k s) = 0"
    using n by (cases rule: tcp_new_session_cases) (auto simp: tcp_fresh_def Let_def)
  let ?t = "(ng_k s)\<lparr>t_remote_seq := t_remote_seq (ng_k s) + 1\<rparr>"
  have "write_syn_ack calm ?t w1 \<noteq> None"
    using wrapper_defined [of calm ?t "[]" True True False False w1] sc
    by (simp add: write_syn_ack_def del: not_None_eq)
  then obtain res t1 w2 where "write_syn_ack calm ?t w1 = Some (res, t1, w2)" by auto
  then have "\<exists>p. tcp_connected calm (ng_k s) w1 = Some p"
    by (cases "0 \<le> res") (simp_all add: tcp_connected_def sys_time_def)
  then obtain t w3 where c: "tcp_connected calm (ng_k s) w1 = Some (t, w3)" by auto
  from syn_data_never_forwarded [OF n _ c] n c show ?thesis by auto
qed

end
