(* ===== verification/Ensures.thy ===== *)
theory Ensures
  imports TcpHandle
begin

text \<open>
  What a computation ensures: partial correctness statements over the results of an operation, computed along its
  steps. An interface states when a predicate of the world is kept by all system calls that do not write to
  the tunnel; the calls of the TCP relay are then taken apart once for all such predicates.
\<close>

section \<open>Statements\<close>

text \<open>
  \<open>pred_option Q r\<close> says: if the computation \<open>r\<close> has a result, \<open>Q\<close> holds of it. The rules of the collection
  \<open>wp\<close> replace a call by what is known of it.
\<close>

named_theorems wp \<open>what the operations ensure\<close>

lemma pred_bind [simp]: "pred_option Q (r \<bind> f) = pred_option (\<lambda>x. pred_option Q (f x)) r"
  by (cases r) simp_all

lemma pred_all: "pred_option Q r \<longleftrightarrow> (\<forall>x. r = Some x \<longrightarrow> Q x)"
  by (cases r) simp_all

lemma wp_mono: "pred_option P r \<Longrightarrow> (\<And>x. P x \<Longrightarrow> Q x) \<Longrightarrow> pred_option Q r"
  by (blast intro: option.pred_mono_strong)

lemma any_wp: "(\<And>x. Q x) \<Longrightarrow> pred_option Q r"
  by (simp add: pred_all)

lemma if_wp: "(b \<Longrightarrow> pred_option Q x) \<Longrightarrow> (\<not> b \<Longrightarrow> pred_option Q y) \<Longrightarrow> pred_option Q (if b then x else y)"
  by simp

text \<open>Calls of which only the existence of a result matters.\<close>

lemma timeouts_wp [wp]:
  "(\<And>x. Q x) \<Longrightarrow> pred_option Q (get_tcp_timeout t n m)" "(\<And>x. Q x) \<Longrightarrow> pred_option Q (get_udp_timeout u n m)"
  "(\<And>x. Q x) \<Longrightarrow> pred_option Q (get_icmp_timeout i n m)"
  by (rule any_wp; assumption)+

lemma outgoing_wp: "(\<And>x. Q x) \<Longrightarrow> pred_option Q (outgoing t q)"
  by (rule any_wp)

lemma shl_int_wp:
  "(\<And>x. unat b < 32 \<Longrightarrow> Q x) \<Longrightarrow> pred_option Q (shl_int a b)" "(\<And>x. unat b < 32 \<Longrightarrow> Q x) \<Longrightarrow> pred_option Q (shl32 c b)"
  by (simp_all add: pred_all shl_int_def shl32_def)

lemma parses_wp: "(\<And>x. Q x) \<Longrightarrow> pred_option Q (parse_tls_header b m n)" "(\<And>x. R x) \<Longrightarrow> pred_option R (tcp_redirect args)"
  "(\<And>mss ws. P (Some (mss, ws))) \<Longrightarrow> P None \<Longrightarrow> pred_option P (tcp_options m p l mss ws)"
  by (simp_all add: pred_all) (metis option.exhaust surj_pair)

lemma reads_wp: "(\<And>x. Q x) \<Longrightarrow> pred_option Q (rd8 m p)" "(\<And>x. R x) \<Longrightarrow> pred_option R (rd16 m p)"
  by (simp_all add: pred_all)

section \<open>Predicates of the world\<close>

locale world_pred =
  fixes P :: "world \<Rightarrow> bool"
  assumes at_tick: "P w \<Longrightarrow> P (tick w)"
    and at_emit: "P w \<Longrightarrow> (\<And>p. e \<noteq> TunWrite p) \<Longrightarrow> P (emit e w)"
begin

lemmas tick [simp, wp] = at_tick

lemma emits [simp, wp]:
  "P w \<Longrightarrow> P (emit (SockOpen fd v) w)" "P w \<Longrightarrow> P (emit (SockClose fd) w)"
  "P w \<Longrightarrow> P (emit (SockConnect fd a q) w)" "P w \<Longrightarrow> P (emit (SockSend fd b m r) w)"
  "P w \<Longrightarrow> P (emit (SockSendTo fd b a q s) w)" "P w \<Longrightarrow> P (emit (SockOpt fd opt) w)"
  "P w \<Longrightarrow> P (emit (EpollAdd fd ev i) w)" "P w \<Longrightarrow> P (emit (EpollMod fd ev) w)"
  "P w \<Longrightarrow> P (emit (EpollClose fd) w)"
  by (rule at_emit; simp)+

lemma recv:
  assumes "P w" "\<And>e w'. P w' \<Longrightarrow> pred_option Q (f (Inl e) w')"
    "\<And>b w'. length b \<le> n \<Longrightarrow> P w' \<Longrightarrow> pred_option Q (f (Inr b) w')"
  shows "pred_option Q (case sys_recv E fd n w of (r, w) \<Rightarrow> f r w)"
  using assms by (auto simp: sys_recv_def split: sum.split)

lemma send:
  assumes "P w" "\<And>r w'. P w' \<Longrightarrow> pred_option Q (f r w')"
  shows "pred_option Q (case sys_send E fd b m w of (r, w) \<Rightarrow> f r w)"
  using assms by (simp add: sys_send_def Let_def)

lemma receive_buffer [wp]:
  assumes "P w" "\<And>n w'. P w' \<Longrightarrow> pred_option Q (f n w')"
  shows "pred_option Q (case get_receive_buffer E s w of (n, w) \<Rightarrow> f n w)"
  using assms by (simp add: get_receive_buffer_def Let_def)

lemma receive_window:
  assumes "P w" "\<And>n w'. P w' \<Longrightarrow> Q (n, w')"
  shows "pred_option Q (get_receive_window E s w)"
  using assms unfolding get_receive_window_def by (auto intro!: receive_buffer simp: Let_def shl32_def shr32_def)

lemma drain_call:
  assumes "P w" "\<And>w'. P w' \<Longrightarrow> Q w'"
  shows "pred_option Q (drain E fd w)"
proof -
  have "P w'" if "drain E fd w = Some w'" "P w" for w w'
  proof -
    have "P w \<longrightarrow> P w'"
    proof (rule drain.raw_induct [OF _ that(1)], rule impI)
      fix loop E fd w w'
      assume "\<And>E fd w w'. loop E fd w = Some w' \<Longrightarrow> P w \<longrightarrow> P w'"
        and "(let (r, w) = sys_recv E fd 512 w
          in (case r of Inl e \<Rightarrow> Some w | Inr b \<Rightarrow> if b = [] then Some w else loop E fd w)) = Some w'"
        and "P w"
      then show "P w'" by (auto simp: sys_defs split: sum.splits if_splits)
    qed
    then show ?thesis using that(2) by simp
  qed
  then show ?thesis using assms by (simp add: pred_all)
qed

lemma open_socket [wp]: "P w \<Longrightarrow> P (snd (open_tcp_socket E t redirect w))"
  by (auto simp: open_tcp_socket_def sys_defs split: sum.split option.split)

lemma add_socket [wp]: "P w \<Longrightarrow> P (snd (epoll_add E fd ev i w))"
  by (simp add: sys_defs)

end

end
