(* ===== verification/Udp.thy ===== *)
theory Udp
  imports SessionCheck Packets Dns
begin

text \<open>
  \<open>udp.c\<close> and \<open>dhcp.c\<close>: the relay of datagrams. A session is opened by the first datagram, every
  datagram out of the tunnel is sent to the destination as it is, every answer is written back in one
  packet, and a session for port 53 ends with its first answer. First the translation in the order
  of the source, with the DHCP responder before its only caller, then the facts and the properties.
\<close>

section \<open>The periodic check\<close>

definition udp_expire :: "int \<Rightarrow> int \<Rightarrow> udp_session \<Rightarrow> udp_session" where
  "udp_expire timeout now u =
     (if u_state u = UDP_ACTIVE \<and> u_time u + timeout < now then u\<lparr>u_state := UDP_FINISHING\<rparr> else u)"

definition udp_finish :: "env \<Rightarrow> udp_session ng_session \<Rightarrow> world \<Rightarrow> udp_session ng_session \<times> world" where
  "udp_finish E s w =
     (if u_state (ng_k s) = UDP_FINISHING then
        let w = sys_close (ng_socket s) w;
            (now', w) = sys_time E w
        in (s\<lparr>ng_k := (ng_k s)\<lparr>u_time := now', u_state := UDP_CLOSED\<rparr>, ng_socket := - 1\<rparr>, w)
      else (s, w))"

definition udp_uncount :: "udp_session \<Rightarrow> udp_session" where
  "udp_uncount u =
     (if u_state u = UDP_CLOSED \<and> (u_sent u \<noteq> 0 \<or> u_received u \<noteq> 0)
      then u\<lparr>u_sent := 0, u_received := 0\<rparr> else u)"

definition check_udp_session ::
  "env \<Rightarrow> int \<Rightarrow> int \<Rightarrow> udp_session ng_session \<Rightarrow> world
     \<Rightarrow> (bool \<times> udp_session ng_session \<times> world) option" where
  "check_udp_session E sessions maxsessions s w =
     do { let (now, w) = sys_time E w;
          timeout \<leftarrow> get_udp_timeout (ng_k s) sessions maxsessions;
          let (s, w) = udp_finish E (s\<lparr>ng_k := udp_expire timeout now (ng_k s)\<rparr>) w;
          let s = s\<lparr>ng_k := udp_uncount (ng_k s)\<rparr>;
          Some ((u_state (ng_k s) = UDP_CLOSED \<or> u_state (ng_k s) = UDP_BLOCKED)
                \<and> u_time (ng_k s) + UDP_KEEP_TIMEOUT < now, s, w) }"

section \<open>Writing a datagram to the tunnel\<close>

definition udp_header :: "u16 \<Rightarrow> u16 \<Rightarrow> nat \<Rightarrow> u16 \<Rightarrow> bytes" where
  "udp_header source dest len check =
     bytes16 source @ bytes16 dest @ bytes16 (htons (of_nat len)) @ bytes16 check"

definition udp_packet :: "udp_session \<Rightarrow> bytes \<Rightarrow> bytes" where
  "udp_packet cur data =
     (let n = 8 + length data;
          (ip, csum) = ip_part (u_version cur) (u_saddr cur) (u_daddr cur) IPPROTO_UDP n;
          csum = calc_checksum csum (udp_header (u_dest cur) (u_source cur) n 0);
          csum = calc_checksum csum data
      in ip @ udp_header (u_dest cur) (u_source cur) n (NOT csum) @ data)"

definition write_udp :: "env \<Rightarrow> udp_session \<Rightarrow> bytes \<Rightarrow> world \<Rightarrow> int \<times> world" where
  "write_udp E cur data w =
     (let buffer = udp_packet cur data;
          (res, w) = tun_write E buffer w
      in (if ssize_to_size res \<noteq> int (length buffer) then - 1 else res, w))"

section \<open>Events of the socket\<close>

text \<open>
  The buffer has \<open>mss\<close> bytes, of which those behind the datagram are what the allocation holds. The
  value of a pending socket error is only logged.
\<close>

definition check_udp_socket ::
  "env \<Rightarrow> u32 \<Rightarrow> udp_session ng_session \<Rightarrow> world \<Rightarrow> (udp_session ng_session \<times> world) option" where
  "check_udp_socket E ev s w =
     (if ev AND EPOLLERR \<noteq> 0 then
        let (now, w) = sys_time E w
        in Some (s\<lparr>ng_k := (ng_k s)\<lparr>u_time := now, u_state := UDP_FINISHING\<rparr>\<rparr>, w)
      else if ev AND EPOLLIN \<noteq> 0 then
        let (now, w) = sys_time E w;
            u = (ng_k s)\<lparr>u_time := now\<rparr>;
            (r, w) = sys_recv E (ng_socket s) (unat (u_mss u)) w
        in case r of
             Inl e \<Rightarrow> Some (s\<lparr>ng_k := (if e \<noteq> EINTR \<and> e \<noteq> EAGAIN then u\<lparr>u_state := UDP_FINISHING\<rparr> else u)\<rparr>, w)
           | Inr bytes \<Rightarrow>
               if bytes = [] then Some (s\<lparr>ng_k := u\<lparr>u_state := UDP_FINISHING\<rparr>\<rparr>, w)
               else
                 do { let u = u\<lparr>u_received := u_received u + of_nat (length bytes)\<rparr>;
                      dns \<leftarrow> (if ntohs (u_dest u) = 53
                             then parse_dns_response (allocated E w bytes (unat (u_mss u))) (length bytes)
                             else Some ());
                      let (res, w) = write_udp E u bytes w;
                      Some (s\<lparr>ng_k := (if res < 0 \<or> ntohs (u_dest u) = 53
                                      then u\<lparr>u_state := UDP_FINISHING\<rparr> else u)\<rparr>, w) }
      else Some (s, w))"

section \<open>Finding a session\<close>

definition udp_matches :: "nat \<Rightarrow> u16 \<Rightarrow> u16 \<Rightarrow> bytes \<Rightarrow> bytes \<Rightarrow> session \<Rightarrow> bool" where
  "udp_matches version source dest src dst s =
     (case s of
        UDP c \<Rightarrow> u_version (ng_k c) = version \<and> u_source (ng_k c) = source \<and> u_dest (ng_k c) = dest
          \<and> (if version = 4 then ip4 (u_saddr (ng_k c)) = src \<and> ip4 (u_daddr (ng_k c)) = dst
             else u_saddr (ng_k c) = src \<and> u_daddr (ng_k c) = dst)
      | _ \<Rightarrow> False)"

definition has_udp_session :: "arguments \<Rightarrow> bytes \<Rightarrow> nat \<Rightarrow> session list \<Rightarrow> bool option" where
  "has_udp_session args m payload ss =
     do { b \<leftarrow> rd8 m 0;
          let version = unat (drop_bit 4 b);
          dest \<leftarrow> rd16 m (payload + 2);
          if ntohs dest = 53 \<and> \<not> a_fwd53 args then Some True
          else do { source \<leftarrow> rd16 m payload;
                    (src, dst) \<leftarrow> pkt_addrs version m;
                    Some (\<exists>s \<in> set ss. udp_matches version source dest src dst s) } }"

text \<open>
  The session that blocks a connection; it has no socket. The members the source leaves
  uninitialised are not read in this state.
\<close>

definition block_udp ::
  "env \<Rightarrow> bytes \<Rightarrow> nat \<Rightarrow> int \<Rightarrow> session list \<Rightarrow> world \<Rightarrow> (session list \<times> world) option" where
  "block_udp E m payload uid ss w =
     do { b \<leftarrow> rd8 m 0;
          let version = unat (drop_bit 4 b);
          source \<leftarrow> rd16 m payload;
          dest \<leftarrow> rd16 m (payload + 2);
          (src, dst) \<leftarrow> pkt_addrs version m;
          let ptr = w_tick w;
          let (now, w) = sys_time E w;
          let u = \<lparr>u_time = now, u_uid = uid, u_version = version, u_mss = 0, u_sent = 0, u_received = 0,
                   u_saddr = src, u_source = source, u_daddr = dst, u_dest = dest, u_state = UDP_BLOCKED\<rparr>;
          Some (UDP \<lparr>ng_k = u, ng_socket = - 1, ng_ev = 0, ng_ptr = ptr\<rparr> # ss, w) }"

section \<open>Opening the socket\<close>

definition open_udp_socket :: "env \<Rightarrow> udp_session \<Rightarrow> allowed option \<Rightarrow> world \<Rightarrow> int \<times> world" where
  "open_udp_socket E cur redirect w =
     (let version = (case redirect of None \<Rightarrow> u_version cur
                     | Some r \<Rightarrow> if of_char CHR '':'' \<in> set (al_raddr r) then 6 else 4);
          (r, w) = sys_socket E (if version = 4 then 4 else 6) w
      in case r of Inl e \<Rightarrow> (- 1, w)
         | Inr sock \<Rightarrow>
             let (prot, w) = protect_socket E sock w in
             if prot < 0 then (- 1, w)
             else if u_version cur = 4 then
               (sock, if ip4 (u_daddr cur) = [0xFF, 0xFF, 0xFF, 0xFF] then sys_setsockopt sock SO_BROADCAST w
                      else w)
             else
               (sock, if take 1 (u_daddr cur) = [0xFF]
                      then sys_setsockopt sock IPV6_ADD_MEMBERSHIP
                             (sys_setsockopt sock IPV6_MULTICAST_HOPS
                               (sys_setsockopt sock IPV6_MULTICAST_LOOP w))
                      else w))"

section \<open>The DHCP responder\<close>

definition DHCP_OPTION_MAGIC_NUMBER :: u32 where "DHCP_OPTION_MAGIC_NUMBER = 0x63825363"

text \<open>\<open>sizeof(struct dhcp_packet)\<close> and the places of its members.\<close>

definition DHCP_LEN :: nat where "DHCP_LEN = 240"

text \<open>
  The options of the answer: message type, subnet mask, gateway, lease time (in host byte order),
  server, name server, end.
\<close>

definition dhcp_options :: "u8 \<Rightarrow> bytes" where
  "dhcp_options type =
     [53, 1, type] @ [1, 4, 255, 255, 255, 0] @ [3, 4, 10, 1, 10, 1] @ [51, 4] @ bytes32 3600
     @ [54, 4, 10, 1, 10, 1] @ [6, 4, 8, 8, 8, 8] @ [255]"

text \<open>
  The response has 500 bytes. The options are written where \<open>response + sizeof(struct dhcp_packet)\<close>
  points: \<open>response\<close> is a pointer to the struct, so this is 240 structs further.
\<close>

definition dhcp_response :: "bytes \<Rightarrow> bool \<Rightarrow> bytes option" where
  "dhcp_response request offer =
     do { r \<leftarrow> wr_block (replicate 500 0) 0 request;
          r \<leftarrow> wr_block r 0 [if offer then 2 else 4];
          r \<leftarrow> wr_block r 8 [0, 0];
          r \<leftarrow> wr_block r 10 [0, 0];
          r \<leftarrow> wr_block r 12 [0, 0, 0, 0];
          r \<leftarrow> wr_block r 16 [10, 1, 10, 2];
          r \<leftarrow> wr_block r 20 [10, 1, 10, 1];
          r \<leftarrow> wr_block r 24 [0, 0, 0, 0];
          wr_block r (DHCP_LEN * DHCP_LEN) (dhcp_options (if offer then 2 else 5)) }"

text \<open>The source address of the session is overwritten, although it is declared constant.\<close>

definition check_dhcp ::
  "env \<Rightarrow> udp_session \<Rightarrow> bytes \<Rightarrow> nat \<Rightarrow> world \<Rightarrow> (int \<times> udp_session \<times> world) option" where
  "check_dhcp E u data datalen w =
     (if datalen < DHCP_LEN then Some (- 1, u, w)
      else do {
        magic \<leftarrow> rd32 data 236;
        if ntohl magic \<noteq> DHCP_OPTION_MAGIC_NUMBER then Some (- 1, u, w)
        else do {
          htype \<leftarrow> rd8 data 1;
          hlen \<leftarrow> rd8 data 2;
          if htype \<noteq> 1 \<or> hlen \<noteq> 6 then Some (- 1, u, w)
          else do {
            opcode \<leftarrow> rd8 data 0;
            if opcode = 1 then
              do { let u = u\<lparr>u_saddr := [10, 1, 10, 1] @ drop 4 (u_saddr u)\<rparr>;
                   request \<leftarrow> rd_block data 0 DHCP_LEN;
                   siaddr \<leftarrow> rd32 data 20;
                   response \<leftarrow> dhcp_response request (siaddr = 0);
                   let (res, w) = write_udp E u response w;
                   Some (0, u, w) }
            else Some (0, u, w) } } })"

section \<open>A datagram out of the tunnel\<close>

text \<open>
  The end of \<open>handle_udp\<close>: DNS and DHCP checks, then the datagram is sent. \<open>mem\<close> is the memory behind
  the pointer \<open>data\<close>. When fewer bytes are sent than asked for, \<open>errno\<close> is an old value.
\<close>

definition udp_send ::
  "env \<Rightarrow> udp_session ng_session \<Rightarrow> bytes \<Rightarrow> nat \<Rightarrow> world \<Rightarrow> (udp_session ng_session \<times> world) option" where
  "udp_send E s mem datalen w =
     do { let (now, w) = sys_time E w;
          let u = (ng_k s)\<lparr>u_time := now\<rparr>;
          data \<leftarrow> rd_block mem 0 (datalen mod 2 ^ 32);
          let addr = (if u_version u = 4 then ip4 (u_daddr u) else u_daddr u);
          let stale = e_errno E (w_tick w);
          let (r, w) = sys_sendto E (ng_socket s) data addr (u_dest u) w;
          let err = (case r of Inl e \<Rightarrow> Some e | Inr n \<Rightarrow> if n = datalen then None else Some stale);
          Some (s\<lparr>ng_k := (case err of
                    None \<Rightarrow> u\<lparr>u_sent := u_sent u + of_nat datalen\<rparr>
                  | Some e \<Rightarrow> if e \<noteq> EINTR \<and> e \<noteq> EAGAIN then u\<lparr>u_state := UDP_FINISHING\<rparr> else u)\<rparr>, w) }"

definition udp_forward ::
  "env \<Rightarrow> u16 \<Rightarrow> u16 \<Rightarrow> bytes \<Rightarrow> nat \<Rightarrow> udp_session ng_session \<Rightarrow> world
     \<Rightarrow> (udp_session ng_session \<times> world) option" where
  "udp_forward E source dest mem datalen s w =
     do { dns \<leftarrow> (if ntohs dest = 53 then map_option (\<lambda>_. ()) (get_dns_query mem datalen) else Some ());
          (r, u, w) \<leftarrow> (if ntohs source = 68 \<or> ntohs dest = 67 then check_dhcp E (ng_k s) mem datalen w
                        else Some (- 1, ng_k s, w));
          if r \<ge> 0 then Some (s\<lparr>ng_k := u\<rparr>, w) else udp_send E (s\<lparr>ng_k := u\<rparr>) mem datalen w }"

text \<open>The session of a first datagram; \<open>None\<close> in place of it when the socket could not be opened.\<close>

definition udp_new_session ::
  "env \<Rightarrow> nat \<Rightarrow> u16 \<Rightarrow> u16 \<Rightarrow> bytes \<Rightarrow> bytes \<Rightarrow> int \<Rightarrow> world \<Rightarrow> udp_session ng_session option \<times> world" where
  "udp_new_session E version source dest src dst uid w =
     (let ptr = w_tick w;
          (now, w) = sys_time E w;
          u = \<lparr>u_time = now, u_uid = uid, u_version = version,
               u_mss = of_nat (if version = 4 then UDP4_MAXMSG else UDP6_MAXMSG), u_sent = 0,
               u_received = 0, u_saddr = src, u_source = source, u_daddr = dst, u_dest = dest,
               u_state = UDP_ACTIVE\<rparr>;
          (sock, w) = open_udp_socket E u None w
      in if sock < 0 then (None, w)
         else let ev = EPOLLIN OR EPOLLERR; (fail, w) = epoll_add E sock ev ptr w
              in (Some \<lparr>ng_k = u, ng_socket = sock, ng_ev = ev, ng_ptr = ptr\<rparr>, w))"

definition handle_udp ::
  "env \<Rightarrow> bytes \<Rightarrow> nat \<Rightarrow> nat \<Rightarrow> int \<Rightarrow> session list \<Rightarrow> world \<Rightarrow> (session list \<times> world) option"
where
  "handle_udp E m len payload uid ss w =
     do { b \<leftarrow> rd8 m 0;
          let version = unat (drop_bit 4 b);
          source \<leftarrow> rd16 m payload;
          dest \<leftarrow> rd16 m (payload + 2);
          (src, dst) \<leftarrow> pkt_addrs version m;
          let mem = drop (payload + 8) m;
          let datalen = size_sub len (payload + 8);
          case List.extract (udp_matches version source dest src dst) ss of
            None \<Rightarrow>
              (let (new, w) = udp_new_session E version source dest src dst uid w
               in case new of
                    None \<Rightarrow> Some (ss, w)
                  | Some s \<Rightarrow> do { (s, w) \<leftarrow> udp_forward E source dest mem datalen s w; Some (UDP s # ss, w) })
          | Some (before, s, behind) \<Rightarrow>
              (case s of
                 UDP c \<Rightarrow>
                   if u_state (ng_k c) \<noteq> UDP_ACTIVE then Some (ss, w)
                   else do { (c, w) \<leftarrow> udp_forward E source dest mem datalen c w;
                             Some (before @ UDP c # behind, w) }
               | _ \<Rightarrow> Some (ss, w)) }"

section \<open>The check in cases\<close>

definition udp_timed_out :: "env \<Rightarrow> int \<Rightarrow> int \<Rightarrow> udp_session \<Rightarrow> world \<Rightarrow> bool" where
  "udp_timed_out E n m u w \<longleftrightarrow>
     u_state u = UDP_ACTIVE \<and> u_time u + the (get_udp_timeout u n m) < e_time E (w_tick w)"

lemma udp_uncount_frame [simp]:
  "u_state (udp_uncount u) = u_state u" "u_time (udp_uncount u) = u_time u"
  by (simp_all add: udp_uncount_def)

lemma check_udp_session_open:
  assumes "check_udp_session E n m s w = Some (del, s', w')"
    and "u_state (ng_k s) = UDP_FINISHING \<or> udp_timed_out E n m (ng_k s) w"
  shows "u_state (ng_k s') = UDP_CLOSED \<and> ng_socket s' = - 1
    \<and> u_sent (ng_k s') = 0 \<and> u_received (ng_k s') = 0
    \<and> u_time (ng_k s') = e_time E (w_tick w + 2)
    \<and> del = (e_time E (w_tick w + 2) + UDP_KEEP_TIMEOUT < e_time E (w_tick w))
    \<and> w_trace w' = w_trace w @ [SockClose (ng_socket s)]"
proof -
  from assms(1) obtain timeout where t: "get_udp_timeout (ng_k s) n m = Some timeout"
    by (auto simp: check_udp_session_def Let_def sys_time_def bind_eq_Some_conv)
  let ?u = "udp_expire timeout (e_time E (w_tick w)) (ng_k s)"
  have u: "u_state ?u = UDP_FINISHING"
    using assms(2) t by (auto simp: udp_expire_def udp_timed_out_def)
  have f: "udp_finish E (s\<lparr>ng_k := ?u\<rparr>) (tick w) =
      (s\<lparr>ng_k := ?u\<lparr>u_time := e_time E (w_tick w + 2), u_state := UDP_CLOSED\<rparr>, ng_socket := - 1\<rparr>,
       tick (sys_close (ng_socket s) (tick w)))"
    using u by (simp add: udp_finish_def sys_time_def sys_close_def Let_def)
  from assms(1) f t have
    "s' = s\<lparr>ng_k := udp_uncount (?u\<lparr>u_time := e_time E (w_tick w + 2), u_state := UDP_CLOSED\<rparr>), ng_socket := - 1\<rparr>"
    "w' = tick (sys_close (ng_socket s) (tick w))"
    "del = (e_time E (w_tick w + 2) + UDP_KEEP_TIMEOUT < e_time E (w_tick w))"
    by (auto simp: check_udp_session_def sys_time_def)
  then show ?thesis by (simp add: udp_uncount_def sys_close_def)
qed

lemma check_udp_session_other:
  assumes "check_udp_session E n m s w = Some (del, s', w')"
    and "u_state (ng_k s) \<noteq> UDP_FINISHING" "\<not> udp_timed_out E n m (ng_k s) w"
  shows "s' = s\<lparr>ng_k := udp_uncount (ng_k s)\<rparr> \<and> w_trace w' = w_trace w
    \<and> del = (u_state (ng_k s) \<in> {UDP_CLOSED, UDP_BLOCKED}
             \<and> u_time (ng_k s) + UDP_KEEP_TIMEOUT < e_time E (w_tick w))"
proof -
  from assms(1) obtain timeout where t: "get_udp_timeout (ng_k s) n m = Some timeout"
    by (auto simp: check_udp_session_def Let_def sys_time_def bind_eq_Some_conv)
  have "udp_expire timeout (e_time E (w_tick w)) (ng_k s) = ng_k s"
    using assms(3) t by (simp add: udp_expire_def udp_timed_out_def)
  with assms(1,2) t show ?thesis
    by (auto simp: check_udp_session_def sys_time_def udp_finish_def)
qed

lemma check_udp_session_ptr: "check_udp_session E n m s w = Some (del, s', w') \<Longrightarrow> ng_ptr s' = ng_ptr s"
  by (auto simp: check_udp_session_def udp_finish_def sys_time_def Let_def bind_eq_Some_conv split: if_splits)

interpretation udp_check: session_check check_udp_session ng_socket ng_ptr udp_inv
proof
  fix s :: "udp_session ng_session" and E n m w del s' w'
  assume i: "udp_inv s" and c: "check_udp_session E n m s w = Some (del, s', w')"
  let ?open = "u_state (ng_k s) = UDP_FINISHING \<or> udp_timed_out E n m (ng_k s) w"
  have o: "0 \<le> ng_socket s" if ?open using that i by (auto simp: udp_inv_def udp_timed_out_def)
  note f = check_udp_session_open [OF c] check_udp_session_other [OF c]
  show "udp_inv s'" if "\<not> del"
    using f i by (cases ?open) (simp_all add: udp_inv_def)
  show "sock_change ng_socket ng_ptr s w s' w'"
    using f o check_udp_session_ptr [OF c] by (cases ?open) (simp_all add: sock_change_def)
  show "ng_socket s' < 0" if "del"
    using f i that by (cases ?open) (auto simp: udp_inv_def)
qed

section \<open>The writer\<close>

lemma length_udp_header [simp]: "length (udp_header a b n c) = 8"
  by (simp add: udp_header_def bytes16_def)

lemma write_udp_trace:
  "write_udp E u d w = (res, w') \<Longrightarrow> w_trace w' = w_trace w @ [TunWrite (udp_packet u d)]"
  by (auto simp: write_udp_def tun_write_def Let_def)

lemma quiet_write_udp: "write_udp E u d w = (res, w') \<Longrightarrow> quiet w w'"
  by (rule quiet_tun [OF write_udp_trace])

section \<open>Handlers and the invariant\<close>

text \<open>
  A step of a session that keeps its socket and its invariant and opens and closes nothing.
\<close>

definition udp_step :: "udp_session ng_session \<Rightarrow> world \<Rightarrow> udp_session ng_session \<Rightarrow> world \<Rightarrow> bool" where
  "udp_step s w s' w' \<longleftrightarrow> ng_socket s' = ng_socket s \<and> ng_ptr s' = ng_ptr s \<and> quiet w w'
     \<and> (udp_inv s \<and> u_state (ng_k s) \<in> {UDP_ACTIVE, UDP_FINISHING} \<longrightarrow> udp_inv s')"

lemma udp_stepI:
  assumes "quiet w w'" "u_state u = u_state (ng_k s) \<or> u_state u = UDP_FINISHING"
  shows "udp_step s w (s\<lparr>ng_k := u\<rparr>) w'"
  using assms by (auto simp: udp_step_def udp_inv_def)

lemma check_udp_socket_step:
  assumes "check_udp_socket E ev s w = Some (s', w')"
  shows "udp_step s w s' w'"
proof -
  consider (err) "ev AND EPOLLERR \<noteq> 0" | (read) "ev AND EPOLLERR = 0" "ev AND EPOLLIN \<noteq> 0"
    | (none) "ev AND EPOLLERR = 0" "ev AND EPOLLIN = 0" by blast
  then show ?thesis
  proof cases
    case err
    from assms [unfolded check_udp_socket_def if_P [OF err]] show ?thesis
      by (auto simp: sys_time_def intro!: udp_stepI)
  next
    case none
    with assms have "s' = s\<lparr>ng_k := ng_k s\<rparr>" "w' = w" by (simp_all add: check_udp_socket_def)
    then show ?thesis using udp_stepI [of w w "ng_k s" s] by simp
  next
    case read
    let ?u = "(ng_k s)\<lparr>u_time := e_time E (w_tick w)\<rparr>"
    obtain r w1 where r: "sys_recv E (ng_socket s) (unat (u_mss ?u)) (tick w) = (r, w1)"
      by (cases "sys_recv E (ng_socket s) (unat (u_mss ?u)) (tick w)")
    have "\<not> ev AND EPOLLERR \<noteq> 0" using read(1) by simp
    note a = assms [unfolded check_udp_socket_def if_not_P [OF this] if_P [OF read(2)] sys_time_def Let_def
        prod.case r]
    have q: "quiet w w1" using quiet_tick quiet_recv [OF r] by (rule quiet_trans)
    show ?thesis
    proof (cases r)
      case (Inl e)
      from a [unfolded Inl sum.case] have
        "s' = s\<lparr>ng_k := (if e \<noteq> EINTR \<and> e \<noteq> EAGAIN then ?u\<lparr>u_state := UDP_FINISHING\<rparr> else ?u)\<rparr>" "w' = w1"
        by simp_all
      then show ?thesis using q by (simp only:) (rule udp_stepI; simp)
    next
      case (Inr bytes)
      note b = a [unfolded Inr sum.case]
      show ?thesis
      proof (cases "bytes = []")
        case True
        from b [unfolded if_P [OF True]] have "s' = s\<lparr>ng_k := ?u\<lparr>u_state := UDP_FINISHING\<rparr>\<rparr>" "w' = w1"
          by simp_all
        then show ?thesis using q by (simp only:) (rule udp_stepI; simp)
      next
        case False
        let ?v = "?u\<lparr>u_received := u_received ?u + of_nat (length bytes)\<rparr>"
        obtain res w2 where w2: "write_udp E ?v bytes w1 = (res, w2)" by (cases "write_udp E ?v bytes w1")
        from b [unfolded if_not_P [OF False] w2 prod.case] have
          "s' = s\<lparr>ng_k := (if res < 0 \<or> ntohs (u_dest ?v) = 53 then ?v\<lparr>u_state := UDP_FINISHING\<rparr> else ?v)\<rparr>" "w' = w2"
          by (auto simp: bind_eq_Some_conv split del: if_split)
        then show ?thesis using quiet_trans [OF q quiet_write_udp [OF w2]] by (simp only:) (rule udp_stepI; simp)
      qed
    qed
  qed
qed

text \<open>
  The answer to a DHCP request is never completed: its options are written far behind the 500 bytes
  of the response. So the routine, where it is defined, has no effect.
\<close>

lemma dhcp_response_undefined: "dhcp_response request offer = None"
proof -
  have "wr_block r (DHCP_LEN * DHCP_LEN) x = None" if "length r = 500" for r x
    using that by (simp add: wr_block_def DHCP_LEN_def)
  moreover have "\<exists>q x. length q = 500 \<and> wr_block q (DHCP_LEN * DHCP_LEN) x \<noteq> None"
    if d: "dhcp_response request offer = Some r" for r
  proof -
    from d obtain r0 r1 r2 r3 r4 r5 r6 r7 where
      c: "wr_block (replicate 500 0) 0 request = Some r0" "wr_block r0 0 [if offer then 2 else 4] = Some r1"
        "wr_block r1 8 [0, 0] = Some r2" "wr_block r2 10 [0, 0] = Some r3"
        "wr_block r3 12 [0, 0, 0, 0] = Some r4" "wr_block r4 16 [10, 1, 10, 2] = Some r5"
        "wr_block r5 20 [10, 1, 10, 1] = Some r6" "wr_block r6 24 [0, 0, 0, 0] = Some r7"
        "wr_block r7 (DHCP_LEN * DHCP_LEN) (dhcp_options (if offer then 2 else 5)) = Some r"
      unfolding dhcp_response_def by (elim bind_eq_Some_conv [THEN iffD1, elim_format] exE conjE)
    have "length r7 = 500" using c(1-8) [THEN length_wr_block] by simp
    with c(9) show ?thesis by blast
  qed
  ultimately show ?thesis by (cases "dhcp_response request offer") auto
qed

lemma check_dhcp_result:
  assumes "check_dhcp E u data datalen w = Some (r, u', w')"
  shows "u' = u \<and> w' = w \<and> (r = - 1 \<or> r = 0)"
  using assms
  by (auto simp: check_dhcp_def dhcp_response_undefined bind_eq_Some_conv Let_def split: if_splits)

lemma udp_send_step:
  assumes "udp_send E s mem datalen w = Some (s', w')"
  shows "udp_step s w s' w'"
proof -
  let ?u = "(ng_k s)\<lparr>u_time := e_time E (w_tick w)\<rparr>"
  let ?addr = "if u_version ?u = 4 then ip4 (u_daddr ?u) else u_daddr ?u"
  from assms obtain data where d: "rd_block mem 0 (datalen mod 2 ^ 32) = Some data"
    by (auto simp: udp_send_def sys_time_def Let_def bind_eq_Some_conv)
  obtain r w1 where r: "sys_sendto E (ng_socket s) data ?addr (u_dest ?u) (tick w) = (r, w1)"
    by (cases "sys_sendto E (ng_socket s) data ?addr (u_dest ?u) (tick w)")
  from assms [unfolded udp_send_def sys_time_def Let_def prod.case d Option.bind.bind_lunit r] have
    s': "\<exists>err. s' = s\<lparr>ng_k := (case err of None \<Rightarrow> ?u\<lparr>u_sent := u_sent ?u + of_nat datalen\<rparr>
        | Some e \<Rightarrow> if e \<noteq> EINTR \<and> e \<noteq> EAGAIN then ?u\<lparr>u_state := UDP_FINISHING\<rparr> else ?u)\<rparr>" "w' = w1"
    by blast+
  have q: "quiet w w'" unfolding s'(2) using quiet_tick quiet_sendto [OF r] by (rule quiet_trans)
  from s'(1) obtain err where e: "s' = s\<lparr>ng_k := (case err of None \<Rightarrow> ?u\<lparr>u_sent := u_sent ?u + of_nat datalen\<rparr>
        | Some e \<Rightarrow> if e \<noteq> EINTR \<and> e \<noteq> EAGAIN then ?u\<lparr>u_state := UDP_FINISHING\<rparr> else ?u)\<rparr>" by blast
  show ?thesis unfolding e by (rule udp_stepI [OF q]) (cases err; simp)
qed

lemma udp_forward_step:
  assumes "udp_forward E source dest mem datalen s w = Some (s', w')"
  shows "udp_step s w s' w'"
proof -
  from assms obtain r u w1 where
    c: "(if ntohs source = 68 \<or> ntohs dest = 67 then check_dhcp E (ng_k s) mem datalen w
         else Some (- 1, ng_k s, w)) = Some (r, u, w1)"
    and e: "(if r \<ge> 0 then Some (s\<lparr>ng_k := u\<rparr>, w1) else udp_send E (s\<lparr>ng_k := u\<rparr>) mem datalen w1) = Some (s', w')"
    by (auto simp: udp_forward_def bind_eq_Some_conv split del: if_split)
  have u: "u = ng_k s" "w1 = w"
    using c check_dhcp_result [of E "ng_k s" mem datalen w r u w1] by (auto split: if_splits)
  show ?thesis
  proof (cases "r \<ge> 0")
    case True
    with e u have "s' = s\<lparr>ng_k := ng_k s\<rparr>" "w' = w" by simp_all
    then show ?thesis using udp_stepI [of w w "ng_k s" s] by simp
  next
    case False
    with e u have "udp_send E s mem datalen w = Some (s', w')" by simp
    then show ?thesis by (rule udp_send_step)
  qed
qed

lemma open_udp_socket_trace:
  assumes "open_udp_socket E cur redirect w = (sock, w')"
  shows "sock = - 1 \<and> spilled w w'
    \<or> 0 \<le> sock \<and> (\<exists>v. ledger (w_trace w') = ledger (w_trace w) @ [SockOpen sock v])"
proof -
  define v where "v = (case redirect of None \<Rightarrow> u_version cur
                     | Some r \<Rightarrow> if of_char CHR '':'' \<in> set (al_raddr r) then 6 else 4)"
  define pf where "pf = (if v = 4 then 4 else 6 :: nat)"
  note a = assms [unfolded open_udp_socket_def Let_def, folded v_def, folded pf_def]
  show ?thesis
  proof (cases "e_socket E (w_tick w)")
    case (Inl e)
    with a show ?thesis by (auto simp: sys_socket_def spilled_def)
  next
    case (Inr n)
    define w1 where "w1 = emit (SockOpen (int n) pf) w"
    have s: "sys_socket E pf w = (Inr (int n), w1)" using Inr by (simp add: sys_socket_def w1_def)
    have w1: "ledger (w_trace w1) = ledger (w_trace w) @ [SockOpen (int n) pf]"
      by (simp add: w1_def)
    show ?thesis
      using a [unfolded s prod.case sum.case] w1
      by (auto simp: protect_socket_def sys_setsockopt_def spilled_def split: if_splits prod.splits)
  qed
qed

lemma udp_new_session_cases:
  assumes "udp_new_session E version source dest src dst uid w = (so, w')"
  obtains (failed) "so = None" "spilled w w'"
  | (new) s where "so = Some s" "udp_inv s" "u_state (ng_k s) = UDP_ACTIVE" "ng_ptr s = w_tick w"
      "ng_ev s = EPOLLIN OR EPOLLERR" "u_daddr (ng_k s) = dst" "u_dest (ng_k s) = dest" "u_version (ng_k s) = version"
      "enrolled (ng_socket s) (ng_ptr s) w w'"
proof -
  let ?u = "\<lparr>u_time = e_time E (w_tick w), u_uid = uid, u_version = version,
               u_mss = of_nat (if version = 4 then UDP4_MAXMSG else UDP6_MAXMSG), u_sent = 0,
               u_received = 0, u_saddr = src, u_source = source, u_daddr = dst, u_dest = dest,
               u_state = UDP_ACTIVE\<rparr>"
  obtain sock w1 where o: "open_udp_socket E ?u None (tick w) = (sock, w1)"
    by (cases "open_udp_socket E ?u None (tick w)")
  note sp = open_udp_socket_trace [OF o]
  note a = assms [unfolded udp_new_session_def Let_def sys_time_def prod.case o]
  show thesis
  proof (cases "sock < 0")
    case True
    from a [unfolded if_P [OF True]] sp True show thesis by (intro failed) (auto simp: spilled_def)
  next
    case False
    let ?s = "\<lparr>ng_k = ?u, ng_socket = sock, ng_ev = EPOLLIN OR EPOLLERR, ng_ptr = w_tick w\<rparr>"
    from a [unfolded if_not_P [OF False]] have "so = Some ?s"
      "w' = snd (epoll_add E sock (EPOLLIN OR EPOLLERR) (w_tick w) w1)" by (simp_all add: case_prod_beta)
    then show thesis
      using False sp by (intro new [of ?s]) (auto simp: udp_inv_def trace_simps enrolled_def)
  qed
qed

lemma handle_udp_effect:
  assumes "handle_udp E m n payload uid ss w = Some (ss', w')"
  shows "ss' = ss \<and> spilled w w'
     \<or> (\<exists>c. ss' = UDP c # ss \<and> udp_inv c \<and> enrolled (ng_socket c) (ng_ptr c) w w')
     \<or> (\<exists>before c c' behind. ss = before @ UDP c # behind \<and> ss' = before @ UDP c' # behind
          \<and> udp_step c w c' w' \<and> u_state (ng_k c) = UDP_ACTIVE)"
proof -
  from assms obtain version source dest src dst mem datalen where
    r: "(case List.extract (udp_matches version source dest src dst) ss of
            None \<Rightarrow>
              (let (new, w) = udp_new_session E version source dest src dst uid w
               in case new of
                    None \<Rightarrow> Some (ss, w)
                  | Some s \<Rightarrow> do { (s, w) \<leftarrow> udp_forward E source dest mem datalen s w; Some (UDP s # ss, w) })
          | Some (before, s, behind) \<Rightarrow>
              (case s of
                 UDP c \<Rightarrow>
                   if u_state (ng_k c) \<noteq> UDP_ACTIVE then Some (ss, w)
                   else do { (c, w) \<leftarrow> udp_forward E source dest mem datalen c w;
                             Some (before @ UDP c # behind, w) }
               | _ \<Rightarrow> Some (ss, w))) = Some (ss', w')"
    unfolding handle_udp_def Let_def
    by (elim bind_eq_Some_conv [THEN iffD1, elim_format] exE conjE) (auto simp: bind_eq_Some_conv)
  have same: ?thesis if "ss' = ss" "w' = w" using that by (simp add: spilled_def)
  show ?thesis
  proof (cases "List.extract (udp_matches version source dest src dst) ss")
    case None
    obtain so w1 where n: "udp_new_session E version source dest src dst uid w = (so, w1)"
      by (cases "udp_new_session E version source dest src dst uid w")
    note r1 = r [unfolded None option.case n Let_def prod.case]
    from n show ?thesis
    proof (cases rule: udp_new_session_cases)
      case failed
      with r1 show ?thesis by simp
    next
      case (new s)
      from r1 [unfolded new(1) option.case] obtain s' where
        f: "udp_forward E source dest mem datalen s w1 = Some (s', w')" and ss': "ss' = UDP s' # ss"
        by (auto simp: bind_eq_Some_conv)
      have "udp_step s w1 s' w'" by (rule udp_forward_step [OF f])
      then show ?thesis
        using new ss' quiet_ledger [of w1 w'] by (auto simp: udp_step_def enrolled_def)
    qed
  next
    case (Some bsb)
    obtain before s behind where b: "bsb = (before, s, behind)" by (cases bsb)
    have x: "ss = before @ s # behind" using extract_Some_iff [of _ ss before s behind] Some b by auto
    note r1 = r [unfolded Some b option.case prod.case]
    show ?thesis
    proof (cases s)
      case (UDP c)
      show ?thesis
      proof (cases "u_state (ng_k c) \<noteq> UDP_ACTIVE")
        case True
        from r1 [unfolded UDP session.case if_P [OF True]] show ?thesis by (intro same) simp_all
      next
        case False
        from r1 [unfolded UDP session.case if_not_P [OF False]] obtain c' where
          f: "udp_forward E source dest mem datalen c w = Some (c', w')" and "ss' = before @ UDP c' # behind"
          by (auto simp: bind_eq_Some_conv)
        then show ?thesis using udp_forward_step [OF f] x UDP False by blast
      qed
    qed (use r1 in \<open>auto simp: spilled_def\<close>)
  qed
qed

interpretation udp_packets: packet_handler handle_udp
proof
  fix ss m n p uid w ss' w' E
  assume i: "\<forall>s \<in> set ss. sess_inv s" and h: "handle_udp E m n p uid ss w = Some (ss', w')"
  from handle_udp_effect [OF h] show "move ss w ss' w'"
  proof (elim conjE disjE exE)
    fix c assume "ss' = UDP c # ss" "udp_inv c" "enrolled (ng_socket c) (ng_ptr c) w w'"
    then show ?thesis by (simp add: move.added)
  next
    fix before c c' behind
    assume s: "ss = before @ UDP c # behind" "ss' = before @ UDP c' # behind" "udp_step c w c' w'"
      "u_state (ng_k c) = UDP_ACTIVE"
    then have "sess_inv (UDP c')" "sock_change sess_socket sess_ptr (UDP c) w (UDP c') w'"
      using i quiet_ledger by (auto simp: udp_step_def sock_change_def)
    then show ?thesis unfolding s(1,2) by (intro move.changed)
  qed (simp add: move.spilled)
qed

interpretation udp_sockets: socket_handler check_udp_socket UDP "\<lambda>s. 0 \<le> ng_socket s"
proof
  fix s E ev w s' w'
  assume "0 \<le> ng_socket s" "sess_inv (UDP s)" "check_udp_socket E ev s w = Some (s', w')"
  then show "sock_change sess_socket sess_ptr (UDP s) w (UDP s') w' \<and> sess_inv (UDP s')"
    using check_udp_socket_step [of E ev s w s' w'] quiet_ledger
    by (auto simp: udp_step_def sock_change_def udp_inv_def)
qed

section \<open>Properties\<close>

text \<open>The sum over header and data is the sum over the whole datagram.\<close>

lemma udp_packet_eq:
  assumes "ip_part (u_version cur) (u_saddr cur) (u_daddr cur) IPPROTO_UDP (8 + length data) = (ip, ps)"
    and "length data \<le> 65535"
  shows "udp_packet cur data = ip @ (bytes16 (u_dest cur) @ bytes16 (u_source cur)
      @ bytes16 (htons (of_nat (8 + length data))))
    @ bytes16 (NOT (calc_checksum ps ((bytes16 (u_dest cur) @ bytes16 (u_source cur)
      @ bytes16 (htons (of_nat (8 + length data)))) @ bytes16 0 @ data))) @ data"
proof -
  let ?h = "udp_header (u_dest cur) (u_source cur) (8 + length data) 0"
  have "calc_checksum (calc_checksum ps ?h) data = calc_checksum ps (?h @ data)"
    using assms(2) by (intro csum.ck_append) (simp_all add: ck_max_def)
  then show ?thesis using assms(1) by (simp add: udp_packet_def udp_header_def)
qed


definition sample_udp :: udp_session where
  "sample_udp = \<lparr>u_time = 1000, u_uid = 0, u_version = 4, u_mss = 1000, u_sent = 0, u_received = 0,
     u_saddr = [10, 1, 10, 1], u_source = htons 1024, u_daddr = [8, 8, 8, 8], u_dest = htons 53,
     u_state = UDP_ACTIVE\<rparr>"

definition sample_udp_ng :: "udp_session ng_session" where
  "sample_udp_ng = \<lparr>ng_k = sample_udp, ng_socket = 9, ng_ev = 0, ng_ptr = 1\<rparr>"


text \<open>
  C22. The life of a UDP session under the periodic check: an active session that was idle for the
  scaled time, or one that is finishing, has its socket closed exactly once and its counters reset;
  any other session keeps its socket, and a closed or blocked one is removed after the keep time. A
  session that is removed holds no socket.
\<close>

theorem udp_session_lifecycle:
  assumes "check_udp_session E n m s w = Some (del, s', w')" and "udp_inv s"
  shows "(if u_state (ng_k s) = UDP_FINISHING \<or> udp_timed_out E n m (ng_k s) w
     then 0 \<le> ng_socket s \<and> u_state (ng_k s') = UDP_CLOSED \<and> ng_socket s' = - 1
       \<and> u_sent (ng_k s') = 0 \<and> u_received (ng_k s') = 0
       \<and> w_trace w' = w_trace w @ [SockClose (ng_socket s)]
     else ng_socket s' = ng_socket s \<and> u_state (ng_k s') = u_state (ng_k s) \<and> w_trace w' = w_trace w
       \<and> del = (u_state (ng_k s) \<in> {UDP_CLOSED, UDP_BLOCKED}
                \<and> u_time (ng_k s) + UDP_KEEP_TIMEOUT < e_time E (w_tick w)))
    \<and> udp_inv s' \<and> (del \<longrightarrow> ng_socket s' < 0)"
  using check_udp_session_open [OF assms(1)] check_udp_session_other [OF assms(1)] assms(2)
    udp_check.chk_removed [OF assms(2,1)]
  by (cases "u_state (ng_k s) = UDP_FINISHING \<or> udp_timed_out E n m (ng_k s) w")
    (auto simp: udp_inv_def udp_timed_out_def)

theorem udp_session_lifecycle_witness:
  "\<exists>del s' w'. check_udp_session calm 1 100 (sample_udp_ng\<lparr>ng_k := sample_udp\<lparr>u_state := UDP_FINISHING\<rparr>\<rparr>) start
      = Some (del, s', w')
    \<and> u_state (ng_k s') = UDP_CLOSED \<and> ng_socket s' < 0 \<and> w_trace w' = [SockClose 9]"
proof -
  let ?s = "sample_udp_ng\<lparr>ng_k := sample_udp\<lparr>u_state := UDP_FINISHING\<rparr>\<rparr>"
  have "check_udp_session calm 1 100 ?s start \<noteq> None"
    by (simp add: check_udp_session_def get_udp_timeout_def scale_timeout_def Let_def split: prod.splits)
  then obtain del s' w' where c: "check_udp_session calm 1 100 ?s start = Some (del, s', w')" by auto
  have "udp_inv ?s" by (simp add: udp_inv_def sample_udp_ng_def)
  from udp_session_lifecycle [OF c this]
  have "u_state (ng_k s') = UDP_CLOSED \<and> ng_socket s' < 0 \<and> w_trace w' = [SockClose 9]"
    by (simp add: sample_udp_ng_def start_def)
  with c show ?thesis by blast
qed

text \<open>
  A datagram out of the tunnel leaves the other sessions alone: it opens at most one session, with
  its own socket, in front of the list, or is handled by the active session it belongs to, which keeps
  its socket; nothing is closed.
\<close>

theorem handle_udp_refines:
  assumes "handle_udp E m n payload uid ss w = Some (ss', w')"
    and "\<forall>c. UDP c \<in> set ss \<longrightarrow> udp_inv c"
  shows "(\<forall>c. UDP c \<in> set ss' \<longrightarrow> udp_inv c) \<and> closed (w_trace w') = closed (w_trace w)
    \<and> (ss' = ss \<and> (\<exists>lost. length lost \<le> 1 \<and> opened (w_trace w') = opened (w_trace w) @ lost)
     \<or> (\<exists>c. ss' = UDP c # ss \<and> 0 \<le> ng_socket c \<and> opened (w_trace w') = opened (w_trace w) @ [ng_socket c])
     \<or> (\<exists>before c c' behind. ss = before @ UDP c # behind \<and> ss' = before @ UDP c' # behind
          \<and> ng_socket c' = ng_socket c \<and> opened (w_trace w') = opened (w_trace w)))"
  using handle_udp_effect [OF assms(1)]
proof (elim disjE exE conjE)
  fix before c c' behind
  assume s: "ss = before @ UDP c # behind" "ss' = before @ UDP c' # behind" "udp_step c w c' w'"
    "u_state (ng_k c) = UDP_ACTIVE"
  then have "udp_inv c'" using assms(2) by (auto simp: udp_step_def)
  then show ?thesis using s assms(2) quiet_closed [of w w'] by (auto simp: udp_step_def)
qed (use assms(2) spilled_traces [of w w'] enrolled_traces [of _ _ w w'] in auto)

theorem handle_udp_refines_witness:
  "\<exists>m ss' w'. handle_udp calm m 29 20 0 [] start = Some (ss', w') \<and> ss' \<noteq> []
    \<and> (\<forall>c. UDP c \<in> set ss' \<longrightarrow> udp_inv c)"
proof -
  let ?m = "[0x45, 0, 0, 29, 0, 0, 0, 0, 64, 17, 0, 0, 10, 1, 10, 1, 1, 2, 3, 4, 4, 0, 0, 80, 0, 9, 0, 0, 7] :: bytes"
  obtain c w' where h: "handle_udp calm ?m 29 20 0 [] start = Some ([UDP c], w')"
    by (simp add: handle_udp_def rd8_def rd16_def pkt_addrs_def rd_block_def udp_new_session_def
        open_udp_socket_def sys_socket_def sys_time_def protect_socket_def calm_def start_def epoll_add_def
        udp_forward_def udp_send_def sys_sendto_def le16_def ntohs_def ip4_def tick_def emit_def Let_def extract_Nil_code
        sys_setsockopt_def)
  have "\<forall>c. UDP c \<in> set [] \<longrightarrow> udp_inv c" by simp
  from handle_udp_refines [OF h this] h show ?thesis by blast
qed



text \<open>
  C27. An answer is written to the tunnel as one packet of exactly the bytes received, at most \<open>mss\<close> of
  them; a session for port 53 ends with its first answer, and any session ends when the packet cannot
  be written.
\<close>

theorem udp_answer_to_tunnel:
  assumes "check_udp_socket E ev s w = Some (s', w')"
    and "ev AND EPOLLERR = 0" and "ev AND EPOLLIN \<noteq> 0"
    and "e_recv E (w_tick w + 1) (ng_socket s) = Inr b" and "0 \<le> ng_socket s"
    and "b \<noteq> []" and "0 < u_mss (ng_k s)"
  defines "data \<equiv> take (unat (u_mss (ng_k s))) b"
  shows "data \<noteq> [] \<and> length data \<le> unat (u_mss (ng_k s))
    \<and> w_trace w' = w_trace w @ [TunWrite (udp_packet (ng_k s) data)]
    \<and> u_received (ng_k s') = u_received (ng_k s) + of_nat (length data)
    \<and> (u_state (ng_k s') = u_state (ng_k s) \<or> u_state (ng_k s') = UDP_FINISHING)
    \<and> (ntohs (u_dest (ng_k s)) = 53 \<longrightarrow> u_state (ng_k s') = UDP_FINISHING)"
proof -
  let ?u = "(ng_k s)\<lparr>u_time := e_time E (w_tick w)\<rparr>"
  let ?v = "?u\<lparr>u_received := u_received ?u + of_nat (length data)\<rparr>"
  have "0 < unat (u_mss (ng_k s))" using assms(7) by (simp add: word_less_nat_alt)
  then have ne: "data \<noteq> []" using assms(6) by (simp add: data_def)
  have r: "sys_recv E (ng_socket s) (unat (u_mss ?u)) (tick w) = (Inr data, tick (tick w))"
    using assms(4,5) by (simp add: sys_recv_def data_def)
  obtain res w2 where w2: "write_udp E ?v data (tick (tick w)) = (res, w2)"
    by (cases "write_udp E ?v data (tick (tick w))")
  have ne2: "\<not> ev AND EPOLLERR \<noteq> 0" using assms(2) by simp
  from assms(1) [unfolded check_udp_socket_def if_not_P [OF ne2] if_P [OF assms(3)] sys_time_def Let_def
      prod.case r sum.case if_not_P [OF ne] w2] have
    e: "s' = s\<lparr>ng_k := (if res < 0 \<or> ntohs (u_dest ?v) = 53 then ?v\<lparr>u_state := UDP_FINISHING\<rparr> else ?v)\<rparr>" "w' = w2"
    by (auto simp: bind_eq_Some_conv split del: if_split)
  have p: "udp_packet ?v data = udp_packet (ng_k s) data" by (simp add: udp_packet_def)
  have "length data \<le> unat (u_mss (ng_k s))" by (simp add: data_def)
  then show ?thesis using ne write_udp_trace [OF w2] unfolding e p by simp
qed

theorem udp_answer_to_tunnel_witness:
  "\<exists>s' w'. check_udp_socket (calm\<lparr>e_recv := \<lambda>n fd. Inr [1, 2, 3]\<rparr>) EPOLLIN
        (sample_udp_ng\<lparr>ng_k := sample_udp\<lparr>u_dest := htons 80\<rparr>\<rparr>) start = Some (s', w')
    \<and> w_trace w' = [TunWrite (udp_packet (sample_udp\<lparr>u_dest := htons 80\<rparr>) [1, 2, 3])]
    \<and> u_received (ng_k s') = 3"
proof -
  let ?E = "calm\<lparr>e_recv := \<lambda>n fd. Inr [1, 2, 3]\<rparr>" and ?s = "sample_udp_ng\<lparr>ng_k := sample_udp\<lparr>u_dest := htons 80\<rparr>\<rparr>"
  have s: "ng_socket ?s = 9" "u_mss (ng_k ?s) = 1000" "u_received (ng_k ?s) = 0"
    "ng_k ?s = sample_udp\<lparr>u_dest := htons 80\<rparr>"
    by (simp_all add: sample_udp_ng_def sample_udp_def)
  have "check_udp_socket ?E EPOLLIN ?s start \<noteq> None"
    by (simp add: check_udp_socket_def epoll_bits sys_time_def sys_recv_def sample_udp_ng_def sample_udp_def Let_def
        split: prod.splits)
  then obtain s' w' where c: "check_udp_socket ?E EPOLLIN ?s start = Some (s', w')" by auto
  have "EPOLLIN AND EPOLLERR = 0" "EPOLLIN AND EPOLLIN \<noteq> 0" by (simp_all add: epoll_bits)
  from udp_answer_to_tunnel [OF c this, of "[1, 2, 3]"] c s show ?thesis
    by (simp add: start_def)
qed

text \<open>
  The DHCP responder never answers: for every well-formed request it writes the options 57600 bytes
  into a response of 500, which is undefined, so that a client that asks for an address takes the
  engine down; any other packet is left to the relay.
\<close>

theorem dhcp_request_undefined:
  assumes "rd32 data 236 = Some (htonl DHCP_OPTION_MAGIC_NUMBER)" and "DHCP_LEN \<le> n" and "n \<le> length data"
    and "rd8 data 1 = Some 1" and "rd8 data 2 = Some 6" and "rd8 data 0 = Some 1"
  shows "check_dhcp E u data n w = None
    \<and> (ntohs source = 68 \<and> ntohs dest \<noteq> 53 \<longrightarrow> udp_forward E source dest data n s w = None)"
proof -
  have c: "check_dhcp E u data n w = None" for u
    using assms by (simp add: check_dhcp_def dhcp_response_undefined bind_eq_None_conv Let_def)
  then show ?thesis by (simp add: udp_forward_def)
qed

theorem dhcp_request_undefined_witness:
  "\<exists>data. udp_forward calm (htons 68) (htons 67) data 240 sample_udp_ng start = None"
proof -
  let ?data = "[1, 1, 6] @ replicate 233 0 @ [0x63, 0x82, 0x53, 0x63] :: bytes"
  have "rd32 ?data 236 = Some (htonl DHCP_OPTION_MAGIC_NUMBER)"
    by (simp add: rd32_def rd8_def nth_append nth_Cons' DHCP_OPTION_MAGIC_NUMBER_def ntohl_def le32_def)
  moreover have "rd8 ?data 1 = Some 1" "rd8 ?data 2 = Some 6" "rd8 ?data 0 = Some 1" by (simp_all add: rd8_def)
  ultimately have "udp_forward calm (htons 68) (htons 67) ?data 240 sample_udp_ng start = None"
    using dhcp_request_undefined [of ?data 240 calm undefined start "htons 68" "htons 67" sample_udp_ng]
    by (simp add: DHCP_LEN_def)
  then show ?thesis by blast
qed

end
