(* ===== verification/Icmp.thy ===== *)
theory Icmp
  imports SessionCheck Packets
begin

text \<open>
  \<open>icmp.c\<close>: the relay of echo requests. Unprivileged ICMP sockets of Linux choose the identifier of
  a request themselves; the engine sends the request with the complement of its identifier and puts the
  identifier of the session back into every answer. First the translation, then the facts and the
  properties.
\<close>

section \<open>The periodic check\<close>

definition check_icmp_session ::
  "env \<Rightarrow> int \<Rightarrow> int \<Rightarrow> icmp_session ng_session \<Rightarrow> world
     \<Rightarrow> (bool \<times> icmp_session ng_session \<times> world) option" where
  "check_icmp_session E sessions maxsessions s w =
     do { let (now, w) = sys_time E w;
          timeout \<leftarrow> get_icmp_timeout (ng_k s) sessions maxsessions;
          if i_stop (ng_k s) \<or> i_time (ng_k s) + timeout < now
          then Some (True, s\<lparr>ng_socket := - 1\<rparr>, sys_close (ng_socket s) w)
          else Some (False, s, w) }"

section \<open>Writing an answer to the tunnel\<close>

definition icmp_packet :: "icmp_session \<Rightarrow> bytes \<Rightarrow> bytes" where
  "icmp_packet cur data =
     (if i_version cur = 4 then
        build_ip4 (20 + length data) IPPROTO_ICMP (ip4 (i_daddr cur)) (ip4 (i_saddr cur)) @ data
      else build_ip6 (length data) IPPROTO_ICMPV6 (i_daddr cur) (i_saddr cur) @ data)"

definition write_icmp :: "env \<Rightarrow> icmp_session \<Rightarrow> bytes \<Rightarrow> world \<Rightarrow> int \<times> world" where
  "write_icmp E cur data w =
     (let buffer = icmp_packet cur data;
          (res, w) = tun_write E buffer w
      in (if ssize_to_size res \<noteq> int (length buffer) then - 1 else res, w))"

section \<open>Events of the socket\<close>

text \<open>
  An answer of \<open>n\<close> bytes in the receive buffer gets the identifier of the session and a new checksum.
  The length of the pseudo header is taken from an IPv6 header that was never received.
\<close>

definition icmp_restore :: "icmp_session \<Rightarrow> bytes \<Rightarrow> nat \<Rightarrow> bytes option" where
  "icmp_restore u buffer n =
     do { buffer \<leftarrow> wr_block buffer 4 (bytes16 (i_id u));
          let csum = (if i_version u = 6 then
                        calc_checksum 0 (ip6_hdr_pseudo (i_daddr u) (i_saddr u) (of_int (int n - 40)) IPPROTO_ICMPV6)
                      else 0);
          buffer \<leftarrow> wr_block buffer 2 [0, 0];
          message \<leftarrow> rd_block buffer 0 n;
          buffer \<leftarrow> wr_block buffer 2 (bytes16 (NOT (calc_checksum csum message)));
          rd_block buffer 0 n }"

definition icmp_buffer :: "icmp_session \<Rightarrow> nat" where
  "icmp_buffer u = unat (of_nat (if i_version u = 4 then ICMP4_MAXMSG else ICMP6_MAXMSG) :: u16)"

definition check_icmp_socket ::
  "env \<Rightarrow> u32 \<Rightarrow> icmp_session ng_session \<Rightarrow> world \<Rightarrow> (icmp_session ng_session \<times> world) option" where
  "check_icmp_socket E ev s w =
     (if ev AND EPOLLERR \<noteq> 0 then
        let (now, w) = sys_time E w
        in Some (s\<lparr>ng_k := (ng_k s)\<lparr>i_time := now, i_stop := True\<rparr>\<rparr>, w)
      else if ev AND EPOLLIN \<noteq> 0 then
        let (now, w) = sys_time E w;
            u = (ng_k s)\<lparr>i_time := now\<rparr>;
            (r, w) = sys_recv E (ng_socket s) (icmp_buffer u) w
        in case r of
             Inl e \<Rightarrow> Some (s\<lparr>ng_k := (if e \<noteq> EINTR \<and> e \<noteq> EAGAIN then u\<lparr>i_stop := True\<rparr> else u)\<rparr>, w)
           | Inr bytes \<Rightarrow>
               if bytes = [] then Some (s\<lparr>ng_k := u\<lparr>i_stop := True\<rparr>\<rparr>, w)
               else
                 do { message \<leftarrow> icmp_restore u (allocated E w bytes (icmp_buffer u)) (length bytes);
                      let (res, w) = write_icmp E u message w;
                      Some (s\<lparr>ng_k := (if res < 0 then u\<lparr>i_stop := True\<rparr> else u)\<rparr>, w) }
      else Some (s, w))"

section \<open>A message out of the tunnel\<close>

definition ICMP_ECHO :: u8 where "ICMP_ECHO = 8"

text \<open>The search does not look at the identifier.\<close>

definition icmp_matches :: "nat \<Rightarrow> bytes \<Rightarrow> bytes \<Rightarrow> session \<Rightarrow> bool" where
  "icmp_matches version src dst s =
     (case s of
        ICMP c \<Rightarrow> \<not> i_stop (ng_k c) \<and> i_version (ng_k c) = version
          \<and> (if version = 4 then ip4 (i_saddr (ng_k c)) = src \<and> ip4 (i_daddr (ng_k c)) = dst
             else i_saddr (ng_k c) = src \<and> i_daddr (ng_k c) = dst)
      | _ \<Rightarrow> False)"

definition open_icmp_socket :: "env \<Rightarrow> icmp_session \<Rightarrow> world \<Rightarrow> int \<times> world" where
  "open_icmp_socket E cur w =
     (let (r, w) = sys_socket E (if i_version cur = 4 then 4 else 6) w
      in case r of Inl e \<Rightarrow> (- 1, w)
         | Inr sock \<Rightarrow>
             let (prot, w) = protect_socket E sock w
             in (if prot < 0 then - 1 else sock, w))"

definition icmp_new_session ::
  "env \<Rightarrow> nat \<Rightarrow> bytes \<Rightarrow> bytes \<Rightarrow> u16 \<Rightarrow> int \<Rightarrow> world \<Rightarrow> icmp_session ng_session option \<times> world" where
  "icmp_new_session E version src dst ident uid w =
     (let ptr = w_tick w;
          (now, w) = sys_time E w;
          u = \<lparr>i_time = now, i_uid = uid, i_version = version, i_saddr = src, i_daddr = dst,
               i_id = ident, i_stop = False\<rparr>;
          (sock, w) = open_icmp_socket E u w
      in if sock < 0 then (None, w)
         else let ev = EPOLLIN OR EPOLLERR; (fail, w) = epoll_add E sock ev ptr w
              in (Some \<lparr>ng_k = u, ng_socket = sock, ng_ev = ev, ng_ptr = ptr\<rparr>, w))"

text \<open>The request as it is sent: the packet \<open>m\<close> is changed in place.\<close>

definition icmp_request :: "nat \<Rightarrow> bytes \<Rightarrow> nat \<Rightarrow> nat \<Rightarrow> bytes option" where
  "icmp_request version m payload icmplen =
     do { ident \<leftarrow> rd16 m (payload + 4);
          m \<leftarrow> wr_block m (payload + 4) (bytes16 (NOT ident));
          csum \<leftarrow> (if version = 6 then
                    do { src \<leftarrow> rd_block m 8 16; dst \<leftarrow> rd_block m 24 16;
                         plen \<leftarrow> rd16 m 4; nxt \<leftarrow> rd8 m 6;
                         Some (calc_checksum 0 (ip6_hdr_pseudo dst src (ucast plen) nxt)) }
                  else Some 0);
          m \<leftarrow> wr_block m (payload + 2) [0, 0];
          message \<leftarrow> rd_block m payload icmplen;
          m \<leftarrow> wr_block m (payload + 2) (bytes16 (NOT (calc_checksum csum message)));
          rd_block m payload (icmplen mod 2 ^ 32) }"

text \<open>When fewer bytes are sent than asked for, \<open>errno\<close> is an old value.\<close>

definition icmp_forward ::
  "env \<Rightarrow> nat \<Rightarrow> bytes \<Rightarrow> bytes \<Rightarrow> nat \<Rightarrow> nat \<Rightarrow> icmp_session ng_session \<Rightarrow> world
     \<Rightarrow> (bool \<times> icmp_session ng_session \<times> world) option" where
  "icmp_forward E version dst m payload icmplen s w =
     do { message \<leftarrow> icmp_request version m payload icmplen;
          let (now, w) = sys_time E w;
          let u = (ng_k s)\<lparr>i_time := now\<rparr>;
          let stale = e_errno E (w_tick w);
          let (r, w) = sys_sendto E (ng_socket s) message dst 0 w;
          let err = (case r of Inl e \<Rightarrow> Some e | Inr n \<Rightarrow> if n = icmplen then None else Some stale);
          Some (case err of
                  None \<Rightarrow> (True, s\<lparr>ng_k := u\<rparr>, w)
                | Some e \<Rightarrow> if e \<noteq> EINTR \<and> e \<noteq> EAGAIN then (False, s\<lparr>ng_k := u\<lparr>i_stop := True\<rparr>\<rparr>, w)
                            else (True, s\<lparr>ng_k := u\<rparr>, w)) }"

definition handle_icmp ::
  "env \<Rightarrow> bytes \<Rightarrow> nat \<Rightarrow> nat \<Rightarrow> int \<Rightarrow> session list \<Rightarrow> world \<Rightarrow> (bool \<times> session list \<times> world) option"
where
  "handle_icmp E m len payload uid ss w =
     do { b \<leftarrow> rd8 m 0;
          let version = unat (drop_bit 4 b);
          let icmplen = size_sub len payload;
          (src, dst) \<leftarrow> pkt_addrs version m;
          type \<leftarrow> rd8 m payload;
          if type \<noteq> ICMP_ECHO then Some (False, ss, w)
          else
            case List.extract (icmp_matches version src dst) ss of
              None \<Rightarrow>
                do { ident \<leftarrow> rd16 m (payload + 4);
                     let (new, w) = icmp_new_session E version src dst ident uid w;
                     case new of
                       None \<Rightarrow> Some (False, ss, w)
                     | Some s \<Rightarrow>
                         do { (sent, s, w) \<leftarrow> icmp_forward E version dst m payload icmplen s w;
                              Some (sent, ICMP s # ss, w) } }
            | Some (before, s, behind) \<Rightarrow>
                (case s of
                   ICMP c \<Rightarrow>
                     do { (sent, c, w) \<leftarrow> icmp_forward E version dst m payload icmplen c w;
                          Some (sent, before @ ICMP c # behind, w) }
                 | _ \<Rightarrow> Some (False, ss, w)) }"

section \<open>The check and the handlers in cases\<close>

lemma check_icmp_session_cases:
  assumes "check_icmp_session E n m s w = Some (del, s', w')"
  obtains (idle) "del" "s' = s\<lparr>ng_socket := - 1\<rparr>" "w_trace w' = w_trace w @ [SockClose (ng_socket s)]"
      "i_stop (ng_k s) \<or> i_time (ng_k s) + the (get_icmp_timeout (ng_k s) n m) < e_time E (w_tick w)"
  | (busy) "\<not> del" "s' = s" "w_trace w' = w_trace w"
      "\<not> i_stop (ng_k s)" "e_time E (w_tick w) \<le> i_time (ng_k s) + the (get_icmp_timeout (ng_k s) n m)"
proof -
  from assms obtain timeout where "get_icmp_timeout (ng_k s) n m = Some timeout"
    and "(if i_stop (ng_k s) \<or> i_time (ng_k s) + timeout < e_time E (w_tick w)
          then Some (True, s\<lparr>ng_socket := - 1\<rparr>, sys_close (ng_socket s) (tick w))
          else Some (False, s, tick w)) = Some (del, s', w')"
    unfolding check_icmp_session_def sys_time_def Let_def prod.case
    by (elim bind_eq_Some_conv [THEN iffD1, elim_format] exE conjE)
  then show thesis
    by (cases "i_stop (ng_k s) \<or> i_time (ng_k s) + timeout < e_time E (w_tick w)")
      (auto simp: sys_close_def intro: idle busy)
qed

interpretation icmp_check: session_check check_icmp_session ng_socket ng_ptr icmp_inv
proof
  fix s :: "icmp_session ng_session" and E n m w del s' w'
  assume i: "icmp_inv s" and c: "check_icmp_session E n m s w = Some (del, s', w')"
  from c show "icmp_inv s'" if "\<not> del"
    using i that by (cases rule: check_icmp_session_cases) simp_all
  from c show "ng_socket s' < 0" if "del"
    using that by (cases rule: check_icmp_session_cases) simp_all
  from c show "sock_change ng_socket ng_ptr s w s' w'"
    using i by (cases rule: check_icmp_session_cases) (auto simp: sock_change_def icmp_inv_def)
qed

lemma write_icmp_trace:
  "write_icmp E u d w = (res, w') \<Longrightarrow> w_trace w' = w_trace w @ [TunWrite (icmp_packet u d)]"
  by (auto simp: write_icmp_def tun_write_def Let_def)

text \<open>A step that keeps the socket.\<close>

definition icmp_step :: "icmp_session ng_session \<Rightarrow> world \<Rightarrow> icmp_session ng_session \<Rightarrow> world \<Rightarrow> bool" where
  "icmp_step s w s' w' \<longleftrightarrow> quiet w w'
     \<and> (\<exists>t stop. s' = s\<lparr>ng_k := (ng_k s)\<lparr>i_time := t, i_stop := stop\<rparr>\<rparr> \<and> (i_stop (ng_k s) \<longrightarrow> stop))"

lemma icmp_stepI:
  "quiet w w' \<Longrightarrow> i_stop (ng_k s) \<longrightarrow> stop \<Longrightarrow>
     icmp_step s w (s\<lparr>ng_k := (ng_k s)\<lparr>i_time := t, i_stop := stop\<rparr>\<rparr>) w'"
  by (auto simp: icmp_step_def)

lemma icmp_step_time: "quiet w w' \<Longrightarrow> icmp_step s w (s\<lparr>ng_k := (ng_k s)\<lparr>i_time := t\<rparr>\<rparr>) w'"
  using icmp_stepI [of w w' s "i_stop (ng_k s)" t] by simp

lemma icmp_step_frame:
  assumes "icmp_step s w s' w'"
  shows "ng_socket s' = ng_socket s" "ng_ptr s' = ng_ptr s" "i_id (ng_k s') = i_id (ng_k s)"
    "i_version (ng_k s') = i_version (ng_k s)" "i_saddr (ng_k s') = i_saddr (ng_k s)"
    "i_daddr (ng_k s') = i_daddr (ng_k s)" "icmp_inv s' = icmp_inv s"
    "sock_change sess_socket sess_ptr (ICMP s) w (ICMP s') w'"
  using assms quiet_ledger by (auto simp: icmp_step_def icmp_inv_def sock_change_def)

lemma check_icmp_socket_step:
  assumes "check_icmp_socket E ev s w = Some (s', w')"
  shows "icmp_step s w s' w'"
proof -
  consider (err) "ev AND EPOLLERR \<noteq> 0" | (read) "\<not> ev AND EPOLLERR \<noteq> 0" "ev AND EPOLLIN \<noteq> 0"
    | (none) "\<not> ev AND EPOLLERR \<noteq> 0" "\<not> ev AND EPOLLIN \<noteq> 0" by blast
  then show ?thesis
  proof cases
    case err
    from assms [unfolded check_icmp_socket_def if_P [OF err]] show ?thesis
      by (auto simp: sys_time_def intro!: icmp_stepI)
  next
    case none
    with assms have "s' = s\<lparr>ng_k := (ng_k s)\<lparr>i_time := i_time (ng_k s)\<rparr>\<rparr>" "w' = w"
      by (simp_all add: check_icmp_socket_def)
    then show ?thesis by (simp only:) (rule icmp_step_time, simp)
  next
    case read
    let ?u = "(ng_k s)\<lparr>i_time := e_time E (w_tick w)\<rparr>"
    obtain r w1 where r: "sys_recv E (ng_socket s) (icmp_buffer ?u) (tick w) = (r, w1)"
      by (cases "sys_recv E (ng_socket s) (icmp_buffer ?u) (tick w)")
    note a = assms [unfolded check_icmp_socket_def if_not_P [OF read(1)] if_P [OF read(2)] sys_time_def Let_def
        prod.case r]
    have q: "quiet w w1" using quiet_tick quiet_recv [OF r] by (rule quiet_trans)
    show ?thesis
    proof (cases r)
      case (Inl e)
      show ?thesis
      proof (cases "e \<noteq> EINTR \<and> e \<noteq> EAGAIN")
        case True
        from a [unfolded Inl sum.case if_P [OF True]] show ?thesis using q by (auto intro!: icmp_stepI)
      next
        case False
        from a [unfolded Inl sum.case if_not_P [OF False]] show ?thesis using q by (auto intro!: icmp_step_time)
      qed
    next
      case (Inr bytes)
      note b = a [unfolded Inr sum.case]
      show ?thesis
      proof (cases "bytes = []")
        case True
        from b [unfolded if_P [OF True]] show ?thesis using q by (auto intro!: icmp_stepI)
      next
        case False
        from b [unfolded if_not_P [OF False]] obtain message where
          c: "(case write_icmp E ?u message w1 of (res, w) \<Rightarrow>
             Some (s\<lparr>ng_k := (if res < 0 then ?u\<lparr>i_stop := True\<rparr> else ?u)\<rparr>, w)) = Some (s', w')"
          unfolding bind_eq_Some_conv by blast
        obtain res w2 where w2: "write_icmp E ?u message w1 = (res, w2)" by (cases "write_icmp E ?u message w1")
        have "quiet w w2" using q quiet_tun [OF write_icmp_trace [OF w2]] by (rule quiet_trans)
        then show ?thesis
          using c [unfolded w2 prod.case] by (cases "res < 0") (auto intro!: icmp_stepI icmp_step_time)
      qed
    qed
  qed
qed

interpretation icmp_sockets: socket_handler check_icmp_socket ICMP "\<lambda>s. True"
proof
  fix s E ev w s' w'
  assume "sess_inv (ICMP s)" "check_icmp_socket E ev s w = Some (s', w')"
  then show "sock_change sess_socket sess_ptr (ICMP s) w (ICMP s') w' \<and> sess_inv (ICMP s')"
    using icmp_step_frame [OF check_icmp_socket_step] by simp
qed

lemma icmp_forward_cases:
  assumes "icmp_forward E version dst m payload k s w = Some (sent, s', w')"
  obtains message r where "icmp_request version m payload k = Some message"
    "w_trace w' = w_trace w @ [SockSendTo (ng_socket s) message dst 0 r]"
    "s' = s\<lparr>ng_k := (ng_k s)\<lparr>i_time := e_time E (w_tick w), i_stop := i_stop (ng_k s) \<or> \<not> sent\<rparr>\<rparr>"
    "r = Inr k \<longrightarrow> sent" "\<forall>e. r = Inl e \<longrightarrow> sent = (e \<in> {EINTR, EAGAIN})"
proof -
  let ?u = "(ng_k s)\<lparr>i_time := e_time E (w_tick w)\<rparr>"
  from assms obtain message where m: "icmp_request version m payload k = Some message"
    and a: "(case sys_sendto E (ng_socket s) message dst 0 (tick w) of (r, w1) \<Rightarrow>
        Some (case (case r of Inl e \<Rightarrow> Some e | Inr n \<Rightarrow> if n = k then None else Some (e_errno E (w_tick (tick w)))) of
                None \<Rightarrow> (True, s\<lparr>ng_k := ?u\<rparr>, w1)
              | Some e \<Rightarrow> if e \<noteq> EINTR \<and> e \<noteq> EAGAIN then (False, s\<lparr>ng_k := ?u\<lparr>i_stop := True\<rparr>\<rparr>, w1)
                          else (True, s\<lparr>ng_k := ?u\<rparr>, w1))) = Some (sent, s', w')"
    unfolding icmp_forward_def sys_time_def Let_def prod.case
    by (elim bind_eq_Some_conv [THEN iffD1, elim_format] exE conjE)
  obtain r w1 where r: "sys_sendto E (ng_socket s) message dst 0 (tick w) = (r, w1)"
    by (cases "sys_sendto E (ng_socket s) message dst 0 (tick w)")
  define err where "err = (case r of Inl e \<Rightarrow> Some e | Inr n \<Rightarrow> if n = k then None else Some (e_errno E (w_tick (tick w))))"
  have b: "(case err of None \<Rightarrow> (True, s\<lparr>ng_k := ?u\<rparr>, w1)
              | Some e \<Rightarrow> if e \<noteq> EINTR \<and> e \<noteq> EAGAIN then (False, s\<lparr>ng_k := ?u\<lparr>i_stop := True\<rparr>\<rparr>, w1)
                          else (True, s\<lparr>ng_k := ?u\<rparr>, w1)) = (sent, s', w')"
    using a [unfolded r prod.case, folded err_def] by simp
  have u: "?u = (ng_k s)\<lparr>i_time := e_time E (w_tick w), i_stop := i_stop (ng_k s)\<rparr>" by simp
  show thesis
  proof (rule that [OF m])
    show "w_trace w' = w_trace w @ [SockSendTo (ng_socket s) message dst 0 r]"
      using b sys_traces(10) [of E "ng_socket s" message dst 0 "tick w"] r
      by (auto split: option.splits if_splits)
    show "s' = s\<lparr>ng_k := (ng_k s)\<lparr>i_time := e_time E (w_tick w), i_stop := i_stop (ng_k s) \<or> \<not> sent\<rparr>\<rparr>"
      using b u by (auto split: option.splits if_splits)
    show "r = Inr k \<longrightarrow> sent" using b by (auto simp: err_def)
    show "\<forall>e. r = Inl e \<longrightarrow> sent = (e \<in> {EINTR, EAGAIN})" using b by (auto simp: err_def split: if_splits)
  qed
qed

lemma icmp_forward_step:
  assumes "icmp_forward E version dst m payload k s w = Some (sent, s', w')"
  shows "icmp_step s w s' w'"
  using assms
proof (cases rule: icmp_forward_cases)
  case (1 message r)
  have "quiet w w'" unfolding quiet_def using 1(2)
    by (intro exI [of _ "[SockSendTo (ng_socket s) message dst 0 r]"]) simp
  then show ?thesis unfolding 1(3) by (rule icmp_stepI) simp
qed

lemma open_icmp_socket_trace:
  assumes "open_icmp_socket E cur w = (sock, w')"
  shows "sock = - 1 \<and> spilled w w'
    \<or> 0 \<le> sock \<and> (\<exists>v. ledger (w_trace w') = ledger (w_trace w) @ [SockOpen sock v])"
  using assms
  by (auto simp: open_icmp_socket_def sys_socket_def protect_socket_def spilled_def Let_def
      split: sum.splits prod.splits if_splits)

lemma icmp_new_session_cases:
  assumes "icmp_new_session E version src dst ident uid w = (so, w')"
  obtains (failed) "so = None" "spilled w w'"
  | (new) s where "so = Some s" "enrolled (ng_socket s) (ng_ptr s) w w'" "i_id (ng_k s) = ident"
      "i_version (ng_k s) = version" "i_saddr (ng_k s) = src" "i_daddr (ng_k s) = dst" "\<not> i_stop (ng_k s)"
proof -
  let ?u = "\<lparr>i_time = e_time E (w_tick w), i_uid = uid, i_version = version, i_saddr = src, i_daddr = dst,
               i_id = ident, i_stop = False\<rparr>"
  obtain sock w1 where o: "open_icmp_socket E ?u (tick w) = (sock, w1)"
    by (cases "open_icmp_socket E ?u (tick w)")
  note sp = open_icmp_socket_trace [OF o]
  note a = assms [unfolded icmp_new_session_def Let_def sys_time_def prod.case o]
  show thesis
  proof (cases "sock < 0")
    case True
    from a [unfolded if_P [OF True]] sp True show thesis by (intro failed) (auto simp: spilled_def)
  next
    case False
    let ?s = "\<lparr>ng_k = ?u, ng_socket = sock, ng_ev = EPOLLIN OR EPOLLERR, ng_ptr = w_tick w\<rparr>"
    from a [unfolded if_not_P [OF False]] have "so = Some ?s"
      "w' = snd (epoll_add E sock (EPOLLIN OR EPOLLERR) (w_tick w) w1)" by (simp_all add: case_prod_beta)
    then show thesis
      using False sp by (intro new [of ?s]) (auto simp: trace_simps enrolled_def)
  qed
qed

lemma handle_icmp_cases:
  assumes "handle_icmp E m n payload uid ss w = Some (sent, ss', w')"
  obtains (other) type where "rd8 m payload = Some type" "type \<noteq> ICMP_ECHO" "ss' = ss" "w' = w" "\<not> sent"
  | (failed) "ss' = ss" "spilled w w'" "\<not> sent" "rd8 m payload = Some ICMP_ECHO"
  | (new) b src dst ident c w1 c' where
      "rd8 m 0 = Some b" "pkt_addrs (unat (drop_bit 4 b)) m = Some (src, dst)"
      "rd8 m payload = Some ICMP_ECHO" "rd16 m (payload + 4) = Some ident"
      "\<forall>s \<in> set ss. \<not> icmp_matches (unat (drop_bit 4 b)) src dst s"
      "icmp_new_session E (unat (drop_bit 4 b)) src dst ident uid w = (Some c, w1)"
      "icmp_forward E (unat (drop_bit 4 b)) dst m payload (size_sub n payload) c w1 = Some (sent, c', w')"
      "ss' = ICMP c' # ss"
  | (known) b src dst before c c' behind where
      "rd8 m 0 = Some b" "pkt_addrs (unat (drop_bit 4 b)) m = Some (src, dst)"
      "rd8 m payload = Some ICMP_ECHO" "icmp_matches (unat (drop_bit 4 b)) src dst (ICMP c)"
      "ss = before @ ICMP c # behind" "\<forall>s \<in> set before. \<not> icmp_matches (unat (drop_bit 4 b)) src dst s"
      "icmp_forward E (unat (drop_bit 4 b)) dst m payload (size_sub n payload) c w = Some (sent, c', w')"
      "ss' = before @ ICMP c' # behind"
proof -
  obtain b where b: "rd8 m 0 = Some b"
    using assms by (cases "rd8 m 0") (simp_all add: handle_icmp_def)
  obtain src dst where ad: "pkt_addrs (unat (drop_bit 4 b)) m = Some (src, dst)"
    using assms b by (cases "pkt_addrs (unat (drop_bit 4 b)) m") (auto simp: handle_icmp_def Let_def)
  note r0 = assms [unfolded handle_icmp_def b Option.bind.bind_lunit Let_def ad prod.case]
  from r0 obtain type where ty: "rd8 m payload = Some type"
    and r: "(if type \<noteq> ICMP_ECHO then Some (False, ss, w)
       else (case List.extract (icmp_matches (unat (drop_bit 4 b)) src dst) ss of
              None \<Rightarrow>
                do { ident \<leftarrow> rd16 m (payload + 4);
                     case icmp_new_session E (unat (drop_bit 4 b)) src dst ident uid w of (new, w) \<Rightarrow>
                     (case new of
                       None \<Rightarrow> Some (False, ss, w)
                     | Some s \<Rightarrow>
                         do { (sent, s, w) \<leftarrow> icmp_forward E (unat (drop_bit 4 b)) dst m payload (size_sub n payload) s w;
                              Some (sent, ICMP s # ss, w) }) }
            | Some (before, s, behind) \<Rightarrow>
                (case s of
                   ICMP c \<Rightarrow>
                     do { (sent, c, w) \<leftarrow> icmp_forward E (unat (drop_bit 4 b)) dst m payload (size_sub n payload) c w;
                          Some (sent, before @ ICMP c # behind, w) }
                 | _ \<Rightarrow> Some (False, ss, w)))) = Some (sent, ss', w')"
    by (elim bind_eq_Some_conv [THEN iffD1, elim_format] exE conjE)
  show thesis
  proof (cases "type = ICMP_ECHO")
    case False
    with r ty show thesis by (intro other) simp_all
  next
    case True
    then have "\<not> type \<noteq> ICMP_ECHO" by simp
    note r1 = r [unfolded if_not_P [OF this]]
    show thesis
    proof (cases "List.extract (icmp_matches (unat (drop_bit 4 b)) src dst) ss")
      case None
      from r1 [unfolded None option.case] obtain ident where i: "rd16 m (payload + 4) = Some ident"
        and r2: "(case icmp_new_session E (unat (drop_bit 4 b)) src dst ident uid w of (new, w) \<Rightarrow>
          (case new of None \<Rightarrow> Some (False, ss, w)
           | Some s \<Rightarrow>
               do { (sent, s, w) \<leftarrow> icmp_forward E (unat (drop_bit 4 b)) dst m payload (size_sub n payload) s w;
                    Some (sent, ICMP s # ss, w) })) = Some (sent, ss', w')"
        unfolding bind_eq_Some_conv by blast
      obtain so w1 where so: "icmp_new_session E (unat (drop_bit 4 b)) src dst ident uid w = (so, w1)"
        by (cases "icmp_new_session E (unat (drop_bit 4 b)) src dst ident uid w")
      note r3 = r2 [unfolded so prod.case]
      show thesis
      proof (cases so)
        case none: None
        from so have "spilled w w1" by (cases rule: icmp_new_session_cases) (simp_all add: none)
        with r3 none ty True show thesis by (intro failed) simp_all
      next
        case (Some c)
        from r3 [unfolded Some option.case] obtain c' where
          "icmp_forward E (unat (drop_bit 4 b)) dst m payload (size_sub n payload) c w1 = Some (sent, c', w')"
          "ss' = ICMP c' # ss" by (auto simp: bind_eq_Some_conv)
        with b ad ty True i so Some None show thesis by (intro new) (simp_all add: extract_None_iff)
      qed
    next
      case (Some bsb)
      obtain before s behind where bsb: "bsb = (before, s, behind)" by (cases bsb)
      have x: "ss = before @ s # behind" "icmp_matches (unat (drop_bit 4 b)) src dst s"
        "\<forall>s \<in> set before. \<not> icmp_matches (unat (drop_bit 4 b)) src dst s"
        using extract_split [OF Some [unfolded bsb]] by simp_all
      from x(2) obtain c where c: "s = ICMP c" by (cases s) (simp_all add: icmp_matches_def)
      from r1 [unfolded Some bsb option.case prod.case c session.case] obtain c' where
        "icmp_forward E (unat (drop_bit 4 b)) dst m payload (size_sub n payload) c w = Some (sent, c', w')"
        "ss' = before @ ICMP c' # behind" by (auto simp: bind_eq_Some_conv)
      with b ad ty True x show thesis unfolding c by (intro known) simp_all
    qed
  qed
qed

lemma handle_icmp_effect:
  assumes "handle_icmp E m n payload uid ss w = Some (sent, ss', w')"
  shows "ss' = ss \<and> spilled w w'
     \<or> (\<exists>c. ss' = ICMP c # ss \<and> icmp_inv c \<and> enrolled (ng_socket c) (ng_ptr c) w w')
     \<or> (\<exists>before c c' behind. ss = before @ ICMP c # behind \<and> ss' = before @ ICMP c' # behind
          \<and> icmp_step c w c' w')"
  using assms
proof (cases rule: handle_icmp_cases)
  case (new b src dst ident c w1 c')
  have st: "icmp_step c w1 c' w'" by (rule icmp_forward_step [OF new(7)])
  from new(6) have "enrolled (ng_socket c) (ng_ptr c) w w1"
    by (cases rule: icmp_new_session_cases) simp_all
  then have "enrolled (ng_socket c') (ng_ptr c') w w' \<and> icmp_inv c'"
    using icmp_step_frame [OF st] st quiet_ledger [of w1 w']
    by (auto simp: enrolled_def icmp_step_def icmp_inv_def)
  then show ?thesis using new(8) by blast
next
  case (known b src dst before c c' behind)
  show ?thesis using icmp_forward_step [OF known(7)] known(5,8) by blast
qed (simp_all add: spilled_def)

interpretation icmp_packets: packet_handler "\<lambda>E m n p uid ss w. map_option snd (handle_icmp E m n p uid ss w)"
proof
  fix ss m n p uid w ss' w' E
  assume i: "\<forall>s \<in> set ss. sess_inv s" and "map_option snd (handle_icmp E m n p uid ss w) = Some (ss', w')"
  then obtain sent where h: "handle_icmp E m n p uid ss w = Some (sent, ss', w')" by auto
  from handle_icmp_effect [OF h] show "move ss w ss' w'"
  proof (elim conjE disjE exE)
    fix c assume "ss' = ICMP c # ss" "icmp_inv c" "enrolled (ng_socket c) (ng_ptr c) w w'"
    then show ?thesis by (simp add: move.added)
  next
    fix before c c' behind
    assume s: "ss = before @ ICMP c # behind" "ss' = before @ ICMP c' # behind" and st: "icmp_step c w c' w'"
    then have "sess_inv (ICMP c')" using i icmp_step_frame(7) [OF st] by simp
    then show ?thesis unfolding s using icmp_step_frame(8) [OF st] by (intro move.changed)
  qed (simp add: move.spilled)
qed

section \<open>The two rewritings of a message\<close>

text \<open>
  A message is its type and code, its checksum, its identifier, and the rest. \<open>sealed csum ident b\<close> is
  the message \<open>b\<close> with another identifier and the checksum continued from \<open>csum\<close>.
\<close>

definition sealed :: "u16 \<Rightarrow> u16 \<Rightarrow> bytes \<Rightarrow> bytes" where
  "sealed csum ident b =
     take 2 b @ bytes16 (NOT (calc_checksum csum (take 2 b @ bytes16 0 @ bytes16 ident @ drop 6 b)))
     @ bytes16 ident @ drop 6 b"

lemma sealed_facts:
  assumes "6 \<le> length b"
  shows "length (sealed csum ident b) = length b" "take 2 (sealed csum ident b) = take 2 b"
    "rd16 (sealed csum ident b) 4 = Some ident" "drop 6 (sealed csum ident b) = drop 6 b"
proof -
  show "length (sealed csum ident b) = length b" "take 2 (sealed csum ident b) = take 2 b"
    "drop 6 (sealed csum ident b) = drop 6 b"
    using assms by (simp_all add: sealed_def)
  show "rd16 (sealed csum ident b) 4 = Some ident"
    using rd16_app [of "take 2 b @ bytes16 c" 4 ident "drop 6 b" for c] assms by (simp add: sealed_def)
qed

lemma sealed_verifies:
  assumes "6 \<le> length b" "length b \<le> ck_max"
  shows "calc_checksum csum (sealed csum ident b) = 0xFFFF"
  unfolding sealed_def using assms by (intro csum.ck_seal) simp_all

lemma message_parts:
  assumes "6 \<le> length b"
  obtains x y where "b = take 2 b @ x @ y @ drop 6 b" "length x = 2" "length y = 2"
proof (rule that [of "take 2 (drop 2 b)" "take 2 (drop 4 b)"])
  show "b = take 2 b @ take 2 (drop 2 b) @ take 2 (drop 4 b) @ drop 6 b"
    using append_take_drop_id [of 2 b] append_take_drop_id [of 2 "drop 2 b"] append_take_drop_id [of 2 "drop 4 b"]
    by simp
qed (use assms in simp_all)

lemma icmp_restore_general:
  assumes "6 \<le> length b"
  shows "icmp_restore u (b @ junk) (length b) = Some (sealed
    (if i_version u = 6
     then calc_checksum 0 (ip6_hdr_pseudo (i_daddr u) (i_saddr u) (of_int (int (length b) - 40)) IPPROTO_ICMPV6)
     else 0) (i_id u) b)"
proof -
  obtain x y where b: "b = take 2 b @ x @ y @ drop 6 b" "length x = 2" "length y = 2"
    using message_parts [OF assms] by blast
  let ?r = "drop 6 b @ junk"
  have bj: "b @ junk = (take 2 b @ x) @ y @ ?r" using b(1) by (metis append.assoc)
  have w1: "wr_block (b @ junk) 4 (bytes16 (i_id u)) = Some (take 2 b @ x @ bytes16 (i_id u) @ ?r)"
    unfolding bj using b assms wr_block_at [of "take 2 b @ x" 4 y "bytes16 (i_id u)" ?r] by simp
  have w2: "wr_block (take 2 b @ z @ bytes16 (i_id u) @ ?r) 2 z' = Some (take 2 b @ z' @ bytes16 (i_id u) @ ?r)"
    if "length z = 2" "length z' = 2" for z z'
    using that assms by (intro wr_block_at) simp_all
  have r: "rd_block (take 2 b @ z @ bytes16 (i_id u) @ ?r) 0 (length b) = Some (take 2 b @ z @ bytes16 (i_id u) @ drop 6 b)"
    if "length z = 2" for z
    using that assms by (simp add: rd_block_def)
  have z: "[0, 0] = bytes16 0" by (simp add: bytes16_def)
  show ?thesis
    using b(2) w1 w2 r by (simp add: icmp_restore_def sealed_def z Let_def)
qed

lemma icmp_restore_sealed:
  "6 \<le> length b \<Longrightarrow> \<not> i_version u = 6 \<Longrightarrow> icmp_restore u (b @ junk) (length b) = Some (sealed 0 (i_id u) b)"
  using icmp_restore_general [of b u junk] by simp

lemma icmp_request_sealed:
  assumes "payload + n \<le> length m" "6 \<le> n" "n < 2 ^ 32" "version \<noteq> 6"
  shows "\<exists>ident. rd16 m (payload + 4) = Some ident
    \<and> icmp_request version m payload n = Some (sealed 0 (NOT ident) (take n (drop payload m)))"
proof -
  define b and h and tl where "b = take n (drop payload m)" and "h = take payload m"
    and "tl = drop (payload + n) m"
  have lb: "length b = n" "length h = payload" using assms(1) by (simp_all add: b_def h_def)
  have mb: "m = h @ b @ tl"
    by (simp add: h_def b_def tl_def) (metis append_take_drop_id drop_drop add.commute)
  obtain x y where b: "b = take 2 b @ x @ y @ drop 6 b" "length x = 2" "length y = 2"
    using message_parts [of b] lb assms(2) by metis
  obtain y1 y2 where "y = [y1, y2]" using b(3) by (auto simp: numeral_2_eq_2 length_Suc_conv)
  then obtain ident where y: "y = bytes16 ident" using unat_le16_lo [of y1 y2] unat_le16_hi [of y1 y2]
    by (metis bytes16_def)
  define t and r where "t = take 2 b" and "r = drop 6 b"
  have lt: "length t = 2" "length r = n - 6" using assms(2) lb by (simp_all add: t_def r_def)
  have m: "m = (h @ t @ x) @ y @ r @ tl" using mb b(1) by (simp add: t_def r_def)
  have i: "rd16 m (payload + 4) = Some ident"
    unfolding m y using lb lt b(2) by (intro rd16_app) simp
  have w1: "wr_block m (payload + 4) (bytes16 (NOT ident)) = Some (h @ t @ x @ bytes16 (NOT ident) @ r @ tl)"
    unfolding m using lb lt b wr_block_at [of "h @ t @ x" "payload + 4" y "bytes16 (NOT ident)" "r @ tl"] by simp
  have w2: "wr_block (h @ t @ z @ bytes16 (NOT ident) @ r @ tl) (payload + 2) z'
      = Some (h @ t @ z' @ bytes16 (NOT ident) @ r @ tl)"
    if "length z = 2" "length z' = 2" for z z'
    using that lb lt wr_block_at [of "h @ t" "payload + 2" z z' "bytes16 (NOT ident) @ r @ tl"] by simp
  have r: "rd_block (h @ t @ z @ bytes16 (NOT ident) @ r @ tl) payload n = Some (t @ z @ bytes16 (NOT ident) @ r)"
    if "length z = 2" for z
    using that lb lt assms(2) by (simp add: rd_block_def)
  have z: "[0, 0] = bytes16 0" by (simp add: bytes16_def)
  have "n mod 2 ^ 32 = n" using assms(3) by simp
  then show ?thesis
    using i assms(4) w1 w2 [OF b(2)] w2 r
    by (simp add: icmp_request_def sealed_def z t_def [symmetric] r_def [symmetric] b_def [symmetric])
qed

section \<open>Properties\<close>


definition sample_icmp :: "icmp_session ng_session" where
  "sample_icmp = \<lparr>ng_k = \<lparr>i_time = 1000, i_uid = 0, i_version = 4, i_saddr = [10, 1, 10, 1],
     i_daddr = [8, 8, 8, 8], i_id = 0x1234, i_stop = False\<rparr>, ng_socket = 9, ng_ev = 0, ng_ptr = 1\<rparr>"



definition sample_echo :: bytes where
  "sample_echo = [0x45, 0, 0, 28, 0, 0, 0, 0, 64, 1, 0, 0, 10, 1, 10, 1, 8, 8, 8, 8, 8, 0, 0, 0, 0x34, 0x12, 0, 1]"

lemma sample_echo_reads:
  "rd8 sample_echo 0 = Some 0x45" "rd8 sample_echo 20 = Some ICMP_ECHO" "length sample_echo = 28"
  "pkt_addrs 4 sample_echo = Some ([10, 1, 10, 1], [8, 8, 8, 8])"
  "drop_bit 4 (0x45 :: u8) = 4" "unat (drop_bit 4 (0x45 :: u8)) = 4"
  by (simp_all add: sample_echo_def rd8_def pkt_addrs_def rd_block_def ICMP_ECHO_def)

lemma icmp_forward_defined:
  assumes "icmp_request version m payload k = Some req"
  shows "\<exists>sent s' w'. icmp_forward E version dst m payload k s w = Some (sent, s', w')"
proof -
  obtain r w1 where r: "sys_sendto E (ng_socket s) req dst 0 (tick w) = (r, w1)"
    by (cases "sys_sendto E (ng_socket s) req dst 0 (tick w)")
  define x where "x = (case (case r of Inl e \<Rightarrow> Some e | Inr n \<Rightarrow> if n = k then None else Some (e_errno E (w_tick (tick w)))) of
                  None \<Rightarrow> (True, s\<lparr>ng_k := (ng_k s)\<lparr>i_time := e_time E (w_tick w)\<rparr>\<rparr>, w1)
                | Some e \<Rightarrow> if e \<noteq> EINTR \<and> e \<noteq> EAGAIN
                     then (False, s\<lparr>ng_k := (ng_k s)\<lparr>i_time := e_time E (w_tick w), i_stop := True\<rparr>\<rparr>, w1)
                            else (True, s\<lparr>ng_k := (ng_k s)\<lparr>i_time := e_time E (w_tick w)\<rparr>\<rparr>, w1))"
  have "icmp_forward E version dst m payload k s w = Some x"
    unfolding icmp_forward_def assms Option.bind.bind_lunit sys_time_def Let_def prod.case r x_def by (rule refl)
  then show ?thesis by (cases x) auto
qed


text \<open>
  The identifier a client gets back is the one of the request that opened the session: a later
  request between the same addresses, whatever its own identifier, is sent by the same session and does
  not change it. The answers to a second program that asks the same host carry the identifier of the
  first.
\<close>

theorem icmp_identifier_of_first_request:
  assumes "handle_icmp E m n payload uid ss w = Some (sent, ss', w')"
    and "rd8 m 0 = Some b" and "drop_bit 4 b = 4" and "rd8 m payload = Some ICMP_ECHO"
    and "pkt_addrs 4 m = Some (src, dst)" and "ss = before @ ICMP c # behind"
    and "icmp_matches 4 src dst (ICMP c)" and "\<forall>s \<in> set before. \<not> icmp_matches 4 src dst s"
  shows "\<exists>c'. ss' = before @ ICMP c' # behind \<and> i_id (ng_k c') = i_id (ng_k c)
    \<and> ng_socket c' = ng_socket c
    \<and> (\<exists>req r. last (w_trace w') = SockSendTo (ng_socket c) req dst 0 r)"
proof -
  have v: "unat (drop_bit 4 b) = 4" using assms(3) by simp
  have x: "List.extract (icmp_matches 4 src dst) ss = Some (before, ICMP c, behind)"
    using assms(6-8) by (simp add: extract_Some_iff)
  have ne: "\<not> ICMP_ECHO \<noteq> ICMP_ECHO" by simp
  from assms(1) [unfolded handle_icmp_def assms(2,4) Option.bind.bind_lunit Let_def v assms(5) prod.case
      if_not_P [OF ne] x option.case session.case]
  obtain c' where f: "icmp_forward E 4 dst m payload (size_sub n payload) c w = Some (sent, c', w')"
    and ss': "ss' = before @ ICMP c' # behind" by (auto simp: bind_eq_Some_conv)
  from f show ?thesis
    by (cases rule: icmp_forward_cases) (use ss' in auto)
qed

theorem icmp_identifier_of_first_request_witness:
  "\<exists>sent c' w'. handle_icmp calm (sample_echo[24 := 0x99]) 28 20 0 [ICMP sample_icmp] start = Some (sent, [ICMP c'], w')
    \<and> i_id (ng_k c') = 0x1234 \<and> rd16 (sample_echo[24 := 0x99]) 24 = Some 0x1299"
proof -
  let ?m = "sample_echo[24 := 0x99]"
  have m: "?m = [0x45, 0, 0, 28, 0, 0, 0, 0, 64, 1, 0, 0, 10, 1, 10, 1, 8, 8, 8, 8, 8, 0, 0, 0, 0x99, 0x12, 0, 1]"
    by (simp add: sample_echo_def)
  have rds: "rd8 ?m 0 = Some 0x45" "rd8 ?m 20 = Some ICMP_ECHO" "length ?m = 28" "rd16 ?m 24 = Some 0x1299"
    "pkt_addrs 4 ?m = Some ([10, 1, 10, 1], [8, 8, 8, 8])"
    unfolding m by (simp_all add: rd8_def rd16_def le16_def pkt_addrs_def rd_block_def ICMP_ECHO_def)
  have mt: "icmp_matches 4 [10, 1, 10, 1] [8, 8, 8, 8] (ICMP sample_icmp)"
    by (simp add: icmp_matches_def sample_icmp_def ip4_def)
  then have x: "List.extract (icmp_matches 4 [10, 1, 10, 1] [8, 8, 8, 8]) [ICMP sample_icmp] = Some ([], ICMP sample_icmp, [])"
    by (simp add: extract_Some_iff)
  obtain req where "icmp_request 4 ?m 20 8 = Some req"
    using icmp_request_sealed [of 20 8 ?m 4] rds(3) by auto
  then obtain sent s' w' where "icmp_forward calm 4 [8, 8, 8, 8] ?m 20 8 sample_icmp start = Some (sent, s', w')"
    using icmp_forward_defined by blast
  then have h: "handle_icmp calm ?m 28 20 0 [ICMP sample_icmp] start = Some (sent, [ICMP s'], w')"
    using rds x sample_echo_reads(6) by (simp add: handle_icmp_def Let_def)
  have "i_id (ng_k sample_icmp) = 0x1234" by (simp add: sample_icmp_def)
  with icmp_identifier_of_first_request [OF h rds(1) sample_echo_reads(5) rds(2,5), of "[]" sample_icmp "[]"] mt h rds(4)
  show ?thesis by auto
qed

section \<open>ICMPv6\<close>

lemma oc_full: "oc n = 65535 \<Longrightarrow> n mod 65535 = 0"
  by (metis oc_mod mod_self)

lemma wsum_rx_pseudo6:
  assumes "length s = 16" "length d = 16" "n < 65536"
  shows "wsum (rx_pseudo 6 s d p n) mod 65535 = (wsum s + wsum d + 256 * n + wsum [0, p]) mod 65535"
proof -
  have "n div 256 < 256" using assms(3) by (simp add: less_mult_imp_div_less)
  then have h: "unat (htons (of_nat n :: u16)) = 256 * (n mod 256) + n div 256"
    using assms(3) by (simp add: ntohs_def unat_le16 unat_byte unat_byte0 unat_of_nat16 unat_drop_bit_div)
  have e: "256 * n = 256 * (n mod 256) + n div 256 + 65535 * (n div 256)"
    using mult_div_mod_eq [of 256 n] by linarith
  have "wsum (rx_pseudo 6 s d p n) = wsum s + wsum d + (256 * (n mod 256) + n div 256) + wsum [0, p]"
    using assms h by (simp add: rx_pseudo_def wsum_append)
  also have "\<dots> + 65535 * (n div 256) = wsum s + wsum d + 256 * n + wsum [0, p]"
    using e by simp
  finally show ?thesis by (metis mod_mult_self2)
qed

lemma wsum_wrong_pseudo6:
  assumes "length s = 16" "length d = 16" "n < 65536"
  shows "\<exists>k \<in> {39, 40}. (wsum (ip6_hdr_pseudo s d (of_int (int n - 40)) p) + k) mod 65535
    = (wsum s + wsum d + n + wsum [0, p]) mod 65535"
proof -
  let ?L = "of_int (int n - 40) :: u32"
  have w: "wsum (ip6_hdr_pseudo s d ?L p) = wsum s + wsum d + (unat ?L mod 65536 + unat ?L div 65536) + wsum [0, p]"
    using assms by (simp add: ip6_hdr_pseudo_def wsum_append wsum_bytes32)
  have e: "unat ?L = 65536 * (unat ?L div 65536) + unat ?L mod 65536" by simp
  define q r where "q = unat ?L div 65536" and "r = unat ?L mod 65536"
  have m: "(unat ?L + x) mod 65535 = (r + q + x) mod 65535" for x
  proof -
    have "unat ?L + x = (r + q + x) + 65535 * q" using e by (simp add: q_def r_def)
    then show ?thesis by (metis mod_mult_self2)
  qed
  have "int (unat (of_int x :: u32)) = x mod 2 ^ 32" for x :: int by (simp add: unsigned_of_int take_bit_eq_mod)
  then have u: "int (unat ?L) = (int n - 40) mod 2 ^ 32" .
  have "\<exists>k \<in> {39, 40}. (unat ?L + k + x) mod 65535 = (n + x) mod 65535" for x
  proof (cases "40 \<le> n")
    case True
    then have "int (unat ?L) = int n - 40" using u assms(3) by simp
    then have "unat ?L + 40 = n" using True by linarith
    then show ?thesis by auto
  next
    case False
    then have "(int n - 40 + 2 ^ 32) mod 2 ^ 32 = int n - 40 + 2 ^ 32" by (intro mod_pos_pos_trivial) simp_all
    then have "(int n - 40) mod 2 ^ 32 = int n - 40 + 2 ^ 32" by (metis mod_add_self2)
    then have "int (unat ?L) + 39 = int n + 65535 * 65537" using u by simp
    then have "unat ?L + 39 = n + 65535 * 65537" by linarith
    then have "(unat ?L + 39 + x) mod 65535 = (n + x + 65535 * 65537) mod 65535" by (simp add: ac_simps)
    then show ?thesis by (metis insertI1 mod_mult_self2)
  qed
  then obtain k where "k \<in> {39, 40}"
    "(unat ?L + k + (wsum s + wsum d + wsum [0, p])) mod 65535 = (n + (wsum s + wsum d + wsum [0, p])) mod 65535"
    by blast
  then show ?thesis
    using m [of "k + (wsum s + wsum d + wsum [0, p])"] w
    by (intro bexI [of _ k]) (simp_all add: ac_simps q_def r_def)
qed

text \<open>
  An ICMPv6 answer never verifies: whatever the message and its length, the checksum that is written
  continues the sum of a pseudo header with the wrong length (40 too small, and not in network order), so
  that a receiver that follows RFC 2460 rejects every one of them.
\<close>

theorem icmp6_answer_never_verifies:
  assumes "icmp_restore u (b @ junk) (length b) = Some message" and "i_version u = 6"
    and "length (i_saddr u) = 16" and "length (i_daddr u) = 16"
    and "6 \<le> length b" and "length b < 65536"
  shows "calc_checksum 0 (rx_pseudo 6 (i_daddr u) (i_saddr u) IPPROTO_ICMPV6 (length b) @ message) \<noteq> 0xFFFF"
proof
  let ?n = "length b" and ?p = IPPROTO_ICMPV6
  let ?ps = "ip6_hdr_pseudo (i_daddr u) (i_saddr u) (of_int (int ?n - 40)) ?p"
  let ?rx = "rx_pseudo 6 (i_daddr u) (i_saddr u) ?p ?n"
  assume v: "calc_checksum 0 (?rx @ message) = 0xFFFF"
  have m: "message = sealed (calc_checksum 0 ?ps) (i_id u) b"
    using icmp_restore_general [OF assms(5), of u junk] assms(1,2) by simp
  have lm: "length message = ?n" using sealed_facts(1) [OF assms(5)] by (simp add: m)
  have lp: "length ?ps = 40" "length ?rx = 40" using assms(3,4) by (simp_all add: ip6_hdr_pseudo_def rx_pseudo_def)
  have w: "calc_checksum (calc_checksum 0 ?ps) message = 0xFFFF"
    unfolding m using assms(5,6) by (intro sealed_verifies) (simp_all add: ck_max_def)
  have "calc_checksum 0 (?ps @ message) = 0xFFFF"
    using w csum.ck_append [of ?ps message 0] lp lm assms(6) by (simp add: ck_max_def)
  then have "oc (wsum ?ps + wsum message) = 65535"
    using csum.ck_val [of "?ps @ message" 0] lp lm assms(6) by (simp add: ck_max_def wsum_append)
  then have a: "(wsum ?ps + wsum message) mod 65535 = 0" by (rule oc_full)
  have "oc (wsum ?rx + wsum message) = 65535"
    using v csum.ck_val [of "?rx @ message" 0] lp lm assms(6) by (simp add: ck_max_def wsum_append)
  then have c: "(wsum ?rx + wsum message) mod 65535 = 0" by (rule oc_full)
  let ?A = "wsum (i_daddr u) + wsum (i_saddr u) + wsum [0, ?p]"
  obtain k where k: "k \<in> {39, 40}" "(wsum ?ps + k) mod 65535 = (?A + ?n) mod 65535"
    using wsum_wrong_pseudo6 [of "i_daddr u" "i_saddr u" ?n ?p] assms(3,4,6) by (auto simp: ac_simps)
  have r: "wsum ?rx mod 65535 = (?A + 256 * ?n) mod 65535"
    using wsum_rx_pseudo6 [of "i_daddr u" "i_saddr u" ?n ?p] assms(3,4,6) by (simp add: ac_simps)
  define A n ps rx wm where "A = ?A" and "n = ?n" and "ps = wsum ?ps" and "rx = wsum ?rx" and "wm = wsum message"
  have f: "(ps + wm) mod 65535 = 0" "(rx + wm) mod 65535 = 0" "(ps + k) mod 65535 = (A + n) mod 65535"
    "rx mod 65535 = (A + 256 * n) mod 65535"
    using a c k(2) r by (simp_all only: A_def n_def ps_def rx_def wm_def)
  have "(k + 255 * n) mod 65535 = 0"
  proof -
    have "(A + 256 * n + wm) mod 65535 = ((A + 256 * n) mod 65535 + wm) mod 65535" by (simp add: mod_simps)
    also have "\<dots> = (rx + wm) mod 65535" unfolding f(4) [symmetric] by (simp add: mod_simps)
    finally have x: "(A + 256 * n + wm) mod 65535 = 0" using f(2) by simp
    have "(A + n + wm) mod 65535 = ((A + n) mod 65535 + wm) mod 65535" by (simp add: mod_simps)
    also have "\<dots> = (ps + k + wm) mod 65535" unfolding f(3) [symmetric] by (simp add: mod_simps)
    also have "\<dots> = ((ps + wm) mod 65535 + k) mod 65535" by (simp add: mod_simps ac_simps)
    finally have y: "(A + n + wm) mod 65535 = k mod 65535" using f(1) by simp
    have "A + 256 * n + wm = A + n + wm + 255 * n" by simp
    with x have "(A + n + wm + 255 * n) mod 65535 = 0" by simp
    then have "((A + n + wm) mod 65535 + 255 * n) mod 65535 = 0" by (simp only: mod_add_left_eq)
    then show ?thesis unfolding y by (simp add: mod_simps)
  qed
  then obtain j where "k + 255 * n = 65535 * j" by (auto simp: mod_eq_0_iff_dvd)
  moreover have "65535 * j = 255 * (257 * j)" by simp
  ultimately have "(k + 255 * n) mod 255 = 0" by (simp only: mod_mult_self1_is_0)
  then show False using k(1) by auto
qed

theorem icmp6_answer_never_verifies_witness:
  "\<exists>message. icmp_restore (ng_k sample_icmp\<lparr>i_version := 6, i_saddr := replicate 16 1, i_daddr := replicate 16 2\<rparr>)
      [129, 0, 0, 0, 0, 0, 0, 1] 8 = Some message
    \<and> calc_checksum 0 (rx_pseudo 6 (replicate 16 2) (replicate 16 1) IPPROTO_ICMPV6 8 @ message) \<noteq> 0xFFFF"
proof -
  let ?u = "ng_k sample_icmp\<lparr>i_version := 6, i_saddr := replicate 16 1, i_daddr := replicate 16 2\<rparr>"
  define b where "b = ([129, 0, 0, 0, 0, 0, 0, 1] :: bytes)"
  have b: "6 \<le> length b" "length b < 65536" "length b = 8" by (simp_all add: b_def)
  obtain message where r: "icmp_restore ?u (b @ []) (length b) = Some message"
    using icmp_restore_general [OF b(1), of ?u "[]"] by blast
  have "length (i_saddr ?u) = 16" "length (i_daddr ?u) = 16" by simp_all
  from icmp6_answer_never_verifies [OF r _ this b(1,2)] r show ?thesis by (simp add: b(3)) (simp add: b_def)
qed

end
