(* ===== verification/Ip.thy ===== *)
theory Ip
  imports TcpHandle Udp Icmp
begin

text \<open>
  \<open>ip.c\<close>: a packet read from the tunnel is checked, its protocol and payload are found, sessions are
  limited, the user is looked up, and the packet is dispatched to one of the three protocols. First the
  translation, then the facts and the properties. The packet lies in a buffer of twice the MTU, of which
  the part behind the bytes read is what the allocation holds.
\<close>

section \<open>Looking up the user\<close>

text \<open>The conversion of the words of an address of the table to network order.\<close>

fun swap_words :: "bytes \<Rightarrow> bytes" where
  "swap_words (a # b # c # d # r) = bytes32 (htonl (le32 a b c d)) @ swap_words r"
| "swap_words r = r"

text \<open>
  One line of the table, as \<open>sscanf\<close> converted it: port, address, destination port and user. The scan
  stops at a line that matches completely; the last line with the port decides otherwise.
\<close>

fun scan_lines ::
  "nat \<Rightarrow> u16 \<Rightarrow> bytes \<Rightarrow> u16 \<Rightarrow> (int \<times> bytes \<times> int \<times> int) option list \<Rightarrow> int \<Rightarrow> int" where
  "scan_lines version sport daddr dport [] uid = uid"
| "scan_lines version sport daddr dport (line # rest) uid =
     (case line of
        Some (sp, hx, dp, u) \<Rightarrow>
          if length hx = (if version = 4 then 8 else 32) \<and> sp > 0 \<and> u \<ge> 0 \<and> sp = uint sport then
            (if dp = uint dport \<and> swap_words (hex2bytes hx) = daddr then u
             else scan_lines version sport daddr dport rest u)
          else scan_lines version sport daddr dport rest uid
      | None \<Rightarrow> scan_lines version sport daddr dport rest uid)"

text \<open>The first line of a table is its heading.\<close>

definition get_uid_sub ::
  "env \<Rightarrow> nat \<Rightarrow> u8 \<Rightarrow> u16 \<Rightarrow> bytes \<Rightarrow> u16 \<Rightarrow> world \<Rightarrow> int \<times> world" where
  "get_uid_sub E version protocol sport daddr dport w =
     (if protocol = IPPROTO_ICMP \<and> version = 4 \<or> protocol = IPPROTO_ICMPV6 \<and> version = 6
         \<or> protocol = IPPROTO_TCP \<or> protocol = IPPROTO_UDP
      then (case e_proc E (w_tick w) (unat protocol) version of
              None \<Rightarrow> (- 1, tick w)
            | Some lines \<Rightarrow> (scan_lines version sport daddr dport (tl lines) (- 1), tick w))
      else (- 1, w))"

definition mapped4 :: "bytes \<Rightarrow> bytes" where
  "mapped4 daddr = replicate 10 0 @ [0xFF, 0xFF] @ ip4 daddr"

definition get_uid :: "env \<Rightarrow> nat \<Rightarrow> u8 \<Rightarrow> u16 \<Rightarrow> bytes \<Rightarrow> u16 \<Rightarrow> world \<Rightarrow> int \<times> world" where
  "get_uid E version protocol sport daddr dport w =
     (let (uid, w) = (if version = 4 then get_uid_sub E 6 protocol sport (mapped4 daddr) dport w
                      else (- 1, w))
      in if uid < 0 then get_uid_sub E version protocol sport daddr dport w else (uid, w))"

section \<open>Headers\<close>

definition is_lower_layer :: "u8 \<Rightarrow> bool" where
  "is_lower_layer protocol \<longleftrightarrow>
     protocol = 0 \<or> protocol = 60 \<or> protocol = 43 \<or> protocol = 44 \<or> protocol = 51 \<or> protocol = 50
     \<or> protocol = 60 \<or> protocol = 135"

definition is_upper_layer :: "u8 \<Rightarrow> bool" where
  "is_upper_layer protocol \<longleftrightarrow>
     protocol = IPPROTO_TCP \<or> protocol = IPPROTO_UDP \<or> protocol = IPPROTO_ICMP \<or> protocol = IPPROTO_ICMPV6"

text \<open>
  The walk over the extension headers, with the 16-bit offset; \<open>None\<close> when it leaves the buffer (or
  never ends).
\<close>

partial_function (option) ext_walk :: "bytes \<Rightarrow> u8 \<Rightarrow> nat \<Rightarrow> (u8 \<times> nat) option" where
  "ext_walk m protocol off =
     do { nxt \<leftarrow> rd8 m off;
          if is_lower_layer nxt \<and> \<not> is_upper_layer protocol then
            do { len \<leftarrow> rd8 m (off + 1);
                 ext_walk m nxt ((off + (8 + unat len)) mod 65536) }
          else Some (protocol, off) }"

declare ext_walk.simps [code]

text \<open>
  The protocol and the offset of the payload, or \<open>None\<close> when the packet is dropped. The flag for more
  fragments is tested in the field as it lies in the packet. The check of the header checksum is left
  out: it is under a log level that is never set.
\<close>

definition IP_MF :: u16 where "IP_MF = 0x2000"

definition parse_ip4 :: "bytes \<Rightarrow> nat \<Rightarrow> (u8 \<times> nat) option option" where
  "parse_ip4 m len =
     (if len < 20 then Some None
      else do {
        protocol \<leftarrow> rd8 m 9;
        frag_off \<leftarrow> rd16 m 6;
        if frag_off AND IP_MF \<noteq> 0 then Some None
        else do {
          vihl \<leftarrow> rd8 m 0;
          tot_len \<leftarrow> rd16 m 2;
          let ipoptlen = (of_int ((int (unat (vihl AND 0x0F)) - 5) * 4) :: u8);
          let payload = 20 + unat ipoptlen;
          if unat (ntohs tot_len) \<noteq> len then Some None
          else Some (Some (protocol, payload)) } })"

definition parse_ip6 :: "bytes \<Rightarrow> nat \<Rightarrow> (u8 \<times> nat) option option" where
  "parse_ip6 m len =
     (if len < 40 then Some None
      else do {
        nxt \<leftarrow> rd8 m 6;
        (protocol, off) \<leftarrow>
          (if \<not> is_upper_layer nxt then
             do { (protocol, off) \<leftarrow> ext_walk m nxt 40;
                  Some (if \<not> is_upper_layer protocol then (nxt, 0) else (protocol, off)) }
           else Some (nxt, 0));
        Some (Some (protocol, 40 + off)) })"

definition parse_ip :: "bytes \<Rightarrow> nat \<Rightarrow> (nat \<times> u8 \<times> nat) option option" where
  "parse_ip m len =
     do { b \<leftarrow> rd8 m 0;
          let version = unat (drop_bit 4 b);
          r \<leftarrow> (if version = 4 then parse_ip4 m len else if version = 6 then parse_ip6 m len else Some None);
          Some (map_option (\<lambda>(protocol, payload). (version, protocol, payload)) r) }"

section \<open>Ports\<close>

text \<open>\<open>sizeof(struct icmp)\<close>, of the C library's \<open>netinet/ip_icmp.h\<close>.\<close>

definition ICMP_LEN :: nat where "ICMP_LEN = 28"

text \<open>Source and destination port and the SYN flag, or \<open>None\<close> when the packet is too short.\<close>

definition ip_ports :: "bytes \<Rightarrow> nat \<Rightarrow> u8 \<Rightarrow> nat \<Rightarrow> (u16 \<times> u16 \<times> bool) option option" where
  "ip_ports m len protocol payload =
     (if protocol = IPPROTO_ICMP \<or> protocol = IPPROTO_ICMPV6 then
        if size_sub len payload < ICMP_LEN then Some None
        else do { ident \<leftarrow> rd16 m (payload + 4); Some (Some (ntohs ident, ntohs ident, False)) }
      else if protocol = IPPROTO_UDP then
        if size_sub len payload < 8 then Some None
        else do { source \<leftarrow> rd16 m payload; dest \<leftarrow> rd16 m (payload + 2);
                  Some (Some (ntohs source, ntohs dest, False)) }
      else if protocol = IPPROTO_TCP then
        if size_sub len payload < 20 then Some None
        else do { tcp \<leftarrow> rd_tcphdr m payload;
                  Some (Some (ntohs (th_source tcp), ntohs (th_dest tcp), th_syn tcp)) }
      else Some (Some (0, 0, False)))"

section \<open>Dispatch\<close>

text \<open>Whether the packet may open a session: it is one for which a user is looked up.\<close>

definition opens_session ::
  "arguments \<Rightarrow> bytes \<Rightarrow> u8 \<Rightarrow> nat \<Rightarrow> bool \<Rightarrow> session list \<Rightarrow> bool option" where
  "opens_session args m protocol payload syn ss =
     (if protocol = IPPROTO_ICMP \<or> protocol = IPPROTO_ICMPV6 then Some True
      else if protocol = IPPROTO_UDP then map_option Not (has_udp_session args m payload ss)
      else Some (protocol = IPPROTO_TCP \<and> syn))"

definition dispatch ::
  "env \<Rightarrow> arguments \<Rightarrow> bytes \<Rightarrow> nat \<Rightarrow> u8 \<Rightarrow> nat \<Rightarrow> int \<Rightarrow> session list \<Rightarrow> world
     \<Rightarrow> (session list \<times> world) option" where
  "dispatch E args m len protocol payload uid ss w =
     (if protocol = IPPROTO_ICMP \<or> protocol = IPPROTO_ICMPV6 then
        map_option snd (handle_icmp E m len payload uid ss w)
      else if protocol = IPPROTO_UDP then handle_udp E m len payload uid ss w
      else if protocol = IPPROTO_TCP then handle_tcp E args m len payload uid ss w
      else Some (ss, w))"

definition handle_ip ::
  "env \<Rightarrow> arguments \<Rightarrow> bytes \<Rightarrow> nat \<Rightarrow> int \<Rightarrow> int \<Rightarrow> session list \<Rightarrow> world
     \<Rightarrow> (session list \<times> world) option" where
  "handle_ip E args m len sessions maxsessions ss w =
     do { r \<leftarrow> parse_ip m len;
          case r of
            None \<Rightarrow> Some (ss, w)
          | Some (version, protocol, payload) \<Rightarrow>
              do { (src, dst) \<leftarrow> pkt_addrs version m;
                   ports \<leftarrow> ip_ports m len protocol payload;
                   case ports of
                     None \<Rightarrow> Some (ss, w)
                   | Some (sport, dport, syn) \<Rightarrow>
                       do { new \<leftarrow> opens_session args m protocol payload syn ss;
                            if sessions \<ge> maxsessions \<and> new then Some (ss, w)
                            else
                              let (uid, w) = (if new then get_uid E version protocol sport dst dport w
                                              else (- 1, w))
                              in dispatch E args m len protocol payload uid ss w } } }"

section \<open>Events of the tunnel\<close>

definition tun_buffer :: nat where "tun_buffer = unat get_mtu * 2"

definition check_tun ::
  "env \<Rightarrow> arguments \<Rightarrow> u32 \<Rightarrow> int \<Rightarrow> int \<Rightarrow> session list \<Rightarrow> world
     \<Rightarrow> (int \<times> session list \<times> world) option" where
  "check_tun E args ev sessions maxsessions ss w =
     (if ev AND EPOLLERR \<noteq> 0 then Some (- 1, ss, w)
      else if ev AND EPOLLIN \<noteq> 0 then
        let (r, w) = tun_read E (unat get_mtu) w
        in case r of
             Inl e \<Rightarrow> Some (if e = EINTR \<or> e = EAGAIN then 0 else - 1, ss, w)
           | Inr b \<Rightarrow>
               if b \<noteq> [] then
                 do { (ss, w) \<leftarrow> handle_ip E args (allocated E w b tun_buffer) (length b) sessions maxsessions ss w;
                      Some (0, ss, w) }
               else Some (- 1, ss, w)
      else Some (0, ss, w))"

section \<open>Dispatch in cases\<close>

lemma get_uid_sub_trace: "get_uid_sub E v p sp da dp w = (uid, w') \<Longrightarrow> w_trace w' = w_trace w"
  by (auto simp: get_uid_sub_def split: if_splits option.splits)

lemma get_uid_trace: "get_uid E v p sp da dp w = (uid, w') \<Longrightarrow> w_trace w' = w_trace w"
  by (auto simp: get_uid_def get_uid_sub_trace split: if_splits prod.splits)

lemma handle_ip_cases:
  assumes "handle_ip E args m len sessions maxsessions ss w = Some (ss', w')"
  obtains (dropped) "ss' = ss" "w' = w"
  | (handled) version protocol payload sport dport syn new uid w1 where
      "parse_ip m len = Some (Some (version, protocol, payload))"
      "ip_ports m len protocol payload = Some (Some (sport, dport, syn))"
      "opens_session args m protocol payload syn ss = Some new"
      "sessions < maxsessions \<or> \<not> new" "w_trace w1 = w_trace w" "\<not> new \<longrightarrow> w1 = w"
      "dispatch E args m len protocol payload uid ss w1 = Some (ss', w')"
proof -
  from assms obtain r where r: "parse_ip m len = Some r"
    and a: "(case r of None \<Rightarrow> Some (ss, w)
          | Some (version, protocol, payload) \<Rightarrow>
              do { (src, dst) \<leftarrow> pkt_addrs version m;
                   ports \<leftarrow> ip_ports m len protocol payload;
                   case ports of
                     None \<Rightarrow> Some (ss, w)
                   | Some (sport, dport, syn) \<Rightarrow>
                       do { new \<leftarrow> opens_session args m protocol payload syn ss;
                            if sessions \<ge> maxsessions \<and> new then Some (ss, w)
                            else
                              case (if new then get_uid E version protocol sport dst dport w
                                    else (- 1, w)) of (uid, w) \<Rightarrow>
                              dispatch E args m len protocol payload uid ss w } }) = Some (ss', w')"
    unfolding handle_ip_def Let_def by (elim bind_eq_Some_conv [THEN iffD1, elim_format] exE conjE)
  show thesis
  proof (cases r)
    case None
    with a show thesis by (intro dropped) simp_all
  next
    case (Some vpp)
    obtain version protocol payload where v: "vpp = (version, protocol, payload)" by (cases vpp)
    from a [unfolded Some v option.case prod.case] obtain ad where ad: "pkt_addrs version m = Some ad"
      by (cases "pkt_addrs version m") simp_all
    obtain src dst where sd: "ad = (src, dst)" by (cases ad)
    from a [unfolded Some v option.case prod.case ad sd Option.bind.bind_lunit] obtain ports where
      p: "ip_ports m len protocol payload = Some ports"
      by (cases "ip_ports m len protocol payload") simp_all
    note b = a [unfolded Some v option.case prod.case ad sd Option.bind.bind_lunit p]
    show thesis
    proof (cases ports)
      case None
      with b show thesis by (intro dropped) simp_all
    next
      case ps: (Some sds)
      obtain sport dport syn where s: "sds = (sport, dport, syn)" by (cases sds)
      from b [unfolded ps s option.case prod.case] obtain new where
        o: "opens_session args m protocol payload syn ss = Some new"
        by (cases "opens_session args m protocol payload syn ss") simp_all
      note c = b [unfolded ps s option.case prod.case o Option.bind.bind_lunit]
      show thesis
      proof (cases "sessions \<ge> maxsessions \<and> new")
        case True
        with c show thesis by (intro dropped) simp_all
      next
        case False
        obtain uid w1 where u: "(if new then get_uid E version protocol sport dst dport w else (- 1, w)) = (uid, w1)"
          by (cases "if new then get_uid E version protocol sport dst dport w else (- 1, w)")
        have "w_trace w1 = w_trace w" "\<not> new \<longrightarrow> w1 = w" using u get_uid_trace by (auto split: if_splits)
        moreover have "dispatch E args m len protocol payload uid ss w1 = Some (ss', w')"
          using c [unfolded if_not_P [OF False] u prod.case] .
        ultimately show thesis using r [unfolded Some v] p [unfolded ps s] o False by (intro handled) auto
      qed
    qed
  qed
qed

lemma move_from: "w_trace w1 = w_trace w \<Longrightarrow> move ss w1 ss' w' \<Longrightarrow> move ss w ss' w'"
  by (erule move.cases)
    (auto simp: spilled_def enrolled_def sock_change_def intro: move.intros)

lemma handle_ip_move:
  assumes "handle_ip E args m len sessions maxsessions ss w = Some (ss', w')" "\<forall>s \<in> set ss. sess_inv s"
  shows "move ss w ss' w'"
  using assms(1)
proof (cases rule: handle_ip_cases)
  case dropped
  then show ?thesis by (simp add: move.spilled spilled_def)
next
  case (handled version protocol payload sport dport syn new uid w1)
  have "move ss w1 ss' w'"
    using handled(7) assms(2) tcp_packets.h_move [where args = args and E = E and ss = ss and m = m and n = len and p = payload
        and uid = uid and w = w1 and ss' = ss' and w' = w']
      udp_packets.h_move [where E = E and ss = ss and m = m and n = len and p = payload and uid = uid
        and w = w1 and ss' = ss' and w' = w']
      icmp_packets.h_move [where E = E and ss = ss and m = m and n = len and p = payload and uid = uid
        and w = w1 and ss' = ss' and w' = w']
    by (auto simp: dispatch_def move.spilled spilled_def split: if_splits)
  then show ?thesis by (rule move_from [OF handled(5)])
qed

lemma check_tun_move:
  assumes "check_tun E args ev sessions maxsessions ss w = Some (res, ss', w')" "\<forall>s \<in> set ss. sess_inv s"
  shows "move ss w ss' w'"
proof -
  have stay: "move ss w ss w1" if "w_trace w1 = w_trace w" for w1
    using that by (simp add: move.spilled spilled_def)
  consider "ev AND EPOLLERR \<noteq> 0" | (read) "\<not> ev AND EPOLLERR \<noteq> 0" "ev AND EPOLLIN \<noteq> 0"
    | "\<not> ev AND EPOLLERR \<noteq> 0" "\<not> ev AND EPOLLIN \<noteq> 0" by blast
  then show ?thesis
  proof cases
    case read
    obtain r w1 where r: "tun_read E (unat get_mtu) w = (r, w1)" by (cases "tun_read E (unat get_mtu) w")
    have tr: "w_trace w1 = w_trace w" using sys_traces(5) [of E "unat get_mtu" w] r by simp
    note a = assms(1) [unfolded check_tun_def if_not_P [OF read(1)] if_P [OF read(2)] r Let_def prod.case]
    show ?thesis
    proof (cases "\<exists>b. r = Inr b \<and> b \<noteq> []")
      case True
      then obtain b where b: "r = Inr b" "b \<noteq> []" by blast
      from a [unfolded b(1) sum.case if_P [OF b(2)]] have
        "handle_ip E args (allocated E w1 b tun_buffer) (length b) sessions maxsessions ss w1 = Some (ss', w')"
        by (auto simp: bind_eq_Some_conv)
      then show ?thesis using move_from [OF tr handle_ip_move] assms(2) by blast
    next
      case False
      with a have "ss' = ss" "w' = w1" by (auto split: sum.splits if_splits)
      then show ?thesis using stay [OF tr] by simp
    qed
  qed (use assms(1) stay in \<open>simp_all add: check_tun_def\<close>)
qed

section \<open>Properties\<close>

text \<open>
  C16. One packet keeps the engine sound, whatever it contains and whatever the kernel answers: the
  invariants of all sessions hold again, every descriptor held or registered with \<open>epoll\<close> is accounted
  for, no session disappears and at most one is added.
\<close>

theorem handle_ip_sound:
  assumes "handle_ip E args m len sessions maxsessions ss w = Some (ss', w')"
    and "\<forall>s \<in> set ss. sess_inv s" and "accounts ss (w_trace w)"
  shows "(\<forall>s \<in> set ss'. sess_inv s) \<and> accounts ss' (w_trace w')
    \<and> sess_ptr ` set ss \<subseteq> sess_ptr ` set ss' \<and> length ss \<le> length ss' \<and> length ss' \<le> length ss + 1"
proof -
  have m: "move ss w ss' w'" using assms(1,2) by (rule handle_ip_move)
  show ?thesis
    using move_inv [OF m assms(2)] move_accounts [OF m assms(3)] move_ptrs [OF m] move_length [OF m] by simp
qed

definition sample_ip :: bytes where
  "sample_ip = [0x45, 0, 0, 28, 0, 0, 0, 0, 64, 17, 0, 0, 10, 1, 10, 1, 8, 8, 8, 8, 4, 0, 0, 80, 0, 8, 0, 0]"

lemma sample_ip_parse:
  "parse_ip sample_ip 28 = Some (Some (4, IPPROTO_UDP, 20))"
  "pkt_addrs 4 sample_ip = Some ([10, 1, 10, 1], [8, 8, 8, 8])"
  "ip_ports sample_ip 28 IPPROTO_UDP 20 = Some (Some (1024, 80, False))"
  "has_udp_session args sample_ip 20 [] = Some False"
  by (simp_all add: parse_ip_def parse_ip4_def sample_ip_def rd8_def rd16_def le16_def IP_MF_def pkt_addrs_def
      rd_block_def ip_ports_def protocols has_udp_session_def ntohs_def)

lemma sample_ip_full:
  "sessions \<ge> maxsessions \<Longrightarrow> handle_ip E args sample_ip 28 sessions maxsessions [] w = Some ([], w)"
  using sample_ip_parse by (simp add: handle_ip_def opens_session_def protocols)

theorem handle_ip_sound_witness:
  "\<exists>ss' w'. handle_ip calm sample_args sample_ip 28 5 5 [] start = Some (ss', w')
    \<and> (\<forall>s \<in> set ss'. sess_inv s) \<and> accounts ss' (w_trace w')"
proof -
  have h: "handle_ip calm sample_args sample_ip 28 5 5 [] start = Some ([], start)" by (simp add: sample_ip_full)
  have "\<forall>s \<in> set []. sess_inv s" "accounts [] (w_trace start)" by (simp_all add: start_def accounted_Nil)
  from handle_ip_sound [OF h this] h show ?thesis by blast
qed

lemma handle_udp_known:
  assumes "handle_udp E m n payload uid ss w = Some (ss', w')" "has_udp_session args m payload ss = Some True"
    and "\<not> (\<exists>d. rd16 m (payload + 2) = Some d \<and> ntohs d = 53 \<and> \<not> a_fwd53 args)"
  shows "length ss' = length ss"
proof -
  from assms(2) obtain b dest where b: "rd8 m 0 = Some b" and d: "rd16 m (payload + 2) = Some dest"
    unfolding has_udp_session_def Let_def by (elim bind_eq_Some_conv [THEN iffD1, elim_format] exE conjE)
  have n53: "\<not> (ntohs dest = 53 \<and> \<not> a_fwd53 args)" using assms(3) d by blast
  note h = assms(2) [unfolded has_udp_session_def b d Option.bind.bind_lunit Let_def if_not_P [OF n53]]
  from h obtain source where s: "rd16 m payload = Some source"
    by (cases "rd16 m payload") simp_all
  from h [unfolded s Option.bind.bind_lunit] obtain src dst where
    a: "pkt_addrs (unat (drop_bit 4 b)) m = Some (src, dst)"
    and e: "\<exists>s \<in> set ss. udp_matches (unat (drop_bit 4 b)) source dest src dst s"
    by (cases "pkt_addrs (unat (drop_bit 4 b)) m") auto
  from e obtain before s behind where
    x: "List.extract (udp_matches (unat (drop_bit 4 b)) source dest src dst) ss = Some (before, s, behind)"
    by (cases "List.extract (udp_matches (unat (drop_bit 4 b)) source dest src dst) ss")
      (auto simp: extract_None_iff)
  have ss: "ss = before @ s # behind" using extract_split [OF x] by simp
  show ?thesis
    using assms(1) [unfolded handle_udp_def b d s a x Option.bind.bind_lunit Let_def prod.case option.case]
    by (auto simp: ss bind_eq_Some_conv split: session.splits if_splits)
qed

lemma handle_tcp_no_syn:
  assumes "handle_tcp E args m n payload uid ss w = Some (ss', w')"
    and "rd_tcphdr m payload = Some tcp" "\<not> th_syn tcp"
  shows "length ss' = length ss"
  using assms(1)
proof (cases rule: handle_tcp_cases)
  case (new ti redirect mss ws so)
  then have "ti_hdr ti = tcp" using assms(2) by (auto simp: tcp_in_of_def Let_def bind_eq_Some_conv)
  then show ?thesis using new(2) assms(3) by simp
qed simp_all

text \<open>
  C25. The limit of sessions: when it is reached no packet adds a session, with one exception: a datagram
  for port 53 while DNS is not forwarded, which counts as one of a known session.
\<close>

theorem session_limit_respected:
  assumes "handle_ip E args m len sessions maxsessions ss w = Some (ss', w')" and "maxsessions \<le> sessions"
  shows "length ss' = length ss
    \<or> \<not> a_fwd53 args \<and> (\<exists>v payload d. parse_ip m len = Some (Some (v, IPPROTO_UDP, payload))
         \<and> rd16 m (payload + 2) = Some d \<and> ntohs d = 53)"
  using assms(1)
proof (cases rule: handle_ip_cases)
  case (handled version protocol payload sport dport syn new uid w1)
  then have n: "\<not> new" using assms(2) by simp
  have ni: "protocol \<noteq> IPPROTO_ICMP" "protocol \<noteq> IPPROTO_ICMPV6"
    using handled(3) n by (auto simp: opens_session_def)
  consider (udp) "protocol = IPPROTO_UDP" | (tcp) "protocol = IPPROTO_TCP"
    | (other) "protocol \<noteq> IPPROTO_UDP" "protocol \<noteq> IPPROTO_TCP" by blast
  then show ?thesis
  proof cases
    case udp
    then have "handle_udp E m len payload uid ss w1 = Some (ss', w')" "has_udp_session args m payload ss = Some True"
      using handled(3,7) n by (auto simp: dispatch_def opens_session_def protocols)
    then show ?thesis using handle_udp_known [of E m len payload uid ss w1 ss' w' args] handled(1) udp by blast
  next
    case tcp
    then have "handle_tcp E args m len payload uid ss w1 = Some (ss', w')" "\<not> syn"
      using handled(3,7) n by (auto simp: dispatch_def opens_session_def protocols)
    moreover obtain t where "rd_tcphdr m payload = Some t" "syn = th_syn t"
      using handled(2) tcp by (auto simp: ip_ports_def protocols bind_eq_Some_conv split: if_splits)
    ultimately show ?thesis using handle_tcp_no_syn by blast
  next
    case other
    then show ?thesis using handled(7) ni by (simp add: dispatch_def)
  qed
qed simp

theorem session_limit_respected_witness:
  "\<exists>w'. handle_ip calm sample_args sample_ip 28 5 5 [] start = Some ([], w')
     \<and> (\<not> a_fwd53 sample_args \<and> (\<exists>v payload d. parse_ip sample_ip 28 = Some (Some (v, IPPROTO_UDP, payload))
         \<and> rd16 sample_ip (payload + 2) = Some d \<and> ntohs d = 53) \<or> length ([] :: session list) = 0)"
  using session_limit_respected [of calm sample_args sample_ip 28 5 5 "[]" start "[]"]
  by (simp add: sample_ip_full)

lemma ext_walk_stays_lower:
  "ext_walk m p off = Some r \<Longrightarrow> \<not> is_upper_layer p \<Longrightarrow> \<not> is_upper_layer (fst r)"
proof (rule ext_walk.raw_induct [where P = "\<lambda>m p off r. \<not> is_upper_layer p \<longrightarrow> \<not> is_upper_layer (fst r)", rule_format])
  fix walk m p off r
  assume ih: "\<And>m p off r. walk m p off = Some r \<Longrightarrow> \<not> is_upper_layer p \<Longrightarrow> \<not> is_upper_layer (fst r)"
    and s: "rd8 m off \<bind>
       (\<lambda>nxt. if is_lower_layer nxt \<and> \<not> is_upper_layer p
              then rd8 m (off + 1) \<bind> (\<lambda>len. walk m nxt ((off + (8 + unat len)) mod 65536))
              else Some (p, off)) = Some r" and p: "\<not> is_upper_layer p"
  have lower: "\<not> is_upper_layer x" if "is_lower_layer x" for x
    using that by (auto simp: is_lower_layer_def is_upper_layer_def protocols)
  show "\<not> is_upper_layer (fst r)"
    using s p ih lower by (cases r) (auto simp: bind_eq_Some_conv split: if_splits)
qed

text \<open>
  C40. No IPv6 packet with extension headers is ever relayed: the walk over them only steps onto protocols
  that are extension headers themselves, so that it never arrives at one the engine handles, and the
  packet is ignored.
\<close>

theorem ip6_extensions_ignored:
  assumes "handle_ip E args m len sessions maxsessions ss w = Some (ss', w')"
    and "rd8 m 0 = Some b" and "drop_bit 4 b = 6" and "rd8 m 6 = Some nxt" and "\<not> is_upper_layer nxt"
  shows "ss' = ss \<and> w' = w"
  using assms(1)
proof (cases rule: handle_ip_cases)
  case (handled version protocol payload sport dport syn new uid w1)
  have v: "unat (drop_bit 4 b) = 6" using assms(3) by simp
  have "parse_ip6 m len = Some (Some (protocol, payload))"
    using handled(1) assms(2) v by (auto simp: parse_ip_def bind_eq_Some_conv)
  then have "protocol = nxt"
    using assms(4,5) ext_walk_stays_lower [of m nxt 40]
    by (auto simp: parse_ip6_def bind_eq_Some_conv split: if_splits)
  then have n: "protocol \<notin> {IPPROTO_ICMP, IPPROTO_ICMPV6, IPPROTO_UDP, IPPROTO_TCP}"
    using assms(5) by (auto simp: is_upper_layer_def)
  then have "w1 = w" using handled(3,6) by (auto simp: opens_session_def)
  then show ?thesis using handled(7) n by (simp add: dispatch_def)
qed simp

definition sample_ip6 :: bytes where
  "sample_ip6 = [0x60, 0, 0, 0, 0, 8, 0, 64] @ replicate 32 1 @ [17, 0, 0, 0, 0, 0, 0, 0]"

theorem ip6_extensions_ignored_witness:
  "\<exists>w'. handle_ip calm sample_args sample_ip6 48 0 5 [] start = Some ([], w') \<and> w' = start"
proof -
  have r: "rd8 sample_ip6 0 = Some 0x60" "rd8 sample_ip6 6 = Some 0" "rd8 sample_ip6 40 = Some 17"
    by (simp_all add: sample_ip6_def rd8_def nth_append)
  have u: "\<not> is_upper_layer 0" "\<not> is_lower_layer 17" by (simp_all add: is_upper_layer_def is_lower_layer_def protocols)
  have "ext_walk sample_ip6 0 40 = Some (0, 40)" using r u by (simp add: ext_walk.simps)
  then have p: "parse_ip sample_ip6 48 = Some (Some (6, 0, 40))" using r u by (simp add: parse_ip_def parse_ip6_def)
  have "pkt_addrs 6 sample_ip6 = Some (replicate 16 1, replicate 16 1)"
    by (simp add: pkt_addrs_def rd_block_def sample_ip6_def drop_Cons' take_Cons' min_def)
  then have "\<exists>w'. handle_ip calm sample_args sample_ip6 48 0 5 [] start = Some ([], w')"
    using p by (simp add: handle_ip_def ip_ports_def opens_session_def dispatch_def protocols)
  then obtain w' where h: "handle_ip calm sample_args sample_ip6 48 0 5 [] start = Some ([], w')" by blast
  from ip6_extensions_ignored [OF h r(1) _ r(2) u(1)] h show ?thesis by simp
qed

text \<open>
  The test for fragments looks at the wrong bit: of a packet with a sound length, the flag for more
  fragments (bit 5 of byte 6) decides nothing, and it is bit 5 of byte 7, a part of the offset, that
  makes the engine drop it. First fragments are relayed as if they were whole.
\<close>

theorem fragment_flag_misread:
  assumes "20 \<le> len" and "len \<le> length m" and "rd16 m 2 = Some (htons (of_nat len))" and "len < 65536"
  shows "parse_ip4 m len =
    Some (if bit (m ! 7) 5 then None
          else Some (m ! 9, 20 + unat (of_int ((int (unat (m ! 0 AND 0x0F)) - 5) * 4) :: u8)))"
proof -
  have rd: "rd8 m 9 = Some (m ! 9)" "rd8 m 0 = Some (m ! 0)" "rd16 m 6 = Some (le16 (m ! 6) (m ! 7))"
    using assms(1,2) by (auto simp: rd16_def rd8_def)
  have l: "unat (htons (htons (of_nat len))) = len" using assms(4) by (simp add: unat_of_nat16)
  have b: "bit (le16 (m ! 6) (m ! 7)) 13 = bit (m ! 7) 5"
  proof -
    have "bit (le16 (m ! 6) (m ! 7)) (5 + 8) = bit (ucast (drop_bit 8 (le16 (m ! 6) (m ! 7))) :: u8) 5"
      by (simp add: bit_ucast_iff bit_drop_bit_eq)
    then show ?thesis by (simp only: unat_le16_hi) simp
  qed
  have mask: "w AND 0x2000 \<noteq> 0 \<longleftrightarrow> bit w 13" for w :: u16
  proof -
    have e: "(0x2000 :: u16) = push_bit 13 1" by simp
    have "bit (push_bit 13 1 :: u16) n \<longleftrightarrow> n = 13" for n
      unfolding bit_push_bit_iff bit_1_iff by auto
    then have c: "bit (0x2000 :: u16) n \<longleftrightarrow> n = 13" for n unfolding e .
    have f: "bit (w AND 0x2000) n \<longleftrightarrow> n = 13 \<and> bit w 13" for n
      unfolding bit_and_iff c by blast
    show ?thesis unfolding bit_eq_iff [of "w AND 0x2000"] f by auto
  qed
  show ?thesis
    using assms(1,3) rd l b mask [of "le16 (m ! 6) (m ! 7)"] by (simp add: parse_ip4_def IP_MF_def Let_def)
qed

theorem fragment_flag_misread_witness:
  "parse_ip4 (sample_ip[6 := 0x20]) 28 = Some (Some (IPPROTO_UDP, 20))
    \<and> parse_ip4 (sample_ip[7 := 0x20]) 28 = Some None"
proof -
  have a: "rd16 (sample_ip[6 := 0x20]) 2 = Some (htons (of_nat 28))"
    and b: "rd16 (sample_ip[7 := 0x20]) 2 = Some (htons (of_nat 28))"
    by (simp_all add: rd16_def rd8_def sample_ip_def le16_def ntohs_def)
  have l: "length (sample_ip[i := x]) = 28" for i x
    unfolding length_list_update by (simp add: sample_ip_def)
  have "parse_ip4 (sample_ip[6 := 0x20]) 28 = Some (Some (IPPROTO_UDP, 20))"
    using fragment_flag_misread [OF _ _ a] l by (simp add: sample_ip_def protocols)
  moreover have "parse_ip4 (sample_ip[7 := 0x20]) 28 = Some None"
    using fragment_flag_misread [OF _ _ b] l by (simp add: sample_ip_def)
  ultimately show ?thesis by simp
qed

text \<open>The user of a line of the table when its port is the one asked for, and a complete match.\<close>

definition line_user :: "nat \<Rightarrow> u16 \<Rightarrow> (int \<times> bytes \<times> int \<times> int) option \<Rightarrow> int option" where
  "line_user version sport line =
     (case line of
        Some (sp, hx, dp, u) \<Rightarrow>
          if length hx = (if version = 4 then 8 else 32) \<and> 0 < sp \<and> 0 \<le> u \<and> sp = uint sport then Some u else None
      | None \<Rightarrow> None)"

definition line_exact :: "nat \<Rightarrow> u16 \<Rightarrow> bytes \<Rightarrow> u16 \<Rightarrow> (int \<times> bytes \<times> int \<times> int) option \<Rightarrow> bool" where
  "line_exact version sport daddr dport line \<longleftrightarrow> line_user version sport line \<noteq> None
     \<and> (\<exists>sp hx u. line = Some (sp, hx, uint dport, u) \<and> swap_words (hex2bytes hx) = daddr)"

lemma scan_lines_spec:
  "scan_lines version sport daddr dport lines uid =
     (case List.find (line_exact version sport daddr dport) lines of
        Some l \<Rightarrow> the (line_user version sport l)
      | None \<Rightarrow> last (uid # List.map_filter (line_user version sport) lines))"
proof (induction lines arbitrary: uid)
  case (Cons line rest)
  show ?case
  proof (cases "line_user version sport line")
    case None
    then have "scan_lines version sport daddr dport (line # rest) uid = scan_lines version sport daddr dport rest uid"
      "\<not> line_exact version sport daddr dport line"
      by (auto simp: line_user_def line_exact_def split: option.splits if_splits prod.splits)
    then show ?thesis using Cons None by (simp add: List.map_filter_def split: option.split)
  next
    case (Some u)
    then obtain sp hx dp where l: "line = Some (sp, hx, dp, u)"
      and c: "length hx = (if version = 4 then 8 else 32) \<and> sp > 0 \<and> u \<ge> 0 \<and> sp = uint sport"
      by (auto simp: line_user_def split: option.splits if_splits prod.splits)
    have "scan_lines version sport daddr dport (line # rest) uid =
        (if line_exact version sport daddr dport line then u else scan_lines version sport daddr dport rest u)"
      using c Some by (simp add: l line_exact_def)
    then show ?thesis using Cons Some by (simp add: List.map_filter_def split: option.split)
  qed
qed (simp add: List.map_filter_def)

text \<open>
  C32. The user of a connection in one table of the kernel: the user of the first line that has the port,
  the destination port and the destination address; when there is none, the user of the last line that has
  the port, and -1 when there is none either. Lines that do not convert are passed over, and so is the
  heading.
\<close>

theorem get_uid_sub_spec:
  assumes "e_proc E (w_tick w) (unat protocol) version = Some lines"
    and "protocol = IPPROTO_TCP \<or> protocol = IPPROTO_UDP
         \<or> protocol = IPPROTO_ICMP \<and> version = 4 \<or> protocol = IPPROTO_ICMPV6 \<and> version = 6"
  shows "fst (get_uid_sub E version protocol sport daddr dport w) =
    (case List.find (line_exact version sport daddr dport) (tl lines) of
       Some l \<Rightarrow> the (line_user version sport l)
     | None \<Rightarrow> last (- 1 # List.map_filter (line_user version sport) (tl lines)))"
proof -
  have "fst (get_uid_sub E version protocol sport daddr dport w) = scan_lines version sport daddr dport (tl lines) (- 1)"
    unfolding get_uid_sub_def using assms by auto
  then show ?thesis by (simp only: scan_lines_spec)
qed

theorem get_uid_sub_spec_witness:
  "fst (get_uid_sub (calm\<lparr>e_proc := \<lambda>n p v. Some [None, Some (1024, map of_char ''08080808'', 80, 10123)]\<rparr>)
     4 IPPROTO_UDP 1024 [8, 8, 8, 8] 80 start) = 10123"
proof -
  let ?E = "calm\<lparr>e_proc := \<lambda>n p v. Some [None, Some (1024, map of_char ''08080808'', 80, 10123)]\<rparr>"
  have u: "line_user 4 1024 (Some (1024, map of_char ''08080808'', 80, 10123)) = Some 10123"
    by (simp add: line_user_def)
  have "fst (get_uid_sub ?E 4 IPPROTO_UDP 1024 [8, 8, 8, 8] 80 start) =
    (case List.find (line_exact 4 1024 [8, 8, 8, 8] 80) [Some (1024, map of_char ''08080808'', 80, 10123)] of
       Some l \<Rightarrow> the (line_user 4 1024 l)
     | None \<Rightarrow> last (- 1 # List.map_filter (line_user 4 1024) [Some (1024, map of_char ''08080808'', 80, 10123)]))"
    using get_uid_sub_spec [of ?E start IPPROTO_UDP 4] by simp
  then show ?thesis using u by (simp add: List.map_filter_def)
qed

text \<open>
  C24. The engine reads back the headers it writes: for a header of either version in front of a protocol it
  relays, the version, the protocol, the place of the payload and the two addresses are those it was built
  from.
\<close>

theorem ip_headers_read_back:
  assumes "addrs_fit v s d" and "v \<in> {4, 6}" and "ip_part v s d proto n = (ip, ps)"
    and "is_upper_layer proto" and "length data = n" and "iphl v + n < 65536"
  shows "parse_ip (ip @ data @ junk) (iphl v + n) = Some (Some (v, proto, iphl v))
    \<and> pkt_addrs v (ip @ data @ junk) = Some (view_addr v d, view_addr v s)"
proof (cases "v = 4")
  case True
  then have i: "iphl v = 20" "addrs_fit 4 s d" "ip_part 4 s d proto n = (ip, ps)"
    using assms(1,3) by (simp_all add: iphl_def)
  have l: "length ip = 20" "length (ip4 s) = 4" "length (ip4 d) = 4"
    using ip_part_length [OF assms(1,3)] i(1,2) by (simp_all add: addrs_fit_def ip4_def)
  obtain c where ip: "ip = ip4_header (20 + n) proto (ip4 d) (ip4 s) c"
    using i(3) by (auto simp: ip_part_def build_ip4_def Let_def)
  have t: "rd16 (ip @ data @ junk) 2 = Some (htons (of_nat (20 + n)))"
    using rd16_app [of "[0x45, 0]" 2] by (simp add: ip ip4_header_def)
  have r: "rd8 (ip @ data @ junk) 0 = Some 0x45" "rd8 (ip @ data @ junk) 9 = Some proto"
    "rd16 (ip @ data @ junk) 6 = Some 0"
    by (simp_all add: ip ip4_header_def rd8_def rd16_def bytes16_def le16_def)
  have "20 + n < 65536" using assms(6) i(1) by simp
  from ntohs_of_nat [OF this] have "unat (htons (htons (of_nat (20 + n) :: u16))) = 20 + n" .
  then have "parse_ip (ip @ data @ junk) (iphl v + n) = Some (Some (v, proto, iphl v))"
    using r t i(1) True by (simp add: parse_ip_def parse_ip4_def Let_def)
  moreover have "pkt_addrs v (ip @ data @ junk) = Some (view_addr v d, view_addr v s)"
    using l True by (simp add: pkt_addrs_def rd_block_def view_addr_def) (simp add: ip ip4_header_def bytes16_def)
  ultimately show ?thesis by simp
next
  case False
  then have v: "v = 6" "iphl v = 40" "length s = 16" "length d = 16"
    using assms(1,2) by (auto simp: iphl_def addrs_fit_def)
  have ip: "ip = build_ip6 n proto d s" using assms(3) False by (simp add: ip_part_def Let_def)
  have r: "rd8 (ip @ data @ junk) 0 = Some 0x60" "rd8 (ip @ data @ junk) 6 = Some proto"
    by (simp_all add: ip build_ip6_def rd8_def bytes16_def)
  have "parse_ip (ip @ data @ junk) (iphl v + n) = Some (Some (v, proto, iphl v))"
    using r v assms(4) by (simp add: parse_ip_def parse_ip6_def)
  moreover have "pkt_addrs v (ip @ data @ junk) = Some (view_addr v d, view_addr v s)"
    using v by (simp add: pkt_addrs_def rd_block_def view_addr_def) (simp add: ip build_ip6_def bytes16_def)
  ultimately show ?thesis by simp
qed

theorem ip_headers_read_back_witness:
  "\<exists>ip ps. ip_part 4 [10, 1, 10, 1] [8, 8, 8, 8] IPPROTO_UDP 2 = (ip, ps)
    \<and> parse_ip (ip @ [7, 9] @ []) 22 = Some (Some (4, IPPROTO_UDP, 20))"
proof -
  obtain ip ps where ip: "ip_part 4 [10, 1, 10, 1] [8, 8, 8, 8] IPPROTO_UDP 2 = (ip, ps)"
    by (cases "ip_part 4 [10, 1, 10, 1] [8, 8, 8, 8] IPPROTO_UDP 2")
  have a: "addrs_fit 4 [10, 1, 10, 1] [8, 8, 8, 8]" "is_upper_layer IPPROTO_UDP"
    by (simp_all add: addrs_fit_def is_upper_layer_def)
  from ip_headers_read_back [OF a(1) _ ip a(2), of "[7, 9]" "[]"] ip show ?thesis by (simp add: iphl_def)
qed

end
