(* ===== verification/Events.thy ===== *)
theory Events
  imports Ip
begin

text \<open>
  \<open>session.c\<close>: the multiplexer. The sessions are a list; a turn of the loop counts and monitors them,
  checks them when the last check is long enough ago, waits for events and handles these in order. The loop
  runs until the stop pipe is written or the tunnel fails. First the translation, then the step relation
  of the loop, its invariants, and the properties.
\<close>

section \<open>Start and end\<close>

definition SESSION_LIMIT :: nat where "SESSION_LIMIT = 40"
definition EPOLL_EVENTS :: nat where "EPOLL_EVENTS = 20"

definition init :: "session list" where "init = []"

fun clear :: "session list \<Rightarrow> world \<Rightarrow> session list \<times> world" where
  "clear [] w = ([], w)"
| "clear (s # ss) w = clear ss (if 0 \<le> sess_socket s then sys_close (sess_socket s) w else w)"

text \<open>
  The limit of sessions, from the limit of open files; \<open>e_rlimit\<close> is what the structure holds, also after
  a failed call.
\<close>

definition get_maxsessions :: "env \<Rightarrow> world \<Rightarrow> int \<times> world" where
  "get_maxsessions E w =
     (let maxsessions = to_int32 (int ((e_rlimit E (w_tick w) * SESSION_LIMIT) mod 2 ^ 64 div 100))
      in (if maxsessions > 1000 then 1000 else maxsessions, tick w))"

text \<open>Ends the sessions that exist when the loop is started, and forgets the blocked ones.\<close>

fun check_allowed :: "env \<Rightarrow> session list \<Rightarrow> world \<Rightarrow> (session list \<times> world) option" where
  "check_allowed E [] w = Some ([], w)"
| "check_allowed E (ICMP c # ss) w =
     do { let c = (if i_stop (ng_k c) then c else c\<lparr>ng_k := (ng_k c)\<lparr>i_stop := True\<rparr>\<rparr>);
          (ss, w) \<leftarrow> check_allowed E ss w;
          Some (ICMP c # ss, w) }"
| "check_allowed E (UDP c # ss) w =
     (if u_state (ng_k c) = UDP_ACTIVE then
        do { (ss, w) \<leftarrow> check_allowed E ss w;
             Some (UDP (c\<lparr>ng_k := (ng_k c)\<lparr>u_state := UDP_FINISHING\<rparr>\<rparr>) # ss, w) }
      else if u_state (ng_k c) = UDP_BLOCKED then check_allowed E ss w
      else do { (ss, w) \<leftarrow> check_allowed E ss w; Some (UDP c # ss, w) })"
| "check_allowed E (TCP c # ss) w =
     do { (t, w) \<leftarrow> (if t_state (ng_k c) \<noteq> TCP_CLOSING \<and> t_state (ng_k c) \<noteq> TCP_CLOSE
                     then write_rst E (ng_k c) w else Some (ng_k c, w));
          (ss, w) \<leftarrow> check_allowed E ss w;
          Some (TCP (c\<lparr>ng_k := t\<rparr>) # ss, w) }"

section \<open>Counting and monitoring\<close>

fun live :: "session \<Rightarrow> bool" where
  "live (ICMP c) \<longleftrightarrow> \<not> i_stop (ng_k c)"
| "live (UDP c) \<longleftrightarrow> u_state (ng_k c) = UDP_ACTIVE"
| "live (TCP c) \<longleftrightarrow> t_state (ng_k c) \<noteq> TCP_CLOSING \<and> t_state (ng_k c) \<noteq> TCP_CLOSE"

definition monitor_session :: "env \<Rightarrow> session \<Rightarrow> world \<Rightarrow> (bool \<times> session \<times> world) option" where
  "monitor_session E s w =
     (case s of
        TCP c \<Rightarrow> if 0 \<le> ng_socket c then
                   do { (recheck, c, w) \<leftarrow> monitor_tcp_session E c w; Some (recheck, TCP c, w) }
                 else Some (False, s, w)
      | _ \<Rightarrow> Some (False, s, w))"

fun count_sessions ::
  "env \<Rightarrow> session list \<Rightarrow> world \<Rightarrow> (int \<times> bool \<times> session list \<times> world) option" where
  "count_sessions E [] w = Some (0, False, [], w)"
| "count_sessions E (s # ss) w =
     do { (recheck, s', w) \<leftarrow> monitor_session E s w;
          (n, rechecks, ss, w) \<leftarrow> count_sessions E ss w;
          Some (n + (if live s then 1 else 0), recheck \<or> rechecks, s' # ss, w) }"

section \<open>Checking\<close>

fun check_session ::
  "env \<Rightarrow> int \<Rightarrow> int \<Rightarrow> session \<Rightarrow> world \<Rightarrow> (bool \<times> session \<times> world) option" where
  "check_session E n m (ICMP c) w = do { (del, c, w) \<leftarrow> check_icmp_session E n m c w; Some (del, ICMP c, w) }"
| "check_session E n m (UDP c) w = do { (del, c, w) \<leftarrow> check_udp_session E n m c w; Some (del, UDP c, w) }"
| "check_session E n m (TCP c) w = do { (del, c, w) \<leftarrow> check_tcp_session E n m c w; Some (del, TCP c, w) }"

fun sess_time :: "session \<Rightarrow> int" where
  "sess_time (ICMP c) = i_time (ng_k c)"
| "sess_time (UDP c) = u_time (ng_k c)"
| "sess_time (TCP c) = t_time (ng_k c)"

fun sess_timeout :: "session \<Rightarrow> int \<Rightarrow> int \<Rightarrow> int option" where
  "sess_timeout (ICMP c) n m = get_icmp_timeout (ng_k c) n m"
| "sess_timeout (UDP c) n m = get_udp_timeout (ng_k c) n m"
| "sess_timeout (TCP c) n m = get_tcp_timeout (ng_k c) n m"

text \<open>The time to wait, shortened to the moment at which the session may time out.\<close>

definition shorten :: "int \<Rightarrow> int \<Rightarrow> int \<Rightarrow> int \<Rightarrow> session \<Rightarrow> int option" where
  "shorten n m now timeout s =
     do { t \<leftarrow> sess_timeout s n m;
          let stimeout = to_int32 (sess_time s + t - now + 1);
          Some (if stimeout > 0 \<and> stimeout < timeout then stimeout else timeout) }"

fun check_sessions ::
  "env \<Rightarrow> int \<Rightarrow> int \<Rightarrow> int \<Rightarrow> int \<Rightarrow> session list \<Rightarrow> world \<Rightarrow> (int \<times> session list \<times> world) option"
where
  "check_sessions E n m now timeout [] w = Some (timeout, [], w)"
| "check_sessions E n m now timeout (s # ss) w =
     do { (del, s', w) \<leftarrow> check_session E n m s w;
          timeout \<leftarrow> (if live s' \<and> \<not> del then shorten n m now timeout s' else Some timeout);
          (timeout, ss', w) \<leftarrow> check_sessions E n m now timeout ss w;
          Some (timeout, if del then ss' else s' # ss', w) }"

section \<open>One turn of the loop\<close>

record loop_state =
  lp_sessions :: "session list"
  lp_last_check :: int
  lp_world :: world

text \<open>
  The part before the wait: the number of sessions, the milliseconds to wait, and the state.
\<close>

definition prepare :: "env \<Rightarrow> int \<Rightarrow> loop_state \<Rightarrow> (int \<times> int \<times> loop_state) option" where
  "prepare E maxsessions st =
     do { (sessions, recheck, ss, w) \<leftarrow> count_sessions E (lp_sessions st) (lp_world st);
          let (ms, w) = get_ms E w;
          if ms - lp_last_check st > EPOLL_MIN_CHECK then
            do { let (now, w) = sys_time E w;
                 (timeout, ss, w) \<leftarrow> check_sessions E sessions maxsessions now EPOLL_TIMEOUT ss w;
                 Some (sessions, if recheck then EPOLL_MIN_CHECK else timeout * 1000,
                       \<lparr>lp_sessions = ss, lp_last_check = ms, lp_world = w\<rparr>) }
          else Some (sessions, EPOLL_MIN_CHECK,
                     \<lparr>lp_sessions = ss, lp_last_check = lp_last_check st, lp_world = w\<rparr>) }"

definition epoll_wait :: "env \<Rightarrow> int \<Rightarrow> world \<Rightarrow> (errno + (event_source \<times> u32) list) \<times> world" where
  "epoll_wait E ms w =
     ((case e_epoll_wait E (w_tick w) of Inl e \<Rightarrow> Inl e | Inr evs \<Rightarrow> Inr (take EPOLL_EVENTS evs)), tick w)"

text \<open>
  The two loops that read as long as there is something to read; \<open>None\<close> when they never end. The first
  one tells whether the tunnel failed.
\<close>

partial_function (option) drain_tun ::
  "env \<Rightarrow> arguments \<Rightarrow> int \<Rightarrow> u32 \<Rightarrow> int \<Rightarrow> int \<Rightarrow> session list \<Rightarrow> world
     \<Rightarrow> (bool \<times> session list \<times> world) option" where
  "drain_tun E args tun ev sessions maxsessions ss w =
     (case is_readable E tun w of
        (readable, w) \<Rightarrow>
          if readable then
            do { (res, ss, w) \<leftarrow> check_tun E args ev sessions maxsessions ss w;
                 if res < 0 then Some (True, ss, w)
                 else drain_tun E args tun ev sessions maxsessions ss w }
          else Some (False, ss, w))"

declare drain_tun.simps [code]

partial_function (option) drain_udp ::
  "env \<Rightarrow> u32 \<Rightarrow> udp_session ng_session \<Rightarrow> world \<Rightarrow> (udp_session ng_session \<times> world) option" where
  "drain_udp E ev s w =
     (if ev AND EPOLLERR = 0 \<and> ev AND EPOLLIN \<noteq> 0 then
        (case is_readable E (ng_socket s) w of
           (readable, w) \<Rightarrow>
             if readable then do { (s, w) \<leftarrow> check_udp_socket E ev s w; drain_udp E ev s w }
             else Some (s, w))
      else Some (s, w))"

declare drain_udp.simps [code]

definition session_event ::
  "env \<Rightarrow> u32 \<Rightarrow> session \<Rightarrow> world \<Rightarrow> (session \<times> world) option" where
  "session_event E ev s w =
     (case s of
        ICMP c \<Rightarrow> do { (c, w) \<leftarrow> check_icmp_socket E ev c w; Some (ICMP c, w) }
      | UDP c \<Rightarrow> do { (c, w) \<leftarrow> drain_udp E ev c w; Some (UDP c, w) }
      | TCP c \<Rightarrow> do { (c, w) \<leftarrow> check_tcp_socket E ev c w; Some (TCP c, w) })"

datatype outcome = Go | Stop | Failed

text \<open>
  One event. A session is found by the pointer that was registered with its socket; a pointer to a
  session that was freed is undefined behaviour.
\<close>

definition handle_event ::
  "env \<Rightarrow> arguments \<Rightarrow> int \<Rightarrow> int \<Rightarrow> int \<Rightarrow> event_source \<times> u32 \<Rightarrow> session list \<Rightarrow> world
     \<Rightarrow> (outcome \<times> session list \<times> world) option" where
  "handle_event E args tun sessions maxsessions e ss w =
     (case fst e of
        PipeReady \<Rightarrow> Some (Stop, ss, tick w)
      | TunReady \<Rightarrow>
          do { (error, ss, w) \<leftarrow> drain_tun E args tun (snd e) sessions maxsessions ss w;
               Some (if error then Failed else Go, ss, w) }
      | SessReady p \<Rightarrow>
          (case List.extract (\<lambda>s. sess_ptr s = p) ss of
             None \<Rightarrow> None
           | Some (before, s, behind) \<Rightarrow>
               do { (s, w) \<leftarrow> session_event E (snd e) s w;
                    Some (Go, before @ s # behind, w) }))"

fun handle_all ::
  "env \<Rightarrow> arguments \<Rightarrow> int \<Rightarrow> int \<Rightarrow> int \<Rightarrow> (event_source \<times> u32) list \<Rightarrow> session list \<Rightarrow> world
     \<Rightarrow> (outcome \<times> session list \<times> world) option" where
  "handle_all E args tun sessions maxsessions [] ss w = Some (Go, ss, w)"
| "handle_all E args tun sessions maxsessions (e # es) ss w =
     do { (o1, ss, w) \<leftarrow> handle_event E args tun sessions maxsessions e ss w;
          if o1 = Go then handle_all E args tun sessions maxsessions es ss w else Some (o1, ss, w) }"

definition turn ::
  "env \<Rightarrow> arguments \<Rightarrow> int \<Rightarrow> int \<Rightarrow> loop_state \<Rightarrow> (outcome \<times> loop_state) option" where
  "turn E args tun maxsessions st =
     do { (sessions, wait, st) \<leftarrow> prepare E maxsessions st;
          let (r, w) = epoll_wait E wait (lp_world st);
          case r of
            Inl e \<Rightarrow> Some (if e = EINTR then Go else Failed, st\<lparr>lp_world := w\<rparr>)
          | Inr evs \<Rightarrow>
              do { (o1, ss, w) \<leftarrow> handle_all E args tun sessions maxsessions evs (lp_sessions st) w;
                   Some (o1, st\<lparr>lp_sessions := ss, lp_world := w\<rparr>) } }"

section \<open>The thread\<close>

partial_function (option) event_loop ::
  "env \<Rightarrow> arguments \<Rightarrow> int \<Rightarrow> int \<Rightarrow> loop_state \<Rightarrow> loop_state option" where
  "event_loop E args tun maxsessions st =
     do { (o1, st) \<leftarrow> turn E args tun maxsessions st;
          if o1 = Go then event_loop E args tun maxsessions st else Some st }"

declare event_loop.simps [code]

definition handle_events ::
  "env \<Rightarrow> arguments \<Rightarrow> int \<Rightarrow> session list \<Rightarrow> world \<Rightarrow> (session list \<times> world) option" where
  "handle_events E args tun ss w =
     (if \<not> e_attach E then Some (ss, w)
      else
        do { let (maxsessions, w) = get_maxsessions E w;
             (ss, w) \<leftarrow> check_allowed E ss w;
             let epoll_fd = e_epoll_create E (w_tick w);
             let pipe_fails = e_watch E (w_tick w + 1);
             let tun_fails = e_watch E (w_tick w + 2);
             let stopping = (epoll_fd < 0 \<or> pipe_fails \<or> tun_fails);
             let w = tick (tick (tick w));
             (ss, w) \<leftarrow>
               (if stopping then Some (ss, w)
                else map_option (\<lambda>st. (lp_sessions st, lp_world st))
                  (event_loop E args tun maxsessions \<lparr>lp_sessions = ss, lp_last_check = 0, lp_world = w\<rparr>));
             Some (ss, if 0 \<le> epoll_fd then emit (EpollClose epoll_fd) w else w) })"

section \<open>Soundness of the parts\<close>

text \<open>
  The state between two steps is sound: every session satisfies its invariant, and every descriptor that is
  held or registered is accounted for. The handling of events also keeps the session pointers, so that the
  events of one wait that are still to be handled refer to sessions that exist.
\<close>

definition sound :: "session list \<Rightarrow> world \<Rightarrow> bool" where
  "sound ss w \<longleftrightarrow> (\<forall>s \<in> set ss. sess_inv s) \<and> accounts ss (w_trace w)"

definition keeps :: "session list \<Rightarrow> world \<Rightarrow> session list \<Rightarrow> world \<Rightarrow> bool" where
  "keeps ss w ss' w' \<longleftrightarrow> (sound ss w \<longrightarrow> sound ss' w' \<and> sess_ptr ` set ss \<subseteq> sess_ptr ` set ss')"

lemma sound_trace: "w_trace w' = w_trace w \<Longrightarrow> sound ss w' = sound ss w"
  by (simp add: sound_def)

lemma keeps_same:
  assumes "w_trace w' = w_trace w"
  shows "keeps ss w ss w'"
  unfolding keeps_def sound_trace [OF assms] by simp

lemma keeps_trans [trans]: "keeps a wa b wb \<Longrightarrow> keeps b wb c wc \<Longrightarrow> keeps a wa c wc"
  by (auto simp: keeps_def)

lemma move_keeps: "(sound ss w \<Longrightarrow> move ss w ss' w') \<Longrightarrow> keeps ss w ss' w'"
  unfolding keeps_def
proof
  assume m: "sound ss w \<Longrightarrow> move ss w ss' w'" and s: "sound ss w"
  show "sound ss' w' \<and> sess_ptr ` set ss \<subseteq> sess_ptr ` set ss'"
    using move_inv [OF m [OF s]] move_accounts [OF m [OF s]] move_ptrs [OF m [OF s]] s by (simp add: sound_def)
qed

lemma sound_Nil: "w_trace w = [] \<Longrightarrow> sound [] w"
  by (simp add: sound_def accounted_Nil)

text \<open>A change of every session in turn.\<close>

lemma sound_change:
  assumes "sound (a @ s # b) w" "sock_change sess_socket sess_ptr s w s' w'" "sess_inv s'"
  shows "sound (a @ s' # b) w'"
  using assms accounted_change [OF _ assms(2)] by (auto simp: sound_def)

subsection \<open>Checks\<close>

interpretation all_check: session_check check_session sess_socket sess_ptr sess_inv
proof
  fix s E n m w del s' w'
  assume i: "sess_inv s" and c: "check_session E n m s w = Some (del, s', w')"
  show "sess_inv s'" if "\<not> del"
    using i c that by (cases s) (auto simp: bind_eq_Some_conv dest: icmp_check.chk_inv udp_check.chk_inv tcp_check.chk_inv)
  show "sess_socket s' < 0" if "del"
    using i c that by (cases s)
      (auto simp: bind_eq_Some_conv dest: icmp_check.chk_removed udp_check.chk_removed tcp_check.chk_removed)
  show "sock_change sess_socket sess_ptr s w s' w'"
    using i c by (cases s)
      (auto simp: bind_eq_Some_conv sock_change_def
        dest!: icmp_check.chk_socket udp_check.chk_socket tcp_check.chk_socket)
qed

text \<open>The check of the loop is the sweep of the interface, with the time to wait beside it.\<close>

lemma check_sessions_sweep:
  "check_sessions E n m now timeout ss w = Some (t, ss', w') \<Longrightarrow> sweep (check_session E n m) ss w = Some (ss', w')"
proof (induction ss arbitrary: timeout w ss')
  case (Cons s ss)
  from Cons.prems obtain del s1 w1 timeout1 ss1 where
    c: "check_session E n m s w = Some (del, s1, w1)"
    and r: "check_sessions E n m now timeout1 ss w1 = Some (t, ss1, w')" "ss' = (if del then ss1 else s1 # ss1)"
    by (auto simp: bind_eq_Some_conv)
  show ?case using c Cons.IH [OF r(1)] r(2) by simp
qed simp

lemma check_sessions_sound:
  assumes "check_sessions E n m now timeout ss w = Some (t, ss', w')" "sound ss w"
  shows "sound ss' w'"
  using all_check.sweep_spec [OF _ check_sessions_sweep [OF assms(1)], of "[]"] assms(2) by (simp add: sound_def)

subsection \<open>Monitoring\<close>

lemma monitor_session_change:
  assumes "monitor_session E s w = Some (recheck, s', w')" "sess_inv s"
  shows "sock_change sess_socket sess_ptr s w s' w' \<and> sess_inv s'
    \<and> (live s' \<longrightarrow> live s) \<and> sess_socket s' = sess_socket s"
proof -
  have same: ?thesis if "s' = s" "w' = w" using that assms(2) by (simp add: sock_change_def)
  show ?thesis
  proof (cases "\<exists>c. s = TCP c \<and> 0 \<le> ng_socket c")
    case True
    then obtain c where c: "s = TCP c" "0 \<le> ng_socket c" by blast
    from assms(1) c obtain c' where m: "monitor_tcp_session E c w = Some (recheck, c', w')" and s': "s' = TCP c'"
      by (auto simp: monitor_session_def bind_eq_Some_conv)
    have i: "tcp_inv c" using assms(2) c by simp
    from m show ?thesis
    proof (cases rule: monitor_cases)
      case (1 ev t1 w1)
      note sp = monitor_events_spec [OF 1(1)]
      have st: "t_state (ng_k c') = t_state (ng_k c) \<or> t_state (ng_k c') = TCP_CLOSING"
        using sp 1(5) same_or_closing_frame(7) [of "ng_k c" t1] by auto
      have "ledger (w_trace w') = ledger (w_trace w)" using sp 1(6) by auto
      moreover have "tcp_inv c'" using monitor_path [OF m i c(2)] by simp
      ultimately show ?thesis using 1(3,4) st by (auto simp: sock_change_def c s')
    qed
  next
    case False
    with assms(1) have "s' = s" "w' = w" by (auto simp: monitor_session_def split: session.splits if_splits)
    then show ?thesis by (rule same)
  qed
qed

lemma count_sessions_sound:
  "count_sessions E ss w = Some (n, recheck, ss', w') \<Longrightarrow> sound (before @ ss) w \<Longrightarrow>
     sound (before @ ss') w' \<and> ledger (w_trace w') = ledger (w_trace w)
     \<and> 0 \<le> n \<and> n \<le> int (length ss) \<and> length ss' = length ss
     \<and> map sess_socket ss' = map sess_socket ss \<and> map sess_ptr ss' = map sess_ptr ss
     \<and> (\<forall>s \<in> set ss'. live s \<longrightarrow> (\<exists>s \<in> set ss. live s))"
proof (induction ss arbitrary: before w n recheck ss')
  case (Cons s ss)
  from Cons.prems(1) obtain rc s1 w1 where m: "monitor_session E s w = Some (rc, s1, w1)"
    by (cases "monitor_session E s w") auto
  from Cons.prems(1) m obtain n1 rcs ss1 where r: "count_sessions E ss w1 = Some (n1, rcs, ss1, w')"
    and e: "n = n1 + (if live s then 1 else 0)" "ss' = s1 # ss1"
    by (cases "count_sessions E ss w1") auto
  have i: "sess_inv s" using Cons.prems(2) by (simp add: sound_def)
  note ch = monitor_session_change [OF m i]
  have "sound (before @ s1 # ss) w1" using sound_change [OF Cons.prems(2)] ch by blast
  then have "sound ((before @ [s1]) @ ss) w1" by simp
  note ih = Cons.IH [OF r this]
  moreover have "ledger (w_trace w1) = ledger (w_trace w)" using ch by (auto simp: sock_change_def)
  moreover have "sess_ptr s1 = sess_ptr s" "sess_socket s1 = sess_socket s" "live s1 \<longrightarrow> live s"
    using ch by (simp_all add: sock_change_def)
  ultimately show ?case using e by auto
qed simp

subsection \<open>Events\<close>

lemma is_readable_cases:
  obtains readable where "is_readable E fd w = (readable, tick w)" "fd < 0 \<Longrightarrow> \<not> readable"
  by (rule that [of "fst (is_readable E fd w)"])
    (auto simp: is_readable_def is_event_def Let_def split: prod.splits)

lemma drain_tun_keeps:
  assumes "drain_tun E args tun ev n m ss w = Some r"
  shows "keeps ss w (fst (snd r)) (snd (snd r))"
proof (rule drain_tun.raw_induct [OF _ assms])
  fix loop E args tun ev n m ss w r
  assume ih: "\<And>E args tun ev n m ss w r. loop E args tun ev n m ss w = Some r \<Longrightarrow> keeps ss w (fst (snd r)) (snd (snd r))"
    and s: "(case is_readable E tun w of
        (readable, w) \<Rightarrow>
          if readable then
            do { (res, ss, w) \<leftarrow> check_tun E args ev n m ss w;
                 if res < 0 then Some (True, ss, w) else loop E args tun ev n m ss w }
          else Some (False, ss, w)) = Some r"
  obtain readable where rd: "is_readable E tun w = (readable, tick w)" by (rule is_readable_cases)
  have k0: "keeps ss w ss (tick w)" by (rule keeps_same) simp
  show "keeps ss w (fst (snd r)) (snd (snd r))"
  proof (cases readable)
    case False
    with s rd k0 show ?thesis by auto
  next
    case True
    with s rd obtain res ss1 w1 where c: "check_tun E args ev n m ss (tick w) = Some (res, ss1, w1)"
      and d: "(if res < 0 then Some (True, ss1, w1) else loop E args tun ev n m ss1 w1) = Some r"
      by (auto simp: bind_eq_Some_conv)
    have "keeps ss (tick w) ss1 w1"
      by (rule move_keeps) (rule check_tun_move [OF c], simp add: sound_def)
    with k0 have k1: "keeps ss w ss1 w1" by (rule keeps_trans)
    show ?thesis
    proof (cases "res < 0")
      case True
      with d k1 show ?thesis by auto
    next
      case False
      with d have "loop E args tun ev n m ss1 w1 = Some r" by simp
      from keeps_trans [OF k1 ih [OF this]] show ?thesis .
    qed
  qed
qed

lemma drain_udp_steps:
  assumes "drain_udp E ev s w = Some r"
  shows "udp_inv s \<longrightarrow> udp_inv (fst r) \<and> quiet w (snd r) \<and> ng_socket (fst r) = ng_socket s \<and> ng_ptr (fst r) = ng_ptr s"
proof (rule drain_udp.raw_induct [OF _ assms], rule impI)
  fix loop E ev s w r
  assume ih: "\<And>E ev s w r. loop E ev s w = Some r \<Longrightarrow>
      udp_inv s \<longrightarrow> udp_inv (fst r) \<and> quiet w (snd r) \<and> ng_socket (fst r) = ng_socket s \<and> ng_ptr (fst r) = ng_ptr s"
    and s: "(if ev AND EPOLLERR = 0 \<and> ev AND EPOLLIN \<noteq> 0 then
        (case is_readable E (ng_socket s) w of
           (readable, w) \<Rightarrow>
             if readable then do { (s, w) \<leftarrow> check_udp_socket E ev s w; loop E ev s w }
             else Some (s, w))
      else Some (s, w)) = Some r" and i: "udp_inv s"
  obtain readable where rd: "is_readable E (ng_socket s) w = (readable, tick w)" "ng_socket s < 0 \<Longrightarrow> \<not> readable"
    using is_readable_cases [of E "ng_socket s" w] by blast
  show "udp_inv (fst r) \<and> quiet w (snd r) \<and> ng_socket (fst r) = ng_socket s \<and> ng_ptr (fst r) = ng_ptr s"
  proof (cases "ev AND EPOLLERR = 0 \<and> ev AND EPOLLIN \<noteq> 0 \<and> readable")
    case False
    then have "r = (s, w) \<or> r = (s, tick w)" using s rd(1) by (auto split: if_splits)
    then show ?thesis using i by auto
  next
    case True
    with s rd(1) obtain s1 w1 where c: "check_udp_socket E ev s (tick w) = Some (s1, w1)"
      and l: "loop E ev s1 w1 = Some r" by (auto simp: bind_eq_Some_conv)
    have "0 \<le> ng_socket s" using rd(2) True by fastforce
    then have "udp_inv s1 \<and> ng_socket s1 = ng_socket s \<and> ng_ptr s1 = ng_ptr s \<and> quiet (tick w) w1"
      using check_udp_socket_step [OF c] i by (auto simp: udp_step_def udp_inv_def)
    then show ?thesis using ih [OF l] quiet_trans [OF quiet_tick, of w w1] quiet_trans [of w w1 "snd r"] by auto
  qed
qed

lemma session_event_change:
  assumes "session_event E ev s w = Some (s', w')" "sess_inv s"
  shows "sock_change sess_socket sess_ptr s w s' w' \<and> sess_inv s'"
proof (cases s)
  case (ICMP c)
  with assms(1) obtain c' where "check_icmp_socket E ev c w = Some (c', w')" "s' = ICMP c'"
    by (auto simp: session_event_def bind_eq_Some_conv)
  then show ?thesis using icmp_sockets.h_change [of c E ev w c' w'] assms(2) ICMP by simp
next
  case (UDP c)
  with assms(1) obtain c' where d: "drain_udp E ev c w = Some (c', w')" "s' = UDP c'"
    by (auto simp: session_event_def bind_eq_Some_conv)
  then show ?thesis
    using drain_udp_steps [OF d(1)] assms(2) UDP sock_change_quiet [of w w' sess_socket s' s sess_ptr] by simp
next
  case (TCP c)
  with assms(1) obtain c' where "check_tcp_socket E ev c w = Some (c', w')" "s' = TCP c'"
    by (auto simp: session_event_def bind_eq_Some_conv)
  then show ?thesis using tcp_sockets.h_change [of c E ev w c' w'] assms(2) TCP by simp
qed

lemma handle_event_keeps:
  assumes "handle_event E args tun n m e ss w = Some (o1, ss', w')"
  shows "keeps ss w ss' w'"
proof (cases "fst e")
  case PipeReady
  with assms show ?thesis using keeps_same [of "tick w" w ss] by (auto simp: handle_event_def)
next
  case TunReady
  with assms obtain err where "drain_tun E args tun (snd e) n m ss w = Some (err, ss', w')"
    by (auto simp: handle_event_def bind_eq_Some_conv)
  from drain_tun_keeps [OF this] show ?thesis by simp
next
  case (SessReady p)
  with assms obtain before s behind s' where
    x: "List.extract (\<lambda>s. sess_ptr s = p) ss = Some (before, s, behind)"
    and e: "session_event E (snd e) s w = Some (s', w')" "ss' = before @ s' # behind"
    by (auto simp: handle_event_def bind_eq_Some_conv split: option.splits)
  have ss: "ss = before @ s # behind" using extract_split [OF x] by simp
  show ?thesis
  proof (rule move_keeps)
    assume "sound ss w"
    then have "sess_inv s" by (simp add: sound_def ss)
    from session_event_change [OF e(1) this] show "move ss w ss' w'"
      unfolding ss e(2) by (intro move.changed) simp_all
  qed
qed

lemma handle_all_keeps: "handle_all E args tun n m es ss w = Some (o1, ss', w') \<Longrightarrow> keeps ss w ss' w'"
proof (induction es arbitrary: ss w)
  case Nil
  then show ?case using keeps_same [of w w ss] by simp
next
  case (Cons e es)
  from Cons.prems obtain o2 ss1 w1 where h: "handle_event E args tun n m e ss w = Some (o2, ss1, w1)"
    and r: "(if o2 = Go then handle_all E args tun n m es ss1 w1 else Some (o2, ss1, w1)) = Some (o1, ss', w')"
    by (auto simp: bind_eq_Some_conv)
  note k = handle_event_keeps [OF h]
  show ?case
  proof (cases "o2 = Go")
    case True
    with r have "handle_all E args tun n m es ss1 w1 = Some (o1, ss', w')" by simp
    from keeps_trans [OF k Cons.IH [OF this]] show ?thesis .
  next
    case False
    with r k show ?thesis by simp
  qed
qed

subsection \<open>A turn\<close>

lemma prepare_steps:
  assumes "prepare E m st = Some (n, wait, st')"
  obtains recheck ss w where
    "count_sessions E (lp_sessions st) (lp_world st) = Some (n, recheck, ss, w)"
    "wait = EPOLL_MIN_CHECK" "w_trace (lp_world st') = w_trace w" "lp_sessions st' = ss"
    "lp_last_check st' = lp_last_check st" "e_ms E (w_tick w) - lp_last_check st \<le> EPOLL_MIN_CHECK"
  | recheck ss w w1 now t where
    "count_sessions E (lp_sessions st) (lp_world st) = Some (n, recheck, ss, w)"
    "w_trace w1 = w_trace w" "now = e_time E (w_tick w + 1)"
    "check_sessions E n m now EPOLL_TIMEOUT ss w1 = Some (t, lp_sessions st', lp_world st')"
    "wait = (if recheck then EPOLL_MIN_CHECK else t * 1000)"
    "e_ms E (w_tick w) - lp_last_check st > EPOLL_MIN_CHECK"
proof -
  from assms obtain n1 recheck ss w where c: "count_sessions E (lp_sessions st) (lp_world st) = Some (n1, recheck, ss, w)"
    by (cases "count_sessions E (lp_sessions st) (lp_world st)") (auto simp: prepare_def)
  obtain ms w1 where g: "get_ms E w = (ms, w1)" by (cases "get_ms E w")
  then have g1: "ms = e_ms E (w_tick w)" "w_trace w1 = w_trace w" "w_tick w1 = w_tick w + 1"
    by (auto simp: get_ms_def)
  show ?thesis
  proof (cases "ms - lp_last_check st > EPOLL_MIN_CHECK")
    case False
    with assms c g have "n1 = n" "wait = EPOLL_MIN_CHECK"
      "st' = \<lparr>lp_sessions = ss, lp_last_check = lp_last_check st, lp_world = w1\<rparr>"
      by (auto simp: prepare_def)
    with c g1 False show ?thesis by (intro that(1) [of recheck ss w]) auto
  next
    case True
    obtain now w2 where t: "sys_time E w1 = (now, w2)" by (cases "sys_time E w1")
    then have t1: "now = e_time E (w_tick w + 1)" "w_trace w2 = w_trace w"
      using g1 by (auto simp: sys_time_def)
    from assms c g t True obtain t2 ss2 w3 where s: "check_sessions E n1 m now EPOLL_TIMEOUT ss w2 = Some (t2, ss2, w3)"
      by (cases "check_sessions E n1 m now EPOLL_TIMEOUT ss w2") (auto simp: prepare_def)
    with assms c g t True have "n1 = n" "wait = (if recheck then EPOLL_MIN_CHECK else t2 * 1000)"
      "st' = \<lparr>lp_sessions = ss2, lp_last_check = ms, lp_world = w3\<rparr>"
      by (auto simp: prepare_def)
    with c s t1 g1 True show ?thesis by (intro that(2) [of recheck ss w w2 now t2]) auto
  qed
qed

abbreviation "st_sound st \<equiv> sound (lp_sessions st) (lp_world st)"

lemma prepare_sound:
  assumes "prepare E m st = Some (n, wait, st')" "st_sound st"
  shows "st_sound st' \<and> 0 \<le> n \<and> n \<le> int (length (lp_sessions st))"
  using assms(1)
proof (cases rule: prepare_steps)
  case (1 recheck ss w)
  from count_sessions_sound [OF 1(1), of "[]"] assms(2) have "sound ss w \<and> 0 \<le> n \<and> n \<le> int (length (lp_sessions st))"
    by simp
  then show ?thesis using sound_trace [OF 1(3)] 1(4) by simp
next
  case (2 recheck ss w w1 now t)
  from count_sessions_sound [OF 2(1), of "[]"] assms(2) have s: "sound ss w \<and> 0 \<le> n \<and> n \<le> int (length (lp_sessions st))"
    by simp
  then have "sound ss w1" using sound_trace [OF 2(2)] by simp
  from check_sessions_sound [OF 2(4) this] s show ?thesis by simp
qed

lemma epoll_wait_spec:
  assumes "epoll_wait E ms w = (r, w')"
  shows "w' = tick w" "r = Inr evs \<Longrightarrow> length evs \<le> EPOLL_EVENTS"
  using assms by (auto simp: epoll_wait_def split: sum.splits)

lemma turn_steps:
  assumes "turn E args tun m st = Some (o1, st')"
  obtains n wait st1 where "prepare E m st = Some (n, wait, st1)"
    "\<exists>e. o1 = (if e = EINTR then Go else Failed)" "st' = st1\<lparr>lp_world := tick (lp_world st1)\<rparr>"
  | n wait st1 evs ss w where "prepare E m st = Some (n, wait, st1)"
    "handle_all E args tun n m evs (lp_sessions st1) (tick (lp_world st1)) = Some (o1, ss, w)"
    "st' = st1\<lparr>lp_sessions := ss, lp_world := w\<rparr>" "length evs \<le> EPOLL_EVENTS"
proof -
  from assms obtain n wait st1 where p: "prepare E m st = Some (n, wait, st1)"
    by (cases "prepare E m st") (auto simp: turn_def)
  obtain r w where e: "epoll_wait E wait (lp_world st1) = (r, w)" by (cases "epoll_wait E wait (lp_world st1)")
  note ew = epoll_wait_spec [OF e]
  show ?thesis
  proof (cases r)
    case (Inl a)
    then have "turn E args tun m st = Some (if a = EINTR then Go else Failed, st1\<lparr>lp_world := w\<rparr>)"
      unfolding turn_def p e bind.bind_lunit prod.case Let_def by (simp add: e)
    with assms ew(1) have "o1 = (if a = EINTR then Go else Failed)" "st' = st1\<lparr>lp_world := tick (lp_world st1)\<rparr>"
      by simp_all
    then show ?thesis using that(1) [OF p] by blast
  next
    case (Inr evs)
    let ?h = "handle_all E args tun n m evs (lp_sessions st1) (tick (lp_world st1))"
    have "turn E args tun m st = do { (o1, ss, w) \<leftarrow> ?h; Some (o1, st1\<lparr>lp_sessions := ss, lp_world := w\<rparr>) }"
      using ew(1) by (simp add: turn_def p e Inr)
    with assms obtain ss w1 where "?h = Some (o1, ss, w1)" "st' = st1\<lparr>lp_sessions := ss, lp_world := w1\<rparr>"
      by (cases ?h) auto
    then show ?thesis by (intro that(2) [OF p]) (use ew(2) Inr in simp_all)
  qed
qed

lemma turn_sound:
  assumes "turn E args tun m st = Some (o1, st')" "st_sound st"
  shows "st_sound st'"
  using assms(1)
proof (cases rule: turn_steps)
  case (1 n wait st1)
  have "sound (lp_sessions st1) (tick (lp_world st1)) = sound (lp_sessions st1) (lp_world st1)"
    by (rule sound_trace) simp
  with prepare_sound [OF 1(1) assms(2)] show ?thesis by (simp add: 1)
next
  case (2 n wait st1 evs ss w)
  have "sound (lp_sessions st1) (tick (lp_world st1)) = sound (lp_sessions st1) (lp_world st1)"
    by (rule sound_trace) simp
  with prepare_sound [OF 2(1) assms(2)] handle_all_keeps [OF 2(2)] show ?thesis by (simp add: 2 keeps_def)
qed


subsection \<open>The end of sessions\<close>

text \<open>A session that was ended and waits for its check.\<close>

fun ended :: "session \<Rightarrow> bool" where
  "ended (ICMP c) \<longleftrightarrow> i_stop (ng_k c)"
| "ended (UDP c) \<longleftrightarrow> u_state (ng_k c) \<in> {UDP_FINISHING, UDP_CLOSED}"
| "ended (TCP c) \<longleftrightarrow> t_state (ng_k c) \<in> {TCP_CLOSING, TCP_CLOSE}"

lemma ended_not_live: "ended s \<Longrightarrow> \<not> live s"
  by (cases s) auto

abbreviation descriptors :: "session list \<Rightarrow> (int \<times> nat) set" where
  "descriptors ss \<equiv> (\<lambda>s. (sess_socket s, sess_ptr s)) ` {s \<in> set ss. 0 \<le> sess_socket s}"

lemma sound_transfer:
  assumes "sound ss w" "\<forall>s \<in> set ss'. sess_inv s" "quiet w w'"
    "held sess_socket ss' = held sess_socket ss" "descriptors ss' = descriptors ss"
  shows "sound ss' w'"
  using assms ledger_same [OF quiet_ledger [OF assms(3)]] by (simp add: sound_def accounted_def)

lemma write_rst_ended:
  assumes "write_rst E t w = Some (t', w')"
  shows "t_state t' \<in> {TCP_CLOSING, TCP_CLOSE} \<and> quiet w w' \<and> (t_state t \<noteq> TCP_CLOSE \<longrightarrow> t_state t' = TCP_CLOSING)"
  using write_rst_effect [OF assms] by (auto simp: frame_simps intro: quiet_tun)

lemma descriptors_step:
  "sess_socket s' = sess_socket s \<Longrightarrow> sess_ptr s' = sess_ptr s \<Longrightarrow> descriptors a = descriptors b \<Longrightarrow>
     descriptors (s' # a) = descriptors (s # b)"
  "sess_socket s < 0 \<Longrightarrow> descriptors (s # b) = descriptors b"
proof -
  have c: "descriptors (s # b) = (if 0 \<le> sess_socket s then {(sess_socket s, sess_ptr s)} else {}) \<union> descriptors b"
    for s b by auto
  show "sess_socket s' = sess_socket s \<Longrightarrow> sess_ptr s' = sess_ptr s \<Longrightarrow> descriptors a = descriptors b \<Longrightarrow>
      descriptors (s' # a) = descriptors (s # b)"
    unfolding c by simp
  show "sess_socket s < 0 \<Longrightarrow> descriptors (s # b) = descriptors b" unfolding c by simp
qed

lemma check_allowed_spec:
  "check_allowed E ss w = Some (ss', w') \<Longrightarrow> \<forall>s \<in> set ss. sess_inv s \<Longrightarrow>
     (\<forall>s \<in> set ss'. sess_inv s \<and> ended s) \<and> quiet w w'
     \<and> held sess_socket ss' = held sess_socket ss \<and> descriptors ss' = descriptors ss"
proof (induction E ss w arbitrary: ss' rule: check_allowed.induct)
  case (2 E c ss w)
  then obtain ss1 where r: "check_allowed E ss w = Some (ss1, w')"
    and s: "ss' = ICMP (if i_stop (ng_k c) then c else c\<lparr>ng_k := (ng_k c)\<lparr>i_stop := True\<rparr>\<rparr>) # ss1"
    by (cases "check_allowed E ss w") auto
  note ih = 2(1) [OF refl r]
  have "descriptors ss' = descriptors (ICMP c # ss)"
    unfolding s by (rule descriptors_step(1)) (use ih 2(3) in simp_all)
  then show ?case using ih 2(3) s by (simp add: icmp_inv_def)
next
  case (3 E c ss w)
  consider (active) "u_state (ng_k c) = UDP_ACTIVE" | (blocked) "u_state (ng_k c) = UDP_BLOCKED"
    | (over) "u_state (ng_k c) \<noteq> UDP_ACTIVE" "u_state (ng_k c) \<noteq> UDP_BLOCKED" by blast
  then show ?case
  proof cases
    case active
    with 3(4) obtain ss1 where r: "check_allowed E ss w = Some (ss1, w')"
      and s: "ss' = UDP (c\<lparr>ng_k := (ng_k c)\<lparr>u_state := UDP_FINISHING\<rparr>\<rparr>) # ss1"
      by (cases "check_allowed E ss w") auto
    note ih = 3(1) [OF active r]
    have "descriptors ss' = descriptors (UDP c # ss)"
      unfolding s by (rule descriptors_step(1)) (use ih 3(5) in simp_all)
    then show ?thesis using ih 3(5) s active by (simp add: udp_inv_def)
  next
    case blocked
    with 3(4) have r: "check_allowed E ss w = Some (ss', w')" by simp
    have "sess_socket (UDP c) < 0" using 3(5) blocked by (simp add: udp_inv_def)
    from descriptors_step(2) [OF this] show ?thesis using 3(2) [OF _ blocked r] 3(5) blocked \<open>sess_socket (UDP c) < 0\<close>
      by simp
  next
    case over
    with 3(4) obtain ss1 where r: "check_allowed E ss w = Some (ss1, w')" and s: "ss' = UDP c # ss1"
      by (cases "check_allowed E ss w") auto
    note ih = 3(3) [OF over r]
    have "descriptors ss' = descriptors (UDP c # ss)"
      unfolding s by (rule descriptors_step(1)) (use ih 3(5) in simp_all)
    moreover have "u_state (ng_k c) \<in> {UDP_FINISHING, UDP_CLOSED}"
      using over by (cases "u_state (ng_k c)") simp_all
    ultimately show ?thesis using ih 3(5) s by simp
  qed
next
  case (4 E c ss w)
  let ?step = "if t_state (ng_k c) \<noteq> TCP_CLOSING \<and> t_state (ng_k c) \<noteq> TCP_CLOSE
    then write_rst E (ng_k c) w else Some (ng_k c, w)"
  from 4(2) obtain t w1 where t: "?step = Some (t, w1)" by (cases ?step) auto
  from 4(2) t obtain ss1 where r: "check_allowed E ss w1 = Some (ss1, w')" and s: "ss' = TCP (c\<lparr>ng_k := t\<rparr>) # ss1"
    by (cases "check_allowed E ss w1") (auto split: if_splits)
  have q: "t_state t \<in> {TCP_CLOSING, TCP_CLOSE} \<and> quiet w w1 \<and> (t_state t = TCP_CLOSE \<longrightarrow> t_state (ng_k c) = TCP_CLOSE)"
    using t write_rst_ended [of E "ng_k c" w t w1] by (auto split: if_splits)
  have ih: "(\<forall>s \<in> set ss1. sess_inv s \<and> ended s) \<and> quiet w1 w' \<and> held sess_socket ss1 = held sess_socket ss
      \<and> descriptors ss1 = descriptors ss"
    using 4(1) [OF t refl r] 4(3) by simp
  have "descriptors ss' = descriptors (TCP c # ss)"
    unfolding s by (rule descriptors_step(1)) (use ih in simp_all)
  moreover have "tcp_inv (c\<lparr>ng_k := t\<rparr>)" using 4(3) q by (auto simp: tcp_inv_def)
  moreover have "quiet w w'" using q ih quiet_trans [of w w1 w'] by blast
  ultimately show ?case using ih 4(3) s q by simp
qed simp

lemma check_allowed_sound:
  assumes "check_allowed E ss w = Some (ss', w')" "sound ss w"
  shows "sound ss' w' \<and> (\<forall>s \<in> set ss'. ended s)"
proof -
  from assms(2) have i: "\<forall>s \<in> set ss. sess_inv s" by (simp add: sound_def)
  note c = check_allowed_spec [OF assms(1) i]
  have "sound ss' w'" by (rule sound_transfer [OF assms(2)]) (use c in simp_all)
  then show ?thesis using c by simp
qed

lemma clear_spec:
  "clear ss w = (ss', w') \<Longrightarrow>
     ss' = [] \<and> ledger (w_trace w') = ledger (w_trace w) @ map SockClose (held sess_socket ss)"
proof (induction ss arbitrary: w)
  case (Cons s ss)
  from Cons.prems have "clear ss (if 0 \<le> sess_socket s then sys_close (sess_socket s) w else w) = (ss', w')" by simp
  from Cons.IH [OF this] show ?case by (simp add: sys_close_def split: if_splits)
qed simp

lemma check_session_ended:
  assumes "check_session E n m s w = Some (del, s', w')" "sess_inv s" "ended s"
  shows "sess_socket s' < 0 \<and> (\<not> del \<longrightarrow> ended s')"
proof (cases s)
  case (ICMP c)
  with assms show ?thesis
    by (auto simp: bind_eq_Some_conv check_icmp_session_def sys_time_def)
next
  case (UDP c)
  with assms(1) obtain c' where c: "check_udp_session E n m c w = Some (del, c', w')" "s' = UDP c'"
    by (auto simp: bind_eq_Some_conv)
  show ?thesis
    using check_udp_session_open [OF c(1)] check_udp_session_other [OF c(1)] assms(2,3) UDP c(2)
    by (cases "u_state (ng_k c) = UDP_FINISHING \<or> udp_timed_out E n m (ng_k c) w")
      (auto simp: udp_inv_def udp_timed_out_def)
next
  case (TCP c)
  with assms(1) obtain c' where c: "check_tcp_session E n m c w = Some (del, c', w')" "s' = TCP c'"
    by (auto simp: bind_eq_Some_conv)
  show ?thesis
    using check_tcp_session_closed [OF c(1)] check_tcp_session_closing [OF c(1)] assms(2,3) TCP c(2)
    by (auto simp: tcp_inv_def)
qed

lemma sweep_ended:
  "sweep (check_session E n m) ss w = Some (ss', w') \<Longrightarrow> \<forall>s \<in> set ss. sess_inv s \<and> ended s \<Longrightarrow>
     \<forall>s \<in> set ss'. sess_socket s < 0 \<and> ended s"
proof (induction ss arbitrary: w ss')
  case (Cons s ss)
  from Cons.prems(1) obtain del s1 w1 ss1 where c: "check_session E n m s w = Some (del, s1, w1)"
    and r: "sweep (check_session E n m) ss w1 = Some (ss1, w')" and e: "ss' = (if del then ss1 else s1 # ss1)"
    by (auto simp: bind_eq_Some_conv)
  show ?case using check_session_ended [OF c] Cons.IH [OF r] Cons.prems(2) e by auto
qed simp

lemma count_sessions_ended:
  "count_sessions E ss w = Some (n, recheck, ss', w') \<Longrightarrow> \<forall>s \<in> set ss. sess_inv s \<and> ended s \<Longrightarrow>
     n = 0 \<and> (\<forall>s \<in> set ss'. sess_inv s \<and> ended s)"
proof (induction ss arbitrary: w n recheck ss')
  case (Cons s ss)
  from Cons.prems(1) obtain rc s1 w1 where m: "monitor_session E s w = Some (rc, s1, w1)"
    by (cases "monitor_session E s w") auto
  from Cons.prems(1) m obtain n1 rcs ss1 where r: "count_sessions E ss w1 = Some (n1, rcs, ss1, w')"
    and e: "n = n1 + (if live s then 1 else 0)" "ss' = s1 # ss1"
    by (cases "count_sessions E ss w1") auto
  have s: "sess_inv s" "ended s" using Cons.prems(2) by simp_all
  note ch = monitor_session_change [OF m s(1)]
  have "ended s1"
  proof (cases "\<exists>c. s = TCP c")
    case True
    then obtain c where c: "s = TCP c" by blast
    with m obtain c1 where "s1 = TCP c1" by (auto simp: monitor_session_def bind_eq_Some_conv split: if_splits)
    then show ?thesis using ch ended_not_live [OF s(2)] by simp
  next
    case False
    with m s(2) show ?thesis by (auto simp: monitor_session_def split: session.splits)
  qed
  moreover have "sess_inv s1" using ch by blast
  moreover have "n1 = 0 \<and> (\<forall>s \<in> set ss1. sess_inv s \<and> ended s)"
    by (rule Cons.IH [OF r]) (use Cons.prems(2) in simp)
  ultimately show ?case using e ended_not_live [OF s(2)] by simp
qed simp

section \<open>The reachable states\<close>

text \<open>
  The states between the steps of the engine, over all starts and stops in the life of the process:
  \<open>check_allowed\<close> at a start, turns of the loop, \<open>clear\<close> at the end; between them calls that only take an
  answer, and the end of the \<open>epoll\<close> instance.
\<close>

inductive engine :: "session list \<Rightarrow> world \<Rightarrow> bool" where
  fresh: "w_trace w = [] \<Longrightarrow> engine init w"
| started: "engine ss w \<Longrightarrow> check_allowed E ss w = Some (ss', w') \<Longrightarrow> engine ss' w'"
| turned: "engine (lp_sessions st) (lp_world st) \<Longrightarrow> turn E args tun m st = Some (o1, st') \<Longrightarrow>
    engine (lp_sessions st') (lp_world st')"
| cleared: "engine ss w \<Longrightarrow> clear ss w = (ss', w') \<Longrightarrow> engine ss' w'"
| elapsed: "engine ss w \<Longrightarrow> engine ss (tick w)"
| unwatched: "engine ss w \<Longrightarrow> engine ss (emit (EpollClose fd) w)"

lemma register_closes: "foldl register1 R (map SockClose fds) = {r \<in> R. fst r \<notin> set fds}"
  by (induction fds arbitrary: R) (auto simp: register1_def)

lemma closed_closes: "closed (map SockClose fds) = fds" "opened (map SockClose fds) = []"
  by (induction fds) simp_all

lemma clear_account:
  assumes "clear ss w = (ss', w')" "sound ss w"
  shows "ss' = [] \<and> closed (w_trace w') = closed (w_trace w) @ held sess_socket ss
    \<and> opened (w_trace w') = opened (w_trace w) \<and> registered (w_trace w') = {} \<and> sound ss' w'
    \<and> mset (closed (w_trace w')) \<subseteq># mset (opened (w_trace w'))"
proof -
  from clear_spec [OF assms(1)] have e: "ss' = []"
    and l: "ledger (w_trace w') = ledger (w_trace w) @ map SockClose (held sess_socket ss)" by simp_all
  note a = ledger_appended [OF l, unfolded closed_closes register_closes]
  have "fst r \<in> set (held sess_socket ss)" if "r \<in> registered (w_trace w)" for r
  proof -
    have "registered (w_trace w) \<subseteq> descriptors ss" using assms(2) by (simp add: sound_def accounted_def)
    with that show ?thesis by (auto simp: held_def)
  qed
  then have "registered (w_trace w') = {}" using a(3) by auto
  moreover have "mset (held sess_socket ss) + mset (closed (w_trace w)) \<subseteq># mset (opened (w_trace w))"
    using assms(2) by (simp add: sound_def accounted_def)
  ultimately show ?thesis using e a(1,2) by (simp add: sound_def accounted_def ac_simps)
qed

lemma engine_keeps: "engine ss w \<Longrightarrow> sound ss w"
proof (induction rule: engine.induct)
  case (fresh w)
  then show ?case using sound_Nil by (simp add: init_def)
next
  case (started ss w E ss' w')
  then show ?case using check_allowed_sound [OF started(2)] by simp
next
  case (turned st E args tun m o1 st')
  then show ?case using turn_sound [OF turned(2)] by simp
next
  case (cleared ss w ss' w')
  then show ?case using clear_account [OF cleared(2)] by blast
next
  case (elapsed ss w)
  then show ?case using sound_trace [of "tick w" w ss] by simp
next
  case (unwatched ss w fd)
  then show ?case
    using ledger_same [of "w_trace w @ [EpollClose fd]" "w_trace w"] by (simp add: sound_def accounted_def)
qed


section \<open>A run of the engine\<close>

text \<open>
  Two turns, for the witnesses: a datagram comes out of the tunnel and opens a session, then the answer arrives
  at its socket and is written to the tunnel.
\<close>

definition busy :: env where
  "busy = calm\<lparr>e_epoll_wait := \<lambda>n. Inr (if n = 12 then [(TunReady, EPOLLIN)] else if n = 25 then [(SessReady 17, EPOLLIN)] else []),
     e_poll := \<lambda>n fd. if n = 13 \<or> n = 26 then (1, 1) else (0, 0),
     e_tun_read := \<lambda>n. Inr sample_ip, e_recv := \<lambda>n fd. Inr [65]\<rparr>"

definition busy_session :: "udp_session ng_session" where
  "busy_session = \<lparr>ng_k = \<lparr>u_time = 1000, u_uid = - 1, u_version = 4, u_mss = 65507, u_sent = 0, u_received = 0,
     u_saddr = [10, 1, 10, 1], u_source = 4, u_daddr = [8, 8, 8, 8], u_dest = 0x5000, u_state = UDP_ACTIVE\<rparr>,
     ng_socket = 9, ng_ev = 9, ng_ptr = 17\<rparr>"

lemma sample_ip_reads:
  "rd8 (sample_ip @ r) 0 = Some 0x45" "rd16 (sample_ip @ r) 20 = Some 4" "rd16 (sample_ip @ r) 22 = Some 0x5000"
  "pkt_addrs 4 (sample_ip @ r) = Some ([10, 1, 10, 1], [8, 8, 8, 8])"
  "parse_ip (sample_ip @ r) 28 = Some (Some (4, IPPROTO_UDP, 20))"
  "ip_ports (sample_ip @ r) 28 IPPROTO_UDP 20 = Some (Some (1024, 80, False))"
  "has_udp_session args (sample_ip @ r) 20 [] = Some False"
  "drop 28 (sample_ip @ r) = r"
  by (simp_all add: parse_ip_def parse_ip4_def sample_ip_def rd8_def rd16_def le16_def IP_MF_def pkt_addrs_def
      rd_block_def ip_ports_def protocols has_udp_session_def ntohs_def)

lemma busy_handle_ip:
  "handle_ip busy sample_args (sample_ip @ r) 28 0 1000 [] \<lparr>w_tick = 15, w_trace = []\<rparr>
     = Some ([UDP busy_session], \<lparr>w_tick = 23, w_trace = [SockOpen 9 4, EpollAdd 9 9 17, SockSendTo 9 [] [8, 8, 8, 8] 0x5000 (Inr 0)]\<rparr>)"
proof -
  have x: "size_sub 28 28 = 0" "unat (drop_bit 4 (0x45 :: u8)) = 4" "length sample_ip = 28"
    by (simp_all add: size_sub_def sample_ip_def)
  have p: "IPPROTO_UDP \<noteq> IPPROTO_ICMP" "IPPROTO_UDP \<noteq> IPPROTO_ICMPV6" "IPPROTO_UDP \<noteq> IPPROTO_TCP"
    by (simp_all add: protocols)
  have e: "e_proc busy n a b = None" "e_socket busy n = Inr 9" "e_protect busy n fd" "\<not> e_epoll_ctl busy n fd"
    "e_sendto busy n fd = Inr 100000" "e_time busy n = 1000" for n a b fd
    by (simp_all add: busy_def calm_def)
  have u: "get_uid busy 4 IPPROTO_UDP sp da dp \<lparr>w_tick = 15, w_trace = []\<rparr> = (- 1, \<lparr>w_tick = 17, w_trace = []\<rparr>)" for sp da dp
    by (simp add: get_uid_def get_uid_sub_def e tick_def)
  have n: "udp_new_session busy 4 4 0x5000 [10, 1, 10, 1] [8, 8, 8, 8] (- 1) \<lparr>w_tick = 17, w_trace = []\<rparr>
      = (Some busy_session, \<lparr>w_tick = 21, w_trace = [SockOpen 9 4, EpollAdd 9 9 17]\<rparr>)"
    by (simp add: udp_new_session_def open_udp_socket_def sys_defs e ip4_def busy_session_def epoll_bits UDP4_MAXMSG_def
        tick_def emit_def)
  have f: "udp_forward busy 4 0x5000 r 0 busy_session \<lparr>w_tick = 21, w_trace = [SockOpen 9 4, EpollAdd 9 9 17]\<rparr>
      = Some (busy_session, \<lparr>w_tick = 23, w_trace = [SockOpen 9 4, EpollAdd 9 9 17, SockSendTo 9 [] [8, 8, 8, 8] 0x5000 (Inr 0)]\<rparr>)"
    by (simp add: udp_forward_def udp_send_def sys_defs e ip4_def busy_session_def ntohs_def le16_def rd_block_def tick_def emit_def)
  have h: "handle_udp busy (sample_ip @ r) 28 20 (- 1) [] \<lparr>w_tick = 17, w_trace = []\<rparr>
     = Some ([UDP busy_session], \<lparr>w_tick = 23, w_trace = [SockOpen 9 4, EpollAdd 9 9 17, SockSendTo 9 [] [8, 8, 8, 8] 0x5000 (Inr 0)]\<rparr>)"
    by (simp add: handle_udp_def sample_ip_reads x n f extract_Nil_code)
  show ?thesis
    by (simp add: handle_ip_def sample_ip_reads opens_session_def dispatch_def p u h)
qed

lemma busy_session_simps [simp]: "ng_socket busy_session = 9" "ng_ptr busy_session = 17" "u_dest (ng_k busy_session) = 0x5000"
  "u_mss (ng_k busy_session) = 65507" "u_state (ng_k busy_session) = UDP_ACTIVE"
  by (simp_all add: busy_session_def)

definition opened_world :: world where
  "opened_world = \<lparr>w_tick = 24, w_trace = [SockOpen 9 4, EpollAdd 9 9 17, SockSendTo 9 [] [8, 8, 8, 8] 0x5000 (Inr 0)]\<rparr>"

lemma busy_fields [simp]:
  "e_epoll_wait busy n = Inr (if n = 12 then [(TunReady, EPOLLIN)] else if n = 25 then [(SessReady 17, EPOLLIN)] else [])"
  "e_poll busy n fd = (if n = 13 \<or> n = 26 then (1, 1) else (0, 0))"
  "e_tun_read busy n = Inr sample_ip" "e_recv busy n fd = Inr [65]" "e_time busy n = 1000" "e_ms busy n = 5000"
  "e_tun_write busy n b = int (length b)"
  by (simp_all add: busy_def calm_def)

lemma busy_check_tun:
  "check_tun busy sample_args EPOLLIN 0 1000 [] \<lparr>w_tick = 14, w_trace = []\<rparr>
     = Some (0, [UDP busy_session], opened_world\<lparr>w_tick := 23\<rparr>)"
proof -
  have t: "take (unat get_mtu) sample_ip = sample_ip" by (simp add: get_mtu_def MTU_def sample_ip_def)
  have l: "length sample_ip = 28" "sample_ip \<noteq> []" by (simp_all add: sample_ip_def)
  show ?thesis
    using busy_handle_ip
    by (simp add: check_tun_def tun_read_def epoll_bits t l allocated_def tick_def opened_world_def)
qed

lemma busy_drain_tun:
  "drain_tun busy sample_args 3 EPOLLIN 0 1000 [] \<lparr>w_tick = 13, w_trace = []\<rparr>
     = Some (False, [UDP busy_session], opened_world)"
proof -
  have r: "is_readable busy 3 \<lparr>w_tick = 13, w_trace = []\<rparr> = (True, \<lparr>w_tick = 14, w_trace = []\<rparr>)"
    "is_readable busy 3 (opened_world\<lparr>w_tick := 23\<rparr>) = (False, opened_world)"
    by (simp_all add: is_readable_def is_event_def tick_def opened_world_def Let_def)
  show ?thesis
    by (subst drain_tun.simps) (simp add: r busy_check_tun, subst drain_tun.simps, simp add: r)
qed

lemma busy_turn1:
  "turn busy sample_args 3 1000 \<lparr>lp_sessions = [], lp_last_check = 0, lp_world = \<lparr>w_tick = 10, w_trace = []\<rparr>\<rparr>
     = Some (Go, \<lparr>lp_sessions = [UDP busy_session], lp_last_check = 5000, lp_world = opened_world\<rparr>)"
  by (simp add: turn_def prepare_def get_ms_def sys_time_def epoll_wait_def timeouts start_def Let_def EPOLL_EVENTS_def
      handle_event_def tick_def busy_drain_tun)

definition busy_answer :: bytes where
  "busy_answer = udp_packet (ng_k busy_session) [65]"

lemma length_busy_answer: "length busy_answer = 29"
  by (simp add: busy_answer_def udp_packet_def busy_session_def ip_part_def udp_header_def bytes16_def ip4_def Let_def)

definition answered_world :: world where
  "answered_world = \<lparr>w_tick = 31, w_trace = w_trace opened_world @ [TunWrite busy_answer]\<rparr>"

definition answered_session :: "udp_session ng_session" where
  "answered_session = busy_session\<lparr>ng_k := (ng_k busy_session)\<lparr>u_received := 1\<rparr>\<rparr>"

lemma busy_drain_udp:
  "drain_udp busy EPOLLIN busy_session (opened_world\<lparr>w_tick := 26\<rparr>) = Some (answered_session, answered_world)"
proof -
  have r: "is_readable busy 9 (opened_world\<lparr>w_tick := 26\<rparr>) = (True, opened_world\<lparr>w_tick := 27\<rparr>)"
    "is_readable busy 9 (answered_world\<lparr>w_tick := 30\<rparr>) = (False, answered_world)"
    by (simp_all add: is_readable_def is_event_def tick_def opened_world_def answered_world_def Let_def)
  note l = length_busy_answer
  have p: "udp_packet (ng_k busy_session\<lparr>u_time := 1000, u_received := 1\<rparr>) [65] = busy_answer"
    by (simp add: busy_answer_def udp_packet_def busy_session_def)
  have c: "check_udp_socket busy EPOLLIN busy_session (opened_world\<lparr>w_tick := 27\<rparr>) = Some (answered_session, answered_world\<lparr>w_tick := 30\<rparr>)"
    using l p
    by (simp add: check_udp_socket_def sys_time_def sys_recv_def write_udp_def tun_write_def epoll_bits ntohs_def le16_def
      ssize_to_size_def tick_def emit_def opened_world_def answered_world_def answered_session_def busy_session_def Let_def)
  have e: "EPOLLIN AND EPOLLERR = 0" "EPOLLIN AND EPOLLIN \<noteq> 0" "EPOLLIN \<noteq> 0" "ng_socket answered_session = 9"
    by (simp_all add: epoll_bits answered_session_def)
  show ?thesis
    by (subst drain_udp.simps) (simp add: r c e, subst drain_udp.simps, simp add: r e)
qed

lemma busy_turn2:
  "turn busy sample_args 3 1000 \<lparr>lp_sessions = [UDP busy_session], lp_last_check = 5000, lp_world = opened_world\<rparr>
     = Some (Go, \<lparr>lp_sessions = [UDP answered_session], lp_last_check = 5000, lp_world = answered_world\<rparr>)"
proof -
  have x: "List.extract (\<lambda>s. sess_ptr s = 17) [UDP busy_session] = Some ([], UDP busy_session, [])"
    by (simp add: extract_Cons_code)
  show ?thesis
  by (simp add: turn_def prepare_def get_ms_def sys_time_def epoll_wait_def timeouts opened_world_def Let_def EPOLL_EVENTS_def
      handle_event_def tick_def monitor_session_def x session_event_def busy_drain_udp [unfolded opened_world_def, simplified])
qed

lemma busy_opened: "engine [UDP busy_session] opened_world"
proof -
  have "engine init \<lparr>w_tick = 10, w_trace = []\<rparr>" by (rule engine.fresh) simp
  then have "engine [] \<lparr>w_tick = 10, w_trace = []\<rparr>" by (simp add: init_def)
  with engine.turned [OF _ busy_turn1] show ?thesis by simp
qed

lemma busy_engine: "engine [UDP answered_session] answered_world"
  using engine.turned [OF _ busy_turn2] busy_opened by simp

section \<open>Times\<close>

text \<open>What a wait of \<open>t\<close> seconds that starts at \<open>now\<close> owes to a session.\<close>

definition in_time :: "int \<Rightarrow> int \<Rightarrow> int \<Rightarrow> int \<Rightarrow> session \<Rightarrow> bool" where
  "in_time n m now t s \<longleftrightarrow>
     (live s \<longrightarrow> (\<exists>d. sess_timeout s n m = Some d
        \<and> (0 < to_int32 (sess_time s + d - now + 1) \<longrightarrow> t \<le> to_int32 (sess_time s + d - now + 1))))"

lemma shorten_spec:
  assumes "shorten n m now t0 s = Some t" "0 < t0"
  shows "0 < t \<and> t \<le> t0 \<and> (\<forall>t' \<le> t. in_time n m now t' s)"
  using assms by (cases "sess_timeout s n m") (auto simp: shorten_def in_time_def Let_def split: if_splits)

lemma check_sessions_timeout:
  "check_sessions E n m now t0 ss w = Some (t, ss', w') \<Longrightarrow> 0 < t0 \<Longrightarrow>
     0 < t \<and> t \<le> t0 \<and> (\<forall>s \<in> set ss'. in_time n m now t s)"
proof (induction ss arbitrary: t0 w ss')
  case (Cons s ss)
  from Cons.prems(1) obtain del s1 w1 where c: "check_session E n m s w = Some (del, s1, w1)"
    by (cases "check_session E n m s w") auto
  let ?t = "if live s1 \<and> \<not> del then shorten n m now t0 s1 else Some t0"
  from Cons.prems(1) c obtain t1 where t1: "?t = Some t1" by (cases ?t) (auto split: if_splits)
  from Cons.prems(1) c t1 obtain ss1 where r: "check_sessions E n m now t1 ss w1 = Some (t, ss1, w')"
    and e: "ss' = (if del then ss1 else s1 # ss1)"
    by (cases "check_sessions E n m now t1 ss w1") (auto split: if_splits)
  have b: "0 < t1 \<and> t1 \<le> t0 \<and> (\<not> del \<longrightarrow> (\<forall>t' \<le> t1. in_time n m now t' s1))"
    using t1 Cons.prems(2) shorten_spec [of n m now t0 s1 t1]
    by (cases "live s1 \<and> \<not> del") (auto simp: in_time_def split: if_splits)
  then have "0 < t \<and> t \<le> t1 \<and> (\<forall>s \<in> set ss1. in_time n m now t s)" using Cons.IH [OF r] by blast
  then show ?case using b e by auto
qed simp

section \<open>Properties\<close>

text \<open>
  C21. The time to wait is never endless and never a busy loop: between 100 milliseconds and an hour. When it is
  longer than the shortest one, every live session has a timeout, and the wait ends no later than the moment
  at which a session that still has time left times out.
\<close>

theorem wait_bounded:
  assumes "prepare E m st = Some (n, wait, st')"
  shows "EPOLL_MIN_CHECK \<le> wait \<and> wait \<le> EPOLL_TIMEOUT * 1000
    \<and> (EPOLL_MIN_CHECK < wait \<longrightarrow>
        (\<exists>k t. wait = t * 1000 \<and> (\<forall>s \<in> set (lp_sessions st'). in_time n m (e_time E k) t s)))"
  using assms
proof (cases rule: prepare_steps)
  case (1 recheck ss w)
  then show ?thesis by (simp add: timeouts)
next
  case (2 recheck ss w w1 now t)
  from check_sessions_timeout [OF 2(4)]
  have "0 < t \<and> t \<le> EPOLL_TIMEOUT \<and> (\<forall>s \<in> set (lp_sessions st'). in_time n m now t s)" by (simp add: timeouts)
  then show ?thesis using 2(3,5) by (auto simp: timeouts)
qed

definition sample_world :: world where
  "sample_world = start\<lparr>w_trace := [SockOpen 9 4, EpollAdd 9 1 1]\<rparr>"

lemma sample_sound: "sound [ICMP sample_icmp] sample_world"
proof -
  have s: "ng_socket sample_icmp = 9" "ng_ptr sample_icmp = 1" by (simp_all add: sample_icmp_def)
  have "{s. s = ICMP sample_icmp \<and> 0 \<le> sess_socket s} = {ICMP sample_icmp}" using s by auto
  then show ?thesis
    using s by (simp add: sound_def icmp_inv_def sample_world_def accounted_def registered_def register1_def)
qed

lemma sample_prepare:
  "prepare calm 100 \<lparr>lp_sessions = [ICMP sample_icmp], lp_last_check = 0, lp_world = sample_world\<rparr>
     = Some (1, 15000, \<lparr>lp_sessions = [ICMP sample_icmp], lp_last_check = 5000,
                       lp_world = sample_world\<lparr>w_tick := 3\<rparr>\<rparr>)"
proof -
  have s: "i_stop (ng_k sample_icmp) = False" "i_time (ng_k sample_icmp) = 1000" by (simp_all add: sample_icmp_def)
  have e: "e_ms calm k = 5000" "e_time calm k = 1000" for k by (simp_all add: calm_def)
  have t: "get_icmp_timeout (ng_k sample_icmp) 1 100 = Some 14"
    by (simp add: get_icmp_timeout_def scale_timeout_def timeouts Let_def)
  have k: "to_int32 15 = 15" by (simp add: to_int32_id)
  show ?thesis
    by (simp add: prepare_def monitor_session_def s e t k get_ms_def sys_time_def check_icmp_session_def shorten_def
        timeouts sample_world_def start_def Let_def)
qed

theorem wait_bounded_witness:
  "\<exists>w. prepare calm 100 \<lparr>lp_sessions = [ICMP sample_icmp], lp_last_check = 0, lp_world = sample_world\<rparr>
     = Some (1, 15000, \<lparr>lp_sessions = [ICMP sample_icmp], lp_last_check = 5000, lp_world = w\<rparr>)
    \<and> (\<exists>k. in_time 1 100 (e_time calm k) 15 (ICMP sample_icmp))"
proof -
  note p = sample_prepare
  from wait_bounded [OF p] p show ?thesis by (auto simp: timeouts)
qed

text \<open>
  The limit of sessions is two fifths of the limit of open files, at most 1000, as long as the product fits:
  for fewer than three files it is zero, and for the largest value, an unlimited number of files, the
  conversion to \<open>int\<close> makes it negative, so that it is reached at once.
\<close>

theorem maxsessions_of_files:
  assumes "e_rlimit E (w_tick w) = r"
  shows "fst (get_maxsessions E w) \<le> 1000
    \<and> (r < 2 ^ 32 \<longrightarrow> fst (get_maxsessions E w) = min 1000 (int (r * 40 div 100)))
    \<and> (r < 3 \<longrightarrow> fst (get_maxsessions E w) = 0)
    \<and> (r = 2 ^ 64 - 1 \<longrightarrow> fst (get_maxsessions E w) < 0)"
proof -
  let ?k = "to_int32 (int ((r * 40) mod 2 ^ 64 div 100))"
  have v: "fst (get_maxsessions E w) = (if ?k > 1000 then 1000 else ?k)"
    using assms by (simp add: get_maxsessions_def SESSION_LIMIT_def Let_def)
  have small: "?k = int (r * 40 div 100)" if "r < 2 ^ 32"
  proof -
    have "(r * 40) mod 2 ^ 64 = r * 40" using that by simp
    moreover have "r * 40 div 100 < 2 ^ 31" using that by simp
    ultimately show ?thesis by (simp add: to_int32_id)
  qed
  have zero: "r * 40 div 100 = 0" if "r < 3" using that by simp
  have big: "?k = - 171798693" if "r = 2 ^ 64 - 1"
    unfolding that by (simp add: to_int32_def signed_take_bit_eq_take_bit_shift take_bit_eq_mod)
  show ?thesis unfolding v using small zero big by auto
qed

theorem maxsessions_of_files_witness:
  "fst (get_maxsessions calm start) = 1000
    \<and> fst (get_maxsessions (calm\<lparr>e_rlimit := \<lambda>n. 1024\<rparr>) start) = 409
    \<and> fst (get_maxsessions (calm\<lparr>e_rlimit := \<lambda>n. 2 ^ 64 - 1\<rparr>) start) < 0"
  using maxsessions_of_files [of calm start 2500] maxsessions_of_files [of "calm\<lparr>e_rlimit := \<lambda>n. 1024\<rparr>" start 1024]
    maxsessions_of_files [of "calm\<lparr>e_rlimit := \<lambda>n. 2 ^ 64 - 1\<rparr>" start "2 ^ 64 - 1"]
  by (simp add: calm_def)

text \<open>
  C1. In every state the engine can reach, over any number of starts, turns and stops and whatever the kernel,
  the clock and the network answer: every session satisfies the invariant of its protocol; the descriptors
  that the sessions hold were opened and not yet closed, each by one session; and \<open>epoll\<close> only watches
  descriptors of sessions that exist, registered with their addresses.
\<close>

theorem engine_sound:
  assumes "engine ss w"
  shows "(\<forall>s \<in> set ss. sess_inv s)
    \<and> mset (held sess_socket ss) + mset (closed (w_trace w)) \<subseteq># mset (opened (w_trace w))
    \<and> (\<forall>(fd, p) \<in> registered (w_trace w). \<exists>s \<in> set ss. sess_socket s = fd \<and> sess_ptr s = p \<and> 0 \<le> fd)"
proof -
  have s: "sound ss w" by (rule engine_keeps [OF assms])
  then have r: "registered (w_trace w) \<subseteq> descriptors ss" by (simp add: sound_def accounted_def)
  have "\<exists>s \<in> set ss. sess_socket s = fd \<and> sess_ptr s = p \<and> 0 \<le> fd" if "(fd, p) \<in> registered (w_trace w)" for fd p
    using r that by auto
  then show ?thesis using s by (auto simp: sound_def accounted_def)
qed

theorem engine_sound_witness:
  "\<exists>w. engine [UDP answered_session] w \<and> TunWrite busy_answer \<in> set (w_trace w) \<and> (9, 17) \<in> registered (w_trace w)
    \<and> (\<exists>s \<in> {UDP answered_session}. sess_socket s = 9 \<and> sess_ptr s = 17)
    \<and> mset (held sess_socket [UDP answered_session]) + mset (closed (w_trace w)) \<subseteq># mset (opened (w_trace w))"
proof -
  have "(9, 17) \<in> registered (w_trace answered_world)"
    by (simp add: answered_world_def opened_world_def registered_def register1_def)
  with engine_sound [OF busy_engine] busy_engine show ?thesis
    by (intro exI [of _ answered_world]) (auto simp: answered_world_def)
qed

text \<open>
  No event refers to a session that was freed: what was registered when the wait returned names a session
  of the list, and it still does when the events before it in the same batch have been handled, so that the
  handler always finds the session of its event.
\<close>

theorem event_session_live:
  assumes "sound ss w" and "(fd, p) \<in> registered (w_trace w)"
    and "handle_all E args tun n m es ss w = Some (o1, ss1, w1)"
  shows "\<exists>before s behind. List.extract (\<lambda>s. sess_ptr s = p) ss1 = Some (before, s, behind)
    \<and> sess_ptr s = p \<and> handle_event E args tun n m (SessReady p, ev) ss1 w1
        = do { (s, w) \<leftarrow> session_event E ev s w1; Some (Go, before @ s # behind, w) }"
proof -
  have "p \<in> sess_ptr ` set ss" using assms(1,2) by (auto simp: sound_def accounted_def)
  then have "p \<in> sess_ptr ` set ss1" using handle_all_keeps [OF assms(3)] assms(1) by (auto simp: keeps_def)
  then have "List.extract (\<lambda>s. sess_ptr s = p) ss1 \<noteq> None" by (auto simp: extract_None_iff)
  then obtain before s behind where x: "List.extract (\<lambda>s. sess_ptr s = p) ss1 = Some (before, s, behind)" by auto
  then have "sess_ptr s = p" by (simp add: extract_Some_iff)
  with x show ?thesis by (simp add: handle_event_def)
qed

theorem event_session_live_witness:
  "(9, 1) \<in> registered (w_trace sample_world)
    \<and> (\<exists>before s behind. List.extract (\<lambda>s. sess_ptr s = 1) [ICMP sample_icmp] = Some (before, s, behind))"
proof -
  have r: "(9, 1) \<in> registered (w_trace sample_world)"
    by (simp add: sample_world_def registered_def register1_def)
  have h: "handle_all calm sample_args 3 1 100 [] [ICMP sample_icmp] sample_world = Some (Go, [ICMP sample_icmp], sample_world)"
    by simp
  from event_session_live [OF sample_sound r h] r show ?thesis by blast
qed

text \<open>
  When the engine ends, \<open>clear\<close> empties the list and closes exactly the descriptors that the sessions
  held, once each; nothing stays registered.
\<close>

theorem clear_closes_all:
  assumes "clear ss w = (ss', w')" and "sound ss w"
  shows "ss' = [] \<and> closed (w_trace w') = closed (w_trace w) @ held sess_socket ss
    \<and> registered (w_trace w') = {} \<and> mset (closed (w_trace w')) \<subseteq># mset (opened (w_trace w'))"
  using clear_account [OF assms] by blast

theorem clear_closes_all_witness:
  "\<exists>w'. clear [ICMP sample_icmp] sample_world = ([], w') \<and> closed (w_trace w') = [9] \<and> registered (w_trace w') = {}"
proof -
  have s: "ng_socket sample_icmp = 9" by (simp add: sample_icmp_def)
  obtain ss' w' where c: "clear [ICMP sample_icmp] sample_world = (ss', w')" by fastforce
  from clear_closes_all [OF c sample_sound] c s show ?thesis by (simp add: sample_world_def)
qed

text \<open>
  C17. A restart ends every session of the run before: \<open>check_allowed\<close> leaves no live one, and the first
  check of the new loop counts none and closes the socket of each, so that all descriptors the sessions held
  are closed before the first event is handled.
\<close>

theorem restart_drops_sessions:
  assumes "check_allowed E ss w = Some (ss1, w1)" and "sound ss w" and "w_trace w2 = w_trace w1"
    and "prepare E m \<lparr>lp_sessions = ss1, lp_last_check = 0, lp_world = w2\<rparr> = Some (n, wait, st')"
    and "\<forall>k. EPOLL_MIN_CHECK < e_ms E k"
  shows "n = 0 \<and> (\<forall>s \<in> set (lp_sessions st'). \<not> live s \<and> sess_socket s < 0)
    \<and> mset (closed (w_trace (lp_world st'))) = mset (closed (w_trace w)) + mset (held sess_socket ss)
    \<and> opened (w_trace (lp_world st')) = opened (w_trace w)"
proof -
  from assms(2) have i: "\<forall>s \<in> set ss. sess_inv s" by (simp add: sound_def)
  note a = check_allowed_spec [OF assms(1) i]
  from assms(4) show ?thesis
  proof (cases rule: prepare_steps)
    case (1 recheck ss2 w3)
    have "EPOLL_MIN_CHECK < e_ms E (w_tick w3)" using assms(5) by blast
    then show ?thesis using 1(6) by simp
  next
    case (2 recheck ss2 w3 w4 now t)
    have c: "count_sessions E ss1 w2 = Some (n, recheck, ss2, w3)" using 2(1) by simp
    have "sound ss1 w2" using check_allowed_sound [OF assms(1,2)] sound_trace [OF assms(3)] by simp
    then have "sound ([] @ ss1) w2" by simp
    note cs = count_sessions_sound [OF c this]
    then have q: "held sess_socket ss2 = held sess_socket ss1" by (simp add: held_def)
    have l: "ledger (w_trace w4) = ledger (w_trace w)"
      using cs 2(2) assms(3) quiet_ledger [of w w1] a by simp
    have e: "n = 0 \<and> (\<forall>s \<in> set ss2. sess_inv s \<and> ended s)"
      by (rule count_sessions_ended [OF c]) (use a in simp)
    have sw: "sweep (check_session E n m) ss2 w4 = Some (lp_sessions st', lp_world st')"
      by (rule check_sessions_sweep [OF 2(4)])
    have none: "\<forall>s \<in> set (lp_sessions st'). sess_socket s < 0 \<and> ended s"
      by (rule sweep_ended [OF sw]) (use e in blast)
    then have h: "held sess_socket (lp_sessions st') = []" by (auto simp: held_def filter_empty_conv)
    from all_check.sweep_spec [OF _ sw, of "[]"] e obtain cl where
      cl: "ledger (w_trace (lp_world st')) = ledger (w_trace w4) @ map SockClose cl"
      "mset (held sess_socket ss2) = mset cl" unfolding h by auto
    from ledger_appended [OF cl(1)] ledger_same [OF l] cl(2) q a none e ended_not_live show ?thesis
      by (simp add: closed_closes)
  qed
qed

lemma sample_allowed:
  "check_allowed calm [ICMP sample_icmp] sample_world
     = Some ([ICMP (sample_icmp\<lparr>ng_k := (ng_k sample_icmp)\<lparr>i_stop := True\<rparr>\<rparr>)], sample_world)"
  by (simp add: sample_icmp_def)

theorem restart_drops_sessions_witness:
  "\<exists>ss1 w1 wait st'. check_allowed calm [ICMP sample_icmp] sample_world = Some (ss1, w1)
    \<and> prepare calm 100 \<lparr>lp_sessions = ss1, lp_last_check = 0, lp_world = w1\<rparr> = Some (0, wait, st')
    \<and> mset (closed (w_trace (lp_world st'))) = {#9#}"
proof -
  let ?c = "sample_icmp\<lparr>ng_k := (ng_k sample_icmp)\<lparr>i_stop := True\<rparr>\<rparr>"
  have e: "e_ms calm k = 5000" "e_time calm k = 1000" for k by (simp_all add: calm_def)
  have s: "ng_socket sample_icmp = 9" by (simp add: sample_icmp_def)
  have "get_icmp_timeout x 0 100 = Some 15" for x by (simp add: get_icmp_timeout_def scale_timeout_def timeouts Let_def)
  then have "prepare calm 100 \<lparr>lp_sessions = [ICMP ?c], lp_last_check = 0, lp_world = sample_world\<rparr> \<noteq> None"
    by (auto simp: prepare_def monitor_session_def e get_ms_def sys_time_def check_icmp_session_def
        timeouts Let_def split: option.splits)
  then obtain n wait st' where
    p: "prepare calm 100 \<lparr>lp_sessions = [ICMP ?c], lp_last_check = 0, lp_world = sample_world\<rparr> = Some (n, wait, st')"
    by (cases "prepare calm 100 \<lparr>lp_sessions = [ICMP ?c], lp_last_check = 0, lp_world = sample_world\<rparr>") auto
  have "\<forall>k. EPOLL_MIN_CHECK < e_ms calm k" by (simp add: e timeouts)
  from restart_drops_sessions [OF sample_allowed sample_sound refl p this] p s show ?thesis
    unfolding sample_allowed by (auto simp: sample_world_def)
qed

text \<open>
  C20. Stopping works: when the stop pipe is among the events of a wait and the events before it are handled, the
  loop ends with that turn, in the state these events left, and the events after it are not looked at.
\<close>

theorem stop_ends_loop:
  assumes "prepare E m st = Some (n, wait, st1)"
    and "e_epoll_wait E (w_tick (lp_world st1)) = Inr (es @ (PipeReady, ev) # rest)"
    and "length es < EPOLL_EVENTS"
    and "handle_all E args tun n m es (lp_sessions st1) (tick (lp_world st1)) = Some (Go, ss, w)"
  shows "event_loop E args tun m st = Some (st1\<lparr>lp_sessions := ss, lp_world := tick w\<rparr>)"
proof -
  have app: "handle_all E args tun n m (es @ (PipeReady, ev) # r) ss0 w0 = Some (Stop, ss, tick w)"
    if "handle_all E args tun n m es ss0 w0 = Some (Go, ss, w)" for r ss0 w0
    using that
  proof (induction es arbitrary: ss0 w0)
    case (Cons e es)
    from Cons.prems obtain o2 ss1 w1 where h: "handle_event E args tun n m e ss0 w0 = Some (o2, ss1, w1)"
      and r: "(if o2 = Go then handle_all E args tun n m es ss1 w1 else Some (o2, ss1, w1)) = Some (Go, ss, w)"
      by (cases "handle_event E args tun n m e ss0 w0") auto
    from r have "o2 = Go" by (auto split: if_splits)
    with r Cons.IH [of ss1 w1] h show ?case by simp
  qed (simp add: handle_event_def)
  obtain r where t: "take EPOLL_EVENTS (es @ (PipeReady, ev) # rest) = es @ (PipeReady, ev) # r"
  proof -
    obtain k where "EPOLL_EVENTS = length es + Suc k" using assms(3) less_imp_Suc_add by fastforce
    then have "EPOLL_EVENTS - length es = Suc k" by simp
    then show ?thesis by (intro that [of "take k rest"]) simp
  qed
  have "epoll_wait E wait (lp_world st1) = (Inr (es @ (PipeReady, ev) # r), tick (lp_world st1))"
    unfolding epoll_wait_def assms(2) sum.case t ..
  then have "turn E args tun m st = Some (Stop, st1\<lparr>lp_sessions := ss, lp_world := tick w\<rparr>)"
    by (simp add: turn_def assms(1) app [OF assms(4)])
  then show ?thesis by (subst event_loop.simps) simp
qed

theorem stop_ends_loop_witness:
  "\<exists>st. event_loop (calm\<lparr>e_epoll_wait := \<lambda>n. Inr [(PipeReady, 1), (TunReady, 1)]\<rparr>) sample_args 3 1000
     \<lparr>lp_sessions = [], lp_last_check = 0, lp_world = start\<rparr> = Some st \<and> lp_sessions st = []"
proof -
  let ?E = "calm\<lparr>e_epoll_wait := \<lambda>n. Inr [(PipeReady, 1), (TunReady, 1)]\<rparr>"
  have p: "prepare ?E 1000 \<lparr>lp_sessions = [], lp_last_check = 0, lp_world = start\<rparr>
    = Some (0, 3600000, \<lparr>lp_sessions = [], lp_last_check = 5000, lp_world = start\<lparr>w_tick := 2\<rparr>\<rparr>)"
    by (simp add: prepare_def get_ms_def sys_time_def calm_def timeouts start_def Let_def)
  show ?thesis
    using stop_ends_loop [OF p, of "[]" 1 "[(TunReady, 1)]" sample_args 3 "[]"] by (simp add: EPOLL_EVENTS_def)
qed

lemma event_loop_sound:
  assumes "event_loop E args tun m st = Some st'"
  shows "st_sound st \<longrightarrow> st_sound st'"
proof (rule event_loop.raw_induct [OF _ assms])
  fix loop E args tun m st st'
  assume ih: "\<And>E args tun m st st'. loop E args tun m st = Some st' \<Longrightarrow> st_sound st \<longrightarrow> st_sound st'"
    and s: "do { (o1, st) \<leftarrow> turn E args tun m st; if o1 = Go then loop E args tun m st else Some st } = Some st'"
  from s obtain o1 st1 where t: "turn E args tun m st = Some (o1, st1)"
    and r: "(if o1 = Go then loop E args tun m st1 else Some st1) = Some st'"
    by (cases "turn E args tun m st") auto
  show "st_sound st \<longrightarrow> st_sound st'"
    using turn_sound [OF t] ih [of E args tun m st1 st'] r by (cases "o1 = Go") auto
qed


lemma thread_sound:
  assumes "handle_events E args tun ss w = Some (ss', w')" and "sound ss w"
  shows "sound ss' w'"
proof (cases "e_attach E")
  case False
  with assms show ?thesis by (simp add: handle_events_def)
next
  case True
  obtain m w1 where g: "get_maxsessions E w = (m, w1)" by (cases "get_maxsessions E w")
  then have w1: "w_trace w1 = w_trace w" by (auto simp: get_maxsessions_def Let_def)
  from assms(1) True g obtain ss2 w2 where a: "check_allowed E ss w1 = Some (ss2, w2)"
    by (cases "check_allowed E ss w1") (auto simp: handle_events_def)
  have "sound ss2 w2" using check_allowed_sound [OF a] sound_trace [OF w1] assms(2) by simp
  then have s2: "sound ss2 (tick (tick (tick w2)))" using sound_trace [of "tick (tick (tick w2))" w2 ss2] by simp
  have out: "sound ss3 (emit (EpollClose fd) w3)" if "sound ss3 w3" for ss3 fd w3
    using that ledger_same [of "w_trace w3 @ [EpollClose fd]" "w_trace w3"] by (simp add: sound_def accounted_def)
  let ?st = "\<lparr>lp_sessions = ss2, lp_last_check = 0, lp_world = tick (tick (tick w2))\<rparr>"
  let ?stop = "e_epoll_create E (w_tick w2) < 0 \<or> e_watch E (w_tick w2 + 1) \<or> e_watch E (w_tick w2 + 2)"
  show ?thesis
  proof (cases ?stop)
    case True
    then show ?thesis using assms(1) \<open>e_attach E\<close> g a s2 out [OF s2] by (auto simp: handle_events_def Let_def)
  next
    case False
    with assms(1) \<open>e_attach E\<close> g a obtain st' where l: "event_loop E args tun m ?st = Some st'"
      by (cases "event_loop E args tun m ?st") (auto simp: handle_events_def Let_def)
    have "st_sound st'" using event_loop_sound [OF l] s2 by simp
    then show ?thesis using assms(1) \<open>e_attach E\<close> g a False l out [of "lp_sessions st'" "lp_world st'"]
      by (auto simp: handle_events_def Let_def)
  qed
qed

text \<open>
  The thread keeps the account: if \<open>handle_events\<close> returns, whatever happened in its loop, the sessions it
  leaves for the next start or for \<open>clear\<close> are sound.
\<close>

theorem handle_events_sound:
  assumes "handle_events E args tun ss w = Some (ss', w')" and "sound ss w"
  shows "sound ss' w'"
  by (rule thread_sound [OF assms])

lemma sample_loop:
  "\<exists>st. event_loop (calm\<lparr>e_epoll_wait := \<lambda>n. Inr [(PipeReady, 1)]\<rparr>) sample_args 3 1000
     \<lparr>lp_sessions = [], lp_last_check = 0, lp_world = w\<rparr> = Some st"
proof -
  let ?E = "calm\<lparr>e_epoll_wait := \<lambda>n. Inr [(PipeReady, 1)]\<rparr>"
  have "\<exists>st. turn ?E sample_args 3 1000 \<lparr>lp_sessions = [], lp_last_check = 0, lp_world = w\<rparr> = Some (Stop, st)"
    by (simp add: turn_def prepare_def get_ms_def sys_time_def epoll_wait_def handle_event_def EPOLL_EVENTS_def
        calm_def timeouts Let_def)
  then show ?thesis by (subst event_loop.simps) auto
qed

lemma handle_events_sample:
  "\<exists>ss' w'. handle_events (calm\<lparr>e_epoll_wait := \<lambda>n. Inr [(PipeReady, 1)]\<rparr>) sample_args 3 [] start = Some (ss', w')"
proof -
  let ?E = "calm\<lparr>e_epoll_wait := \<lambda>n. Inr [(PipeReady, 1)]\<rparr>"
  have m: "get_maxsessions ?E start = (1000, start\<lparr>w_tick := 1\<rparr>)"
    by (simp add: get_maxsessions_def SESSION_LIMIT_def to_int32_id calm_def start_def Let_def)
  obtain st where l: "event_loop ?E sample_args 3 1000
      \<lparr>lp_sessions = [], lp_last_check = 0, lp_world = tick (tick (tick (start\<lparr>w_tick := 1\<rparr>)))\<rparr> = Some st"
    using sample_loop by blast
  have e: "e_attach ?E" "e_epoll_create ?E k = 5" "\<not> e_watch ?E k" for k by (simp_all add: calm_def)
  have "handle_events ?E sample_args 3 [] start \<noteq> None"
    using l by (simp add: handle_events_def e m Let_def)
  then show ?thesis by auto
qed

theorem handle_events_sound_witness:
  "\<exists>ss' w'. handle_events (calm\<lparr>e_epoll_wait := \<lambda>n. Inr [(PipeReady, 1)]\<rparr>) sample_args 3 [] start = Some (ss', w')
     \<and> sound ss' w'"
proof -
  obtain ss' w' where
    h: "handle_events (calm\<lparr>e_epoll_wait := \<lambda>n. Inr [(PipeReady, 1)]\<rparr>) sample_args 3 [] start = Some (ss', w')"
    using handle_events_sample by blast
  have "sound [] start" by (rule sound_Nil) (simp add: start_def)
  from handle_events_sound [OF h this] h show ?thesis by blast
qed

text \<open>
  An error on the socket of a UDP session is never collected: the loop that would call the handler
  requires that there is none, so the event changes nothing, though the handler itself would end the session.
\<close>

theorem udp_errors_ignored:
  assumes "ev AND EPOLLERR \<noteq> 0"
  shows "session_event E ev (UDP c) w = Some (UDP c, w)
    \<and> (\<exists>c' w'. check_udp_socket E ev c w = Some (c', w') \<and> u_state (ng_k c') = UDP_FINISHING)"
proof -
  have "drain_udp E ev c w = Some (c, w)" using assms by (subst drain_udp.simps) simp
  then show ?thesis using assms by (simp add: session_event_def check_udp_socket_def split: prod.splits)
qed

theorem udp_errors_ignored_witness:
  "session_event calm EPOLLERR (UDP sample_udp_ng) start = Some (UDP sample_udp_ng, start)"
proof -
  have "EPOLLERR AND EPOLLERR \<noteq> (0 :: u32)" by (simp add: EPOLLERR_def)
  from udp_errors_ignored [OF this] show ?thesis by blast
qed

text \<open>
  With a limit of zero, as few open files give it, the first check that is due while there is a session
  divides by zero, whatever the session.
\<close>

theorem zero_limit_undefined:
  assumes "lp_sessions st \<noteq> []" and "\<forall>k. EPOLL_MIN_CHECK < e_ms E k - lp_last_check st"
  shows "turn E args tun 0 st = None"
proof -
  have none: "check_session E n 0 s w = None" for n s w
    by (cases s) (simp_all add: check_icmp_session_def check_udp_session_def check_tcp_session_def
        get_icmp_timeout_def get_udp_timeout_def get_tcp_timeout_def scale_timeout_def split: prod.splits)
  have "prepare E 0 st = None"
  proof (rule ccontr)
    assume "prepare E 0 st \<noteq> None"
    then obtain n wait st' where p: "prepare E 0 st = Some (n, wait, st')" by auto
    then show False
    proof (cases rule: prepare_steps)
      case (1 recheck ss w)
      have "EPOLL_MIN_CHECK < e_ms E (w_tick w) - lp_last_check st" using assms(2) by blast
      then show ?thesis using 1(6) by simp
    next
      case (2 recheck ss w w1 now t)
      have "length ss' = length ss0" if "count_sessions E ss0 w0 = Some (k, r, ss', w')" for ss0 w0 k r ss' w'
        using that by (induction ss0 arbitrary: w0 k r ss') (auto simp: bind_eq_Some_conv)
      from this [OF 2(1)] assms(1) have "ss \<noteq> []" by auto
      then show ?thesis using 2(4) none by (cases ss) simp_all
    qed
  qed
  then show ?thesis by (simp add: turn_def)
qed

theorem zero_limit_undefined_witness:
  "turn calm sample_args 3 0 \<lparr>lp_sessions = [ICMP sample_icmp], lp_last_check = 0, lp_world = start\<rparr> = None"
proof -
  have "\<forall>k. EPOLL_MIN_CHECK < e_ms calm k - 0" by (simp add: calm_def timeouts)
  then show ?thesis using zero_limit_undefined by simp
qed


end
