(* ===== verification/Jni.thy ===== *)
theory Jni
  imports Events
begin

text \<open>
  \<open>tun2http.c\<close>: the entry points that the Java service calls to load, initialise, start, stop and end the
  engine, and the life of the process they make. A started thread runs \<open>handle_events\<close>; between its start
  and its end it alone touches the sessions, so that its run is one step, made when it is joined or when
  it ends by itself.
\<close>

section \<open>Entry points\<close>

definition JNI_VERSION_1_6 :: int where "JNI_VERSION_1_6 = 0x00010006"

text \<open>
  Loading raises the soft limit of open files to the hard one. The arguments tell whether the JVM, the
  reading and the setting of the limit answer; the limits are a pair of the soft and the hard one.
\<close>

definition JNI_OnLoad :: "bool \<Rightarrow> bool \<Rightarrow> bool \<Rightarrow> nat \<times> nat \<Rightarrow> int \<times> (nat \<times> nat)" where
  "JNI_OnLoad attached readable settable limits =
     (if \<not> attached then (- 1, limits)
      else if \<not> readable then (JNI_VERSION_1_6, limits)
      else if settable then (JNI_VERSION_1_6, (snd limits, snd limits))
      else (JNI_VERSION_1_6, limits))"

text \<open>The engine's globals: the running thread with its arguments and tunnel, the sessions, and the world.\<close>

record process =
  p_thread :: "(arguments \<times> int) option"
  p_sessions :: "session list"
  p_world :: world

text \<open>What the system answers to an entry point: whether a thread is created and the stop pipe written.\<close>

record host =
  h_env :: env
  h_create :: bool
  h_write :: bool

definition jni_init :: "process \<Rightarrow> process" where
  "jni_init p = p\<lparr>p_sessions := init\<rparr>"

text \<open>
  The proxy address is copied into 128 bytes; a longer one has no defined result. It ends before its first
  NUL.
\<close>

definition PROXY_IP_SIZE :: nat where "PROXY_IP_SIZE = 128"

definition jni_start ::
  "host \<Rightarrow> int \<Rightarrow> bool \<Rightarrow> int \<Rightarrow> bytes \<Rightarrow> int \<Rightarrow> process \<Rightarrow> process option" where
  "jni_start H tun fwd53 rcode proxyIp proxyPort p =
     (if p_thread p \<noteq> None then Some p
      else if length proxyIp + 1 > PROXY_IP_SIZE then None
      else
        let args = \<lparr>a_fwd53 = fwd53, a_rcode = rcode, a_proxyIp = proxyIp @ [0], a_proxyPort = proxyPort\<rparr>
        in Some (if h_create H then p\<lparr>p_thread := Some (args, tun)\<rparr> else p))"

text \<open>The thread from its start to its end. It has set \<open>thread_id\<close> to zero.\<close>

definition run_thread :: "host \<Rightarrow> process \<Rightarrow> process option" where
  "run_thread H p =
     (case p_thread p of
        None \<Rightarrow> Some p
      | Some (args, tun) \<Rightarrow>
          do { (ss, w) \<leftarrow> handle_events (h_env H) args tun (p_sessions p) (p_world p);
               Some \<lparr>p_thread = None, p_sessions = ss, p_world = w\<rparr> })"

definition clear_all :: "process \<Rightarrow> process" where
  "clear_all p = (let (ss, w) = clear (p_sessions p) (p_world p) in p\<lparr>p_sessions := ss, p_world := w\<rparr>)"

text \<open>
  Stopping writes the pipe, waits for the thread and frees the sessions. When the pipe cannot be written it
  frees the sessions of the running thread, which has no defined result.
\<close>

definition jni_stop :: "host \<Rightarrow> process \<Rightarrow> process option" where
  "jni_stop H p =
     (case p_thread p of
        None \<Rightarrow> Some p
      | Some t \<Rightarrow>
          if \<not> h_write H then None
          else do { p \<leftarrow> run_thread H p; Some (clear_all p) })"

definition jni_get_mtu :: int where
  "jni_get_mtu = uint get_mtu"

definition jni_done :: "process \<Rightarrow> process" where
  "jni_done p = clear_all p"

section \<open>The life of the process\<close>

text \<open>
  The calls of the service, in any order that its life cycle allows: it initialises once, before anything
  else, and ends only an engine that is stopped. The thread may also end by itself, when the tunnel fails.
\<close>

inductive life :: "process \<Rightarrow> bool" where
  loaded: "w_trace w = [] \<Longrightarrow> life (jni_init \<lparr>p_thread = None, p_sessions = ss, p_world = w\<rparr>)"
| start: "life p \<Longrightarrow> jni_start H tun fwd53 rcode ip port p = Some p' \<Longrightarrow> life p'"
| ended: "life p \<Longrightarrow> run_thread H p = Some p' \<Longrightarrow> life p'"
| stop: "life p \<Longrightarrow> jni_stop H p = Some p' \<Longrightarrow> life p'"
| over: "life p \<Longrightarrow> p_thread p = None \<Longrightarrow> life (jni_done p)"

abbreviation "p_sound p \<equiv> sound (p_sessions p) (p_world p)"

lemma jni_start_same:
  "jni_start H tun fwd53 rcode ip port p = Some p' \<Longrightarrow> p_sessions p' = p_sessions p \<and> p_world p' = p_world p"
  by (auto simp: jni_start_def Let_def split: if_splits)

lemma run_thread_sound:
  assumes "run_thread H p = Some p'" "p_sound p"
  shows "p_sound p' \<and> p_thread p' = None"
proof (cases "p_thread p")
  case None
  with assms show ?thesis by (simp add: run_thread_def)
next
  case (Some t)
  obtain args tun where t: "t = (args, tun)" by (cases t)
  with assms(1) Some obtain ss w where h: "handle_events (h_env H) args tun (p_sessions p) (p_world p) = Some (ss, w)"
    and p': "p' = \<lparr>p_thread = None, p_sessions = ss, p_world = w\<rparr>"
    by (auto simp: run_thread_def bind_eq_Some_conv)
  show ?thesis using thread_sound [OF h assms(2)] p' by simp
qed

lemma clear_all_clean:
  assumes "p_sound p"
  shows "p_sessions (clear_all p) = [] \<and> registered (w_trace (p_world (clear_all p))) = {}
    \<and> p_sound (clear_all p) \<and> p_thread (clear_all p) = p_thread p
    \<and> mset (closed (w_trace (p_world (clear_all p)))) \<subseteq># mset (opened (w_trace (p_world (clear_all p))))"
proof -
  obtain ss w where c: "clear (p_sessions p) (p_world p) = (ss, w)" by fastforce
  note a = clear_account [OF c assms]
  have "p_sessions (clear_all p) = ss" "p_world (clear_all p) = w" "p_thread (clear_all p) = p_thread p"
    using c by (simp_all add: clear_all_def)
  then show ?thesis using a by metis
qed

lemma life_sound: "life p \<Longrightarrow> p_sound p"
proof (induction rule: life.induct)
  case (loaded w ss)
  then show ?case using sound_Nil by (simp add: jni_init_def init_def)
next
  case (start p H tun fwd53 rcode ip port p')
  then show ?case using jni_start_same [OF start(2)] by simp
next
  case (ended p H p')
  then show ?case using run_thread_sound [OF ended(2)] by simp
next
  case (stop p H p')
  then show ?case
    using clear_all_clean run_thread_sound by (auto simp: jni_stop_def bind_eq_Some_conv split: option.splits if_splits)
next
  case (over p)
  from clear_all_clean [OF over(3)] show ?case unfolding jni_done_def by blast
qed

section \<open>Properties\<close>

text \<open>
  C12. Stopping a running engine leaves nothing behind, whatever happened since the library was loaded: no thread
  runs, the list of sessions is empty, no descriptor is registered, and every descriptor the engine closed
  was opened once for each time it was closed. Starting it again begins from an empty list.
\<close>

theorem stop_leaves_nothing:
  assumes "life p" and "p_thread p \<noteq> None" and "jni_stop H p = Some p'"
  shows "p_thread p' = None \<and> p_sessions p' = [] \<and> registered (w_trace (p_world p')) = {}
    \<and> mset (closed (w_trace (p_world p'))) \<subseteq># mset (opened (w_trace (p_world p')))"
proof -
  from assms(2,3) obtain q where q: "run_thread H p = Some q" "p' = clear_all q"
    by (auto simp: jni_stop_def bind_eq_Some_conv split: if_splits)
  have s: "p_sound q \<and> p_thread q = None" by (rule run_thread_sound [OF q(1) life_sound [OF assms(1)]])
  from clear_all_clean [OF conjunct1 [OF s]] s q(2) show ?thesis by simp
qed

definition sample_host :: host where
  "sample_host = \<lparr>h_env = calm\<lparr>e_epoll_wait := \<lambda>n. Inr [(PipeReady, 1)]\<rparr>, h_create = True, h_write = True\<rparr>"

definition sample_process :: process where
  "sample_process = \<lparr>p_thread = None, p_sessions = [], p_world = start\<rparr>"

abbreviation "sample_running \<equiv> sample_process\<lparr>p_thread := Some (sample_args, 3)\<rparr>"

lemma sample_start: "jni_start sample_host 3 True 3 (lit ''10.0.0.1'') 8080 sample_process = Some sample_running"
  by (simp add: jni_start_def sample_process_def sample_host_def sample_args_def PROXY_IP_SIZE_def lit_def Let_def)

lemma sample_life: "life sample_running"
proof -
  have "w_trace start = []" by (simp add: start_def)
  from life.loaded [OF this, of "[]"] have "life sample_process"
    by (simp add: jni_init_def init_def sample_process_def)
  then show ?thesis using sample_start by (rule life.start)
qed

lemma sample_stop: "\<exists>p'. jni_stop sample_host sample_running = Some p'"
proof -
  obtain ss w where h: "handle_events (h_env sample_host) sample_args 3 [] start = Some (ss, w)"
    using handle_events_sample by (auto simp: sample_host_def)
  then show ?thesis by (simp add: jni_stop_def run_thread_def sample_process_def) (simp add: sample_host_def)
qed

theorem stop_leaves_nothing_witness:
  "\<exists>p p'. jni_start sample_host 3 True 3 (lit ''10.0.0.1'') 8080 sample_process = Some p
    \<and> jni_stop sample_host p = Some p' \<and> p_sessions p' = [] \<and> registered (w_trace (p_world p')) = {}"
proof -
  obtain p' where j: "jni_stop sample_host sample_running = Some p'" using sample_stop by blast
  from stop_leaves_nothing [OF sample_life _ j] sample_start j show ?thesis by auto
qed

text \<open>
  A start makes one thread, with the arguments it was given: while one runs a second start does nothing; and
  the proxy address must be shorter than its buffer of 128 bytes, or the copy has no defined result.
\<close>

theorem start_once:
  assumes "h_create H"
  shows "jni_start H tun fwd53 rcode ip port p =
    (if p_thread p \<noteq> None then Some p
     else if length ip < 128 then
       Some (p\<lparr>p_thread := Some (\<lparr>a_fwd53 = fwd53, a_rcode = rcode, a_proxyIp = ip @ [0], a_proxyPort = port\<rparr>, tun)\<rparr>)
     else None)"
  using assms by (auto simp: jni_start_def PROXY_IP_SIZE_def Let_def)

end
