(* ===== verification/Relays.thy ===== *)
theory Relays
  imports Ensures Jni
begin

text \<open>
  What the relays of TCP, UDP and ICMP keep. An interface states when a predicate of the world holds through all
  packets that sessions write to the tunnel; every operation on a session is then shown, once, to keep such a
  predicate, the types of the session and its connection. \<open>Outputs\<close> uses it for the validity of all packets,
  \<open>Delivery\<close> for the account of one connection among all others.
\<close>

section \<open>Types\<close>

text \<open>
  A TCP connection: version, addresses and ports, as they are on the wire. The version is 4 or 6 and the addresses
  have its size; the code can shift by the window scale; a segment counts no more bytes as sent than it has.
\<close>

type_synonym conn = "nat \<times> bytes \<times> bytes \<times> u16 \<times> u16"

definition conn_of :: "tcp_session \<Rightarrow> conn" where
  "conn_of t = (t_version t, view_addr (t_version t) (t_saddr t), view_addr (t_version t) (t_daddr t), t_source t, t_dest t)"

definition conn_good :: "(conn \<Rightarrow> bool) \<Rightarrow> tcp_session \<Rightarrow> bool" where
  "conn_good C t \<longleftrightarrow> t_version t \<in> {4, 6} \<and> addrs_ok t \<and> unat (t_recv_scale t) < 32 \<and> C (conn_of t)"

definition tcp_good :: "(conn \<Rightarrow> bool) \<Rightarrow> tcp_session \<Rightarrow> bool" where
  "tcp_good C t \<longleftrightarrow> conn_good C t \<and> (\<forall>q \<in> set (t_forward t). seg_wf q)"

definition tcp_typed :: "tcp_session \<Rightarrow> bool" where
  "tcp_typed t \<longleftrightarrow> t_version t \<in> {4, 6} \<and> addrs_ok t \<and> unat (t_recv_scale t) < 32 \<and> (\<forall>q \<in> set (t_forward t). seg_wf q)"

definition udp_typed :: "udp_session \<Rightarrow> bool" where
  "udp_typed u \<longleftrightarrow> addrs_fit (u_version u) (u_saddr u) (u_daddr u)
     \<and> unat (u_mss u) \<le> (if u_version u = 4 then UDP4_MAXMSG else UDP6_MAXMSG)"

definition icmp_typed :: "icmp_session \<Rightarrow> bool" where
  "icmp_typed u \<longleftrightarrow> addrs_fit (i_version u) (i_saddr u) (i_daddr u)"

lemma tcp_good_typed: "tcp_good C t \<longleftrightarrow> tcp_typed t \<and> C (conn_of t)"
  by (auto simp: tcp_good_def conn_good_def tcp_typed_def)

lemma addrs_ok_update [simp]:
  "addrs_ok (t\<lparr>t_sent := c\<rparr>) = addrs_ok t" "addrs_ok (t\<lparr>t_remote_seq := n\<rparr>) = addrs_ok t"
  "addrs_ok (t\<lparr>t_forward := qs\<rparr>) = addrs_ok t"
  by (simp_all add: addrs_ok_def)

lemma conn_of_update [simp]:
  "conn_of (t\<lparr>t_state := a\<rparr>) = conn_of t" "conn_of (t\<lparr>t_time := i\<rparr>) = conn_of t"
  "conn_of (t\<lparr>t_remote_seq := n\<rparr>) = conn_of t" "conn_of (t\<lparr>t_local_seq := n\<rparr>) = conn_of t"
  "conn_of (t\<lparr>t_acked := n\<rparr>) = conn_of t" "conn_of (t\<lparr>t_send_window := n\<rparr>) = conn_of t"
  "conn_of (t\<lparr>t_recv_window := n\<rparr>) = conn_of t" "conn_of (t\<lparr>t_last_keep_alive := i\<rparr>) = conn_of t"
  "conn_of (t\<lparr>t_sent := c\<rparr>) = conn_of t" "conn_of (t\<lparr>t_received := c\<rparr>) = conn_of t"
  "conn_of (t\<lparr>t_hostname := b\<rparr>) = conn_of t" "conn_of (t\<lparr>t_connect_sent := i\<rparr>) = conn_of t"
  "conn_of (t\<lparr>t_forward := qs\<rparr>) = conn_of t"
  by (simp_all add: conn_of_def)

lemma tcp_good_update [simp]:
  "tcp_good C (t\<lparr>t_state := a\<rparr>) = tcp_good C t" "tcp_good C (t\<lparr>t_time := i\<rparr>) = tcp_good C t"
  "tcp_good C (t\<lparr>t_remote_seq := n\<rparr>) = tcp_good C t" "tcp_good C (t\<lparr>t_local_seq := n\<rparr>) = tcp_good C t"
  "tcp_good C (t\<lparr>t_acked := n\<rparr>) = tcp_good C t" "tcp_good C (t\<lparr>t_send_window := n\<rparr>) = tcp_good C t"
  "tcp_good C (t\<lparr>t_recv_window := n\<rparr>) = tcp_good C t" "tcp_good C (t\<lparr>t_last_keep_alive := i\<rparr>) = tcp_good C t"
  "tcp_good C (t\<lparr>t_sent := c\<rparr>) = tcp_good C t" "tcp_good C (t\<lparr>t_received := c\<rparr>) = tcp_good C t"
  "tcp_good C (t\<lparr>t_hostname := b\<rparr>) = tcp_good C t" "tcp_good C (t\<lparr>t_connect_sent := i\<rparr>) = tcp_good C t"
  by (simp_all add: tcp_good_def conn_good_def addrs_ok_def)

lemma tcp_good_forward [simp]:
  "tcp_good C (t\<lparr>t_forward := qs\<rparr>) \<longleftrightarrow> conn_good C t \<and> (\<forall>q \<in> set qs. seg_wf q)"
  "conn_good C (t\<lparr>t_remote_seq := n\<rparr>) = conn_good C t" "conn_good C (t\<lparr>t_sent := c\<rparr>) = conn_good C t"
  "conn_good C (t\<lparr>t_forward := qs\<rparr>) = conn_good C t"
  by (simp_all add: tcp_good_def conn_good_def)

lemma tcp_good_conn: "tcp_good C t \<Longrightarrow> conn_good C t"
  by (simp add: tcp_good_def)

lemma tcp_good_acked [simp]: "tcp_good C (tcp_acked ack t) = tcp_good C t"
  by (simp add: tcp_acked_def Let_def)

lemma udp_typed_update [simp]:
  "udp_typed (u\<lparr>u_time := n\<rparr>) = udp_typed u" "udp_typed (u\<lparr>u_state := st\<rparr>) = udp_typed u"
  "udp_typed (u\<lparr>u_sent := c\<rparr>) = udp_typed u" "udp_typed (u\<lparr>u_received := c\<rparr>) = udp_typed u"
  "udp_typed (udp_expire a b u) = udp_typed u" "udp_typed (udp_uncount u) = udp_typed u"
  by (simp_all add: udp_typed_def udp_expire_def udp_uncount_def)

lemma icmp_typed_update [simp]:
  "icmp_typed (u\<lparr>i_time := n\<rparr>) = icmp_typed u" "icmp_typed (u\<lparr>i_stop := b\<rparr>) = icmp_typed u"
  by (simp_all add: icmp_typed_def)

section \<open>Facts of the operations\<close>

text \<open>What is added to the count of a segment never exceeds what was left of it.\<close>

lemma clip_sent_step:
  assumes "n < 65536"
  obtains k where "k \<le> n" "of_int (clip_sent r n) = (of_nat k :: u16)"
proof (cases "ssize_to_size (case r of Inl e \<Rightarrow> - 1 | Inr m \<Rightarrow> int m) > int n")
  case True
  then show thesis by (intro that [of n]) (simp_all add: clip_sent_def Let_def)
next
  case False
  then obtain m where m: "r = Inr m" "int m mod 2 ^ 64 \<le> int n"
    using assms by (cases r) (simp_all add: ssize_to_size_def)
  have "(of_int (int m) :: u16) = of_int (int (m mod 2 ^ 64))"
    by (simp add: word_of_int_eq_iff take_bit_eq_mod mod_mod_cancel zmod_int del: of_int_of_nat_eq)
  moreover have "int (m mod 2 ^ 64) \<le> int n" using m(2) by (simp add: zmod_int)
  then have "m mod 2 ^ 64 \<le> n" by (simp only: of_nat_le_iff)
  ultimately show thesis using False m
    by (intro that [of "m mod 2 ^ 64"]) (simp_all add: clip_sent_def Let_def)
qed

lemma seg_wf_sent:
  assumes "seg_wf q"
  shows "seg_wf (q\<lparr>seg_sent := seg_sent q + of_int (clip_sent r (size_sub (unat (seg_len q)) (unat (seg_sent q))))\<rparr>)"
proof -
  have le: "unat (seg_sent q) \<le> unat (seg_len q)" using assms by (simp add: seg_wf_def)
  have "unat (seg_len q) - unat (seg_sent q) < 65536" using unat_u16 [of "seg_len q"] by simp
  from clip_sent_step [OF this, of r] obtain k where "k \<le> unat (seg_len q) - unat (seg_sent q)"
    "of_int (clip_sent r (size_sub (unat (seg_len q)) (unat (seg_sent q)))) = (of_nat k :: u16)"
    by (metis size_sub_le [OF le])
  then show ?thesis using advance_wf(2) [OF assms] by (simp add: advance_def)
qed

text \<open>The addresses of a packet have the size of its version, queued data the size it is given.\<close>

lemma pkt_addrs_fit: "pkt_addrs v m = Some (src, dst) \<Longrightarrow> addrs_fit v src dst"
  by (auto simp: pkt_addrs_def addrs_fit_def rd_block_def bind_eq_Some_conv split: if_splits)

lemma pkt_addrs_view: "pkt_addrs v m = Some (src, dst) \<Longrightarrow> view_addr v src = src \<and> view_addr v dst = dst"
  by (auto simp: pkt_addrs_def view_addr_def ip4_def rd_block_def bind_eq_Some_conv split: if_splits)

lemma seg_wf_new: "length data < 65536 \<Longrightarrow> seg_wf (new_segment n psh data)"
  by (simp add: seg_wf_def new_segment_def unat_of_nat)

lemma queue_insert_wf:
  assumes "seg_wf n" "\<forall>q \<in> set qs. seg_wf q"
  shows "\<forall>q \<in> set (queue_insert n qs). seg_wf q"
  using assms(2)
proof (induction qs)
  case (Cons s qs)
  moreover have "seg_wf (s\<lparr>seg_data := seg_data n\<rparr>)" if "seg_len s < seg_len n"
    using assms(1) Cons.prems that by (simp add: seg_wf_def word_less_nat_alt)
  ultimately show ?case using assms(1) by simp
qed (simp add: assms(1))

lemma addrs_wp: "(\<And>src dst. addrs_fit v src dst \<Longrightarrow> Q (src, dst)) \<Longrightarrow> pred_option Q (pkt_addrs v m)"
  using pkt_addrs_fit [of v m] by (auto simp: pred_all)

text \<open>A packet of IP version 4 or 6.\<close>

definition ip_packet :: "bytes \<Rightarrow> bool" where
  "ip_packet m \<longleftrightarrow> (\<forall>b. rd8 m 0 = Some b \<longrightarrow> unat (drop_bit 4 b) \<in> {4, 6})"

definition tcp_in_fit :: "tcp_in \<Rightarrow> bool" where
  "tcp_in_fit ti \<longleftrightarrow> ti_version ti \<in> {4, 6} \<and> addrs_fit (ti_version ti) (ti_src ti) (ti_dst ti)
     \<and> view_addr (ti_version ti) (ti_src ti) = ti_src ti \<and> view_addr (ti_version ti) (ti_dst ti) = ti_dst ti"

lemma tcp_in_wp:
  assumes "ip_packet m" "\<And>ti. tcp_in_fit ti \<Longrightarrow> Q ti"
  shows "pred_option Q (tcp_in_of m len payload uid)"
proof -
  have "tcp_in_fit ti" if "tcp_in_of m len payload uid = Some ti" for ti
  proof -
    from that obtain b src dst where "rd8 m 0 = Some b" "pkt_addrs (unat (drop_bit 4 b)) m = Some (src, dst)"
      "ti_version ti = unat (drop_bit 4 b)" "ti_src ti = src" "ti_dst ti = dst"
      unfolding tcp_in_of_def Let_def by (elim bind_eq_Some_conv [THEN iffD1, elim_format] exE conjE) auto
    then show ?thesis using pkt_addrs_fit pkt_addrs_view assms(1) by (simp add: tcp_in_fit_def ip_packet_def)
  qed
  then show ?thesis using assms(2) by (simp add: pred_all)
qed

text \<open>A packet finds the session of its connection, and a new session has the connection of its packet.\<close>

lemma tcp_matches_conn:
  assumes "tcp_in_fit ti"
  shows "tcp_matches ti (TCP c) \<longleftrightarrow>
    conn_of (ng_k c) = (ti_version ti, ti_src ti, ti_dst ti, th_source (ti_hdr ti), th_dest (ti_hdr ti))"
  by (auto simp: tcp_matches_def conn_of_def view_addr_def)

lemma conn_of_fresh:
  assumes "tcp_in_fit ti"
  shows "conn_of (tcp_fresh ti mss ws now win rnd)
    = (ti_version ti, ti_src ti, ti_dst ti, th_source (ti_hdr ti), th_dest (ti_hdr ti))"
  using assms by (simp add: conn_of_def tcp_fresh_def Let_def tcp_in_fit_def)

lemma tcp_unknown_good: "tcp_in_fit ti \<Longrightarrow> tcp_typed (tcp_unknown ti)"
  by (auto simp: tcp_typed_def tcp_unknown_def Let_def addrs_ok_def tcp_in_fit_def addrs_fit_def)

lemma tcp_fresh_good:
  assumes "tcp_in_fit ti" "unat ws < 32" "C (conn_of (tcp_fresh ti mss ws now send_window rnd))"
  shows "tcp_good C (tcp_fresh ti mss ws now send_window rnd)"
  using assms by (simp add: tcp_good_def conn_good_def tcp_fresh_def Let_def addrs_ok_def tcp_in_fit_def)

text \<open>An answer verifies once the identifier is put back, unless it is too short to have one.\<close>

lemma icmp_buffer_bound: "icmp_buffer u = (if i_version u = 4 then ICMP4_MAXMSG else ICMP6_MAXMSG)"
  by (simp add: icmp_buffer_def ICMP4_MAXMSG_def ICMP6_MAXMSG_def)

lemma icmp_restore_wp:
  assumes "length b \<le> icmp_buffer u"
    "\<And>message. length message \<le> icmp_buffer u \<Longrightarrow>
      (i_version u = 4 \<longrightarrow> 6 \<le> length message \<longrightarrow> calc_checksum 0 message = 0xFFFF) \<Longrightarrow> Q message"
  shows "pred_option Q (icmp_restore u (allocated E w b (icmp_buffer u)) (length b))"
proof -
  have "length message = length b \<and>
      (i_version u = 4 \<longrightarrow> 6 \<le> length message \<longrightarrow> calc_checksum 0 message = 0xFFFF)"
    if "icmp_restore u (allocated E w b (icmp_buffer u)) (length b) = Some message" for message
  proof (intro conjI impI)
    from that show l: "length message = length b"
      by (auto simp: icmp_restore_def Let_def bind_eq_Some_conv rd_block_def split: if_splits)
    assume v: "i_version u = 4" "6 \<le> length message"
    then have "message = sealed 0 (i_id u) b"
      using that l icmp_restore_sealed [of b u] by (simp add: allocated_def)
    moreover have "length b \<le> ck_max"
      using assms(1) by (simp add: icmp_buffer_bound ck_max_def ICMP4_MAXMSG_def ICMP6_MAXMSG_def split: if_splits)
    ultimately show "calc_checksum 0 message = 0xFFFF" using sealed_verifies [of b 0 "i_id u"] v(2) l by simp
  qed
  then show ?thesis using assms by (simp add: pred_all)
qed

lemma dns_response_wp: "(\<And>x. Q x) \<Longrightarrow> pred_option Q (parse_dns_response m n)"
  by (rule any_wp)

lemma dns_wp: "(\<And>x. Q x) \<Longrightarrow> pred_option Q (get_dns_query mem n)"
  by (rule any_wp)

section \<open>Sessions of all kinds\<close>

fun sess_good :: "(conn \<Rightarrow> bool) \<Rightarrow> session \<Rightarrow> bool" where
  "sess_good C (ICMP s) = icmp_typed (ng_k s)"
| "sess_good C (UDP s) = udp_typed (ng_k s)"
| "sess_good C (TCP s) = tcp_good C (ng_k s)"

fun sess_typed :: "session \<Rightarrow> bool" where
  "sess_typed (ICMP s) = icmp_typed (ng_k s)"
| "sess_typed (UDP s) = udp_typed (ng_k s)"
| "sess_typed (TCP s) = tcp_typed (ng_k s)"

text \<open>The TCP sessions of a list.\<close>

fun sess_tcp :: "session \<Rightarrow> tcp_session ng_session list" where
  "sess_tcp (TCP s) = [s]"
| "sess_tcp _ = []"

definition tcps :: "session list \<Rightarrow> tcp_session ng_session list" where
  "tcps ss = concat (map sess_tcp ss)"

lemma tcps_simps [simp]: "tcps [] = []" "tcps (s # ss) = sess_tcp s @ tcps ss" "tcps (a @ b) = tcps a @ tcps b"
  by (simp_all add: tcps_def)

lemma set_tcps: "c \<in> set (tcps ss) \<longleftrightarrow> TCP c \<in> set ss"
proof (induction ss)
  case (Cons s ss)
  then show ?case by (cases s) auto
qed simp

lemma sess_good_typed: "sess_good C s \<Longrightarrow> sess_typed s"
  by (cases s) (simp_all add: tcp_good_typed)

lemma sess_typed_good: "sess_typed s \<Longrightarrow> (\<And>c. s = TCP c \<Longrightarrow> C (conn_of (ng_k c))) \<Longrightarrow> sess_good C s"
  by (cases s) (simp_all add: tcp_good_typed)

text \<open>The connections of a list, and the condition to have the connection of one session.\<close>

definition conns :: "session list \<Rightarrow> conn list" where
  "conns ss = map (\<lambda>c. conn_of (ng_k c)) (tcps ss)"

definition own :: "session \<Rightarrow> conn \<Rightarrow> bool" where
  "own s x \<longleftrightarrow> (\<forall>c. s = TCP c \<longrightarrow> x = conn_of (ng_k c))"

lemma conns_simps [simp]:
  "conns [] = []" "conns (a @ b) = conns a @ conns b" "conns (TCP c # ss) = conn_of (ng_k c) # conns ss"
  "conns (UDP u # ss) = conns ss" "conns (ICMP i # ss) = conns ss"
  by (simp_all add: conns_def)

lemma conns_split: "conns (s # ss) = conns [s] @ conns ss"
  by (cases s) simp_all

lemma set_conns: "x \<in> set (conns ss) \<longleftrightarrow> (\<exists>c. TCP c \<in> set ss \<and> x = conn_of (ng_k c))"
  by (auto simp: conns_def set_tcps)

lemma own_good: "sess_typed s \<Longrightarrow> sess_good (own s) s"
  by (rule sess_typed_good) (simp_all add: own_def)

text \<open>\<open>s'\<close> is what has become of \<open>s\<close>: of the same kind, at the same address, and good.\<close>

definition kin :: "(conn \<Rightarrow> bool) \<Rightarrow> session \<Rightarrow> session \<Rightarrow> bool" where
  "kin C s s' \<longleftrightarrow> sess_good C s' \<and> sess_ptr s' = sess_ptr s
     \<and> (case s of ICMP _ \<Rightarrow> (\<exists>i. s' = ICMP i) | UDP _ \<Rightarrow> (\<exists>u. s' = UDP u) | TCP _ \<Rightarrow> (\<exists>c. s' = TCP c))"

lemma kin_simps [simp]:
  "kin C (ICMP i) (ICMP i') \<longleftrightarrow> icmp_typed (ng_k i') \<and> ng_ptr i' = ng_ptr i"
  "kin C (UDP u) (UDP u') \<longleftrightarrow> udp_typed (ng_k u') \<and> ng_ptr u' = ng_ptr u"
  "kin C (TCP c) (TCP c') \<longleftrightarrow> tcp_good C (ng_k c') \<and> ng_ptr c' = ng_ptr c"
  by (simp_all add: kin_def)

lemma kin_own: "kin (own s) s s' \<Longrightarrow> sess_typed s' \<and> sess_ptr s' = sess_ptr s \<and> conns [s'] = conns [s]"
  by (cases s; cases s') (auto simp: kin_def own_def tcp_good_typed)

lemma kin_refl: "sess_good C s \<Longrightarrow> kin C s s"
  by (cases s) simp_all

section \<open>The interface\<close>

text \<open>
  \<open>W\<close> is kept by all that is written: by TCP packets of the connections in \<open>C\<close>, by packets without data of any
  connection, by UDP and by ICMP packets.
\<close>

locale relays = world_pred W for W :: "world \<Rightarrow> bool" +
  fixes C :: "conn \<Rightarrow> bool"
  assumes tcp_out: "conn_good C t \<Longrightarrow> W w \<Longrightarrow> tcp_packet t data syn ack fin rst = Some p \<Longrightarrow> W (emit (TunWrite p) w)"
    and empty_out: "tcp_typed t \<Longrightarrow> W w \<Longrightarrow> tcp_packet t [] syn ack fin rst = Some p \<Longrightarrow> W (emit (TunWrite p) w)"
    and udp_out: "udp_typed u \<Longrightarrow> length data \<le> unat (u_mss u) \<Longrightarrow> W w \<Longrightarrow> W (emit (TunWrite (udp_packet u data)) w)"
    and icmp_out: "icmp_typed i \<Longrightarrow> length data \<le> icmp_buffer i \<Longrightarrow>
      (i_version i = 4 \<longrightarrow> 6 \<le> length data \<longrightarrow> calc_checksum 0 data = 0xFFFF) \<Longrightarrow> W w \<Longrightarrow>
      W (emit (TunWrite (icmp_packet i data)) w)"
begin

lemma write_tcp_wp:
  assumes "conn_good C cur" "W w" "\<And>res w'. W w' \<Longrightarrow> Q (res, w')"
  shows "pred_option Q (write_tcp E cur data syn ack fin rst w)"
proof (cases "tcp_packet cur data syn ack fin rst")
  case (Some p)
  then show ?thesis using assms(3) [OF tcp_out [OF assms(1,2) Some]] by (simp add: write_tcp_def tun_write_def Let_def)
qed (simp add: write_tcp_def)

lemma unknown_rst_wp:
  assumes "tcp_in_fit ti" "W w" "\<And>t' w'. W w' \<Longrightarrow> Q (t', w')"
  shows "pred_option Q (write_rst E (tcp_unknown ti) w)"
proof (cases "tcp_packet (tcp_unknown ti) [] False False False True")
  case (Some p)
  have "t_state (tcp_unknown ti) = TCP_NONE" by (simp add: tcp_unknown_def Let_def)
  then show ?thesis
    using assms(3) [OF empty_out [OF tcp_unknown_good [OF assms(1)] assms(2) Some]] Some
    by (simp add: write_rst_def write_tcp_def tun_write_def Let_def)
qed (simp add: write_rst_def write_tcp_def tcp_unknown_def Let_def)

lemma write_wrapper_wp:
  assumes "tcp_good C t" "W w" "\<And>res t' w'. tcp_good C t' \<Longrightarrow> W w' \<Longrightarrow> Q (res, t', w')"
  shows "pred_option Q (write_syn_ack E t w)" "pred_option Q (write_ack E t w)"
    "pred_option Q (write_data E t b w)" "pred_option Q (write_fin_ack E t w)"
  using assms unfolding write_syn_ack_def write_ack_def write_data_def write_fin_ack_def
  by (auto intro!: write_tcp_wp tcp_good_conn)

lemma write_rst_wp:
  assumes "tcp_good C t" "W w" "\<And>t' w'. tcp_good C t' \<Longrightarrow> W w' \<Longrightarrow> Q (t', w')"
  shows "pred_option Q (write_rst E t w)"
  using assms unfolding write_rst_def
  by (auto intro!: write_tcp_wp tcp_good_conn simp: Let_def)

lemmas writes_wp [wp] = write_wrapper_wp write_rst_wp

lemma tcp_expire_wp:
  assumes "tcp_good C t" "W w" "\<And>t' w'. tcp_good C t' \<Longrightarrow> W w' \<Longrightarrow> Q (t', w')"
  shows "pred_option Q (tcp_expire E timeout now t w)"
  using assms unfolding tcp_expire_def by (auto intro!: wp)

lemma check_tcp_session_wp:
  assumes "tcp_good C (ng_k s)" "W w"
  shows "pred_option (\<lambda>(del, s', w'). tcp_good C (ng_k s') \<and> ng_ptr s' = ng_ptr s \<and> W w') (check_tcp_session E n m s w)"
  using assms unfolding check_tcp_session_def
  by (auto intro!: wp tcp_expire_wp simp: tcp_finish_def tcp_uncount_def sys_defs)

lemma tcp_read_events_wp:
  assumes "tcp_good C t" "W w" "\<And>r ev t' w'. tcp_good C t' \<Longrightarrow> W w' \<Longrightarrow> Q (r, ev, t', w')"
  shows "pred_option Q (tcp_read_events E t w)"
  using assms unfolding tcp_read_events_def by (auto intro!: wp simp: sys_defs)

lemma monitor_events_wp:
  assumes "tcp_good C (ng_k s)" "W w" "\<And>r ev t' w'. tcp_good C t' \<Longrightarrow> W w' \<Longrightarrow> Q (r, ev, t', w')"
  shows "pred_option Q (monitor_events E s w)"
  using assms unfolding monitor_events_def Let_def by (auto intro!: wp tcp_read_events_wp)

lemma monitor_tcp_session_wp:
  assumes "tcp_good C (ng_k s)" "W w"
  shows "pred_option (\<lambda>(r, s', w'). tcp_good C (ng_k s') \<and> ng_ptr s' = ng_ptr s \<and> W w') (monitor_tcp_session E s w)"
  using assms unfolding monitor_tcp_session_def
  by (auto intro!: wp monitor_events_wp simp: sys_defs)

lemma tcp_setup_wp:
  assumes "tcp_good C (ng_k s)" "W w" "\<And>t' w'. tcp_good C t' \<Longrightarrow> W w' \<Longrightarrow> Q (t', w')"
  shows "pred_option Q (tcp_proxy_reply E s w)" "pred_option Q (tcp_connected E (ng_k s) w)"
  using assms unfolding tcp_proxy_reply_def tcp_connected_def
  by (auto intro!: wp drain_call simp: sys_defs split: sum.split)

lemma forward_loop_wp:
  assumes "tcp_good C t" "\<forall>q \<in> set qs. seg_wf q" "W w"
    "\<And>fwd t' w'. tcp_good C t' \<Longrightarrow> W w' \<Longrightarrow> Q (fwd, t', w')"
  shows "pred_option Q (forward_loop E fd room fwd qs t w)"
  using assms(1-3)
proof (induction qs arbitrary: fwd room t w)
  case Nil
  then have "conn_good C t" by (simp add: tcp_good_def)
  with Nil show ?case by (simp add: assms(4))
next
  case (Cons q qs)
  then have "conn_good C t" by (simp add: tcp_good_def)
  moreover note seg_wf_sent [of q]
  ultimately show ?case
    using Cons unfolding forward_loop.simps Let_def
    by (auto intro!: wp outgoing_wp send assms(4) Cons.IH)
qed

lemma tcp_eof_wp:
  assumes "tcp_good C t" "W w" "\<And>t' w'. tcp_good C t' \<Longrightarrow> W w' \<Longrightarrow> Q (t', w')"
  shows "pred_option Q (tcp_eof E t w)"
  using assms unfolding tcp_eof_def by (auto intro!: wp simp: Let_def)

lemma tcp_receive_wp:
  assumes "tcp_good C (ng_k s)" "W w" "\<And>s' w'. tcp_good C (ng_k s') \<Longrightarrow> ng_ptr s' = ng_ptr s \<Longrightarrow> W w' \<Longrightarrow> Q (s', w')"
  shows "pred_option Q (tcp_receive E ev s w)"
  using assms unfolding tcp_receive_def
  by (auto intro!: wp tcp_eof_wp simp: sys_defs split: sum.split)

lemma tcp_forward_wp:
  assumes "tcp_good C (ng_k s)" "W w" "\<And>fwd t' w'. tcp_good C t' \<Longrightarrow> W w' \<Longrightarrow> Q (fwd, t', w')"
  shows "pred_option Q (tcp_forward E ev s w)"
  using assms unfolding tcp_forward_def Let_def
  by (auto intro!: receive_buffer forward_loop_wp simp: tcp_good_def)

lemma tcp_ack_forwarded_wp:
  assumes "tcp_good C t" "W w" "\<And>t' w'. tcp_good C t' \<Longrightarrow> W w' \<Longrightarrow> Q (t', w')"
  shows "pred_option Q (tcp_ack_forwarded E fwd window t w)"
  using assms unfolding tcp_ack_forwarded_def Let_def by (auto intro!: wp simp: sys_defs)

lemma tcp_transfer_wp:
  assumes "tcp_good C (ng_k s)" "W w" "\<And>s' w'. tcp_good C (ng_k s') \<Longrightarrow> ng_ptr s' = ng_ptr s \<Longrightarrow> W w' \<Longrightarrow> Q (s', w')"
  shows "pred_option Q (tcp_transfer E ev s w)"
  using assms unfolding tcp_transfer_def
  by (auto intro!: tcp_forward_wp receive_window tcp_ack_forwarded_wp tcp_receive_wp intro!: assms(3))

lemma check_tcp_socket_wp:
  assumes "tcp_good C (ng_k s)" "W w"
  shows "pred_option (\<lambda>(s', w'). tcp_good C (ng_k s') \<and> ng_ptr s' = ng_ptr s \<and> W w') (check_tcp_socket E ev s w)"
  using assms unfolding check_tcp_socket_def
  by (auto intro!: wp tcp_setup_wp tcp_transfer_wp simp: sys_defs)

lemma tcp_queue_data_wp:
  assumes "tcp_good C t" "\<And>t'. tcp_good C t' \<Longrightarrow> Q t'"
  shows "pred_option Q (tcp_queue_data ti t)"
proof -
  have "tcp_good C (queue_tcp h t data)" if "length data < 65536" for h data
    using assms(1) queue_insert_wf [OF seg_wf_new [OF that], of "t_forward t"]
    by (simp add: queue_tcp_def Let_def tcp_good_def)
  then show ?thesis
    using assms unat_u16 [of "ti_datalen ti"]
    by (auto simp: tcp_queue_data_def pred_all rd_block_def bind_eq_Some_conv split: if_splits)
qed

lemma tcp_fin_wp:
  assumes "tcp_good C t" "W w" "\<And>t' w'. tcp_good C t' \<Longrightarrow> W w' \<Longrightarrow> Q (t', w')"
  shows "pred_option Q (tcp_fin E t w)"
  using assms unfolding tcp_fin_def by (auto intro!: wp)

lemma tcp_other_ack_wp:
  assumes "tcp_good C t" "W w" "\<And>t' w'. tcp_good C t' \<Longrightarrow> W w' \<Longrightarrow> Q (t', w')"
  shows "pred_option Q (tcp_other_ack E sock ack t w)"
  using assms unfolding tcp_other_ack_def by (auto intro!: wp simp: sys_defs)

lemma tcp_control_wp:
  assumes "tcp_good C t" "W w" "\<And>t' w'. tcp_good C t' \<Longrightarrow> W w' \<Longrightarrow> Q (t', w')"
  shows "pred_option Q (tcp_control E sock h t w)"
  using assms unfolding tcp_control_def by (auto intro!: tcp_fin_wp tcp_other_ack_wp)

lemma tcp_known_wp:
  assumes "tcp_good C (ng_k s)" "W w"
    "\<And>s' w'. tcp_good C (ng_k s') \<Longrightarrow> ng_ptr s' = ng_ptr s \<Longrightarrow> W w' \<Longrightarrow> Q (s', w')"
  shows "pred_option Q (tcp_known E ti s w)"
  unfolding tcp_known_def sys_time_def Let_def prod.case pred_bind
  using assms(1,2) by (auto intro!: if_wp shl_int_wp writes_wp tcp_queue_data_wp tcp_control_wp assms(3))

lemma tcp_https_wp:
  assumes "tcp_good C (ng_k s)" "W w"
    "\<And>s' w'. tcp_good C (ng_k s') \<Longrightarrow> ng_ptr s' = ng_ptr s \<Longrightarrow> W w' \<Longrightarrow> Q (s', w')"
  shows "pred_option Q (tcp_https E hostname s w)"
proof -
  define host where "host = (if hostname \<noteq> [] then hostname else lookup_hostname (ip4 (t_daddr (ng_k s))) 512)"
  define t where "t = (if host \<noteq> [] then (ng_k s)\<lparr>t_hostname := host\<rparr> else ng_k s)"
  have t: "tcp_good C t" using assms(1) by (simp add: t_def)
  show ?thesis
    unfolding tcp_https_def Let_def host_def [symmetric] t_def [symmetric]
    using t assms(2) by (auto intro!: if_wp wp send assms(3) split: sum.split)
qed

lemma tcp_found_wp:
  assumes "tcp_good C (ng_k s)" "W w"
    "\<And>s' w'. tcp_good C (ng_k s') \<Longrightarrow> ng_ptr s' = ng_ptr s \<Longrightarrow> W w' \<Longrightarrow> Q (s', w')"
  shows "pred_option Q (tcp_found E ti hostname s w)"
  using assms unfolding tcp_found_def Let_def
  by (auto intro!: tcp_https_wp tcp_queue_data_wp tcp_known_wp)

lemma tcp_syn_data_wp:
  assumes "tcp_good C t" "t_forward t = []" "\<And>t. tcp_good C t \<Longrightarrow> Q t"
  shows "pred_option Q (tcp_syn_data ti t)"
  using assms(1,2) unat_u16 [of "ti_datalen ti"]
  by (auto simp: tcp_syn_data_def pred_all rd_block_def tcp_good_def intro!: seg_wf_new assms(3))

text \<open>A new session has the count of calls as its address.\<close>

lemma tcp_new_session_wp:
  assumes "tcp_in_fit ti" "\<And>now win rnd. C (conn_of (tcp_fresh ti mss ws now win rnd))" "W (tick w)" "\<And>w'. W w' \<Longrightarrow> Q (None, w')"
    "\<And>s w'. tcp_good C (ng_k s) \<Longrightarrow> ng_ptr s = w_tick w \<Longrightarrow> W w' \<Longrightarrow> Q (Some s, w')"
  shows "pred_option Q (tcp_new_session E redirect ti mss ws w)"
proof -
  define w1 where "w1 = tick w"
  have f: "t_forward (tcp_fresh ti mss ws now win rnd) = []" for now win rnd by (simp add: tcp_fresh_def Let_def)
  have "W w1" unfolding w1_def by (rule assms(3))
  then show ?thesis
    unfolding tcp_new_session_def sys_time_def sys_rand_def Let_def prod.case pred_bind case_prod_beta
      w1_def [symmetric]
    by (auto intro!: shl_int_wp tcp_syn_data_wp tcp_fresh_good assms f receive_window wp simp: case_prod_beta)
qed

lemma write_udp_wp:
  assumes "udp_typed u" "length data \<le> unat (u_mss u)" "W w" "\<And>res w'. W w' \<Longrightarrow> pred_option Q (f res w')"
  shows "pred_option Q (case write_udp E u data w of (res, w) \<Rightarrow> f res w)"
proof -
  have "W (snd (write_udp E u data w))"
    using udp_out [OF assms(1-3)] by (simp add: write_udp_def tun_write_def Let_def)
  with assms(4) show ?thesis by (simp add: case_prod_beta)
qed

lemma check_udp_session_wp:
  assumes "udp_typed (ng_k s)" "W w"
  shows "pred_option (\<lambda>(del, s', w'). udp_typed (ng_k s') \<and> ng_ptr s' = ng_ptr s \<and> W w')
    (check_udp_session E n m s w)"
  using assms unfolding check_udp_session_def
  by (auto intro!: wp simp: udp_finish_def sys_defs)

lemma check_udp_socket_wp:
  assumes "udp_typed (ng_k s)" "W w"
  shows "pred_option (\<lambda>(s', w'). udp_typed (ng_k s') \<and> ng_ptr s' = ng_ptr s \<and> W w') (check_udp_socket E ev s w)"
  using assms unfolding check_udp_socket_def sys_time_def Let_def prod.case
  by (auto intro!: recv write_udp_wp dns_response_wp split: sum.split)

lemma check_dhcp_wp:
  assumes "udp_typed u" "W w" "\<And>r. Q (r, u, w)"
  shows "pred_option Q (check_dhcp E u data datalen w)"
  using assms unfolding check_dhcp_def by (auto intro!: any_wp simp: dhcp_response_undefined)

lemma udp_send_wp:
  assumes "udp_typed (ng_k s)" "W w"
    "\<And>s' w'. udp_typed (ng_k s') \<Longrightarrow> ng_ptr s' = ng_ptr s \<Longrightarrow> W w' \<Longrightarrow> Q (s', w')"
  shows "pred_option Q (udp_send E s mem datalen w)"
  using assms unfolding udp_send_def by (auto intro!: any_wp assms(3) simp: sys_defs split: option.split)

lemma udp_forward_wp:
  assumes "udp_typed (ng_k s)" "W w"
    "\<And>s' w'. udp_typed (ng_k s') \<Longrightarrow> ng_ptr s' = ng_ptr s \<Longrightarrow> W w' \<Longrightarrow> Q (s', w')"
  shows "pred_option Q (udp_forward E source dest mem datalen s w)"
  using assms unfolding udp_forward_def by (auto intro!: check_dhcp_wp udp_send_wp dns_wp simp: option.pred_map o_def)

lemma open_udp_socket_keeps [wp]: "W w \<Longrightarrow> W (snd (open_udp_socket E u redirect w))"
  by (auto simp: open_udp_socket_def sys_defs split: sum.split)

lemma udp_new_session_keeps:
  assumes "addrs_fit version src dst" "W (tick w)" "udp_new_session E version source dest src dst uid w = (new, w')"
  shows "W w' \<and> (\<forall>s. new = Some s \<longrightarrow> udp_typed (ng_k s) \<and> ng_ptr s = w_tick w)"
proof -
  define w1 where "w1 = tick w"
  have "W w1" unfolding w1_def by (rule assms(2))
  then show ?thesis
    using assms(1,3) unfolding udp_new_session_def sys_time_def Let_def prod.case w1_def [symmetric] case_prod_beta
    by (auto simp: udp_typed_def UDP4_MAXMSG_def UDP6_MAXMSG_def split: if_splits intro!: wp)
qed

lemma check_icmp_session_wp:
  assumes "icmp_typed (ng_k s)" "W w"
  shows "pred_option (\<lambda>(del, s', w'). icmp_typed (ng_k s') \<and> ng_ptr s' = ng_ptr s \<and> W w')
    (check_icmp_session E n m s w)"
  using assms unfolding check_icmp_session_def
  by (auto intro!: wp simp: sys_defs)

lemma write_icmp_wp:
  assumes "icmp_typed u" "length data \<le> icmp_buffer u"
    and "i_version u = 4 \<longrightarrow> 6 \<le> length data \<longrightarrow> calc_checksum 0 data = 0xFFFF"
    and "W w" "\<And>res w'. W w' \<Longrightarrow> pred_option Q (f res w')"
  shows "pred_option Q (case write_icmp E u data w of (res, w) \<Rightarrow> f res w)"
proof -
  have "W (snd (write_icmp E u data w))"
    using icmp_out [OF assms(1-4)] by (simp add: write_icmp_def tun_write_def Let_def)
  with assms(5) show ?thesis by (simp add: case_prod_beta)
qed

lemma check_icmp_socket_wp:
  assumes "icmp_typed (ng_k s)" "W w"
  shows "pred_option (\<lambda>(s', w'). icmp_typed (ng_k s') \<and> ng_ptr s' = ng_ptr s \<and> W w') (check_icmp_socket E ev s w)"
  using assms unfolding check_icmp_socket_def sys_time_def Let_def prod.case
  by (auto intro!: recv icmp_restore_wp write_icmp_wp split: sum.split)

lemma icmp_forward_wp:
  assumes "icmp_typed (ng_k s)" "W w"
    "\<And>r s' w'. icmp_typed (ng_k s') \<Longrightarrow> ng_ptr s' = ng_ptr s \<Longrightarrow> W w' \<Longrightarrow> Q (r, s', w')"
  shows "pred_option Q (icmp_forward E version dst m payload icmplen s w)"
  using assms unfolding icmp_forward_def by (auto intro!: any_wp assms(3) simp: sys_defs split: option.split)

lemma open_icmp_socket_keeps [wp]: "W w \<Longrightarrow> W (snd (open_icmp_socket E u w))"
  by (auto simp: open_icmp_socket_def sys_defs split: sum.split)

lemma icmp_new_session_keeps:
  assumes "addrs_fit version src dst" "W (tick w)" "icmp_new_session E version src dst ident uid w = (new, w')"
  shows "W w' \<and> (\<forall>s. new = Some s \<longrightarrow> icmp_typed (ng_k s) \<and> ng_ptr s = w_tick w)"
proof -
  define w1 where "w1 = tick w"
  have "W w1" unfolding w1_def by (rule assms(2))
  then show ?thesis
    using assms(1,3) unfolding icmp_new_session_def sys_time_def Let_def prod.case w1_def [symmetric] case_prod_beta
    by (auto simp: icmp_typed_def split: if_splits intro!: wp)
qed

text \<open>A session of any kind: its check, monitoring, events, and what a start of the loop does to it.\<close>

lemma check_session_wp:
  assumes "sess_good C s" "W w"
  shows "pred_option (\<lambda>(del, s', w'). kin C s s' \<and> W w') (check_session E n m s w)"
  using assms
  by (cases s) (auto intro!: wp_mono [OF check_tcp_session_wp] wp_mono [OF check_udp_session_wp]
      wp_mono [OF check_icmp_session_wp])

lemma monitor_session_wp:
  assumes "sess_good C s" "W w"
  shows "pred_option (\<lambda>(r, s', w'). kin C s s' \<and> W w') (monitor_session E s w)"
  using assms unfolding monitor_session_def
  by (auto intro!: wp_mono [OF monitor_tcp_session_wp] split: session.split)

lemma drain_udp_wp:
  assumes "udp_typed (ng_k s)" "W w"
  shows "pred_option (\<lambda>(s', w'). udp_typed (ng_k s') \<and> ng_ptr s' = ng_ptr s \<and> W w') (drain_udp E ev s w)"
proof -
  have "udp_typed (ng_k s) \<and> W w \<longrightarrow> udp_typed (ng_k (fst y)) \<and> ng_ptr (fst y) = ng_ptr s \<and> W (snd y)"
    if "drain_udp E ev s w = Some y" for y
  proof (rule drain_udp.raw_induct [OF _ that], rule impI)
    fix loop E ev and s :: "udp_session ng_session" and w y
    assume ih: "\<And>E ev s w y. loop E ev s w = Some y \<Longrightarrow> udp_typed (ng_k s) \<and> W w \<longrightarrow>
          udp_typed (ng_k (fst y)) \<and> ng_ptr (fst y) = ng_ptr s \<and> W (snd y)"
      and r: "(if ev AND EPOLLERR = 0 \<and> ev AND EPOLLIN \<noteq> 0 then
        (case is_readable E (ng_socket s) w of (readable, w) \<Rightarrow>
             if readable then do { (s, w) \<leftarrow> check_udp_socket E ev s w; loop E ev s w }
             else Some (s, w))
      else Some (s, w)) = Some y"
      and s: "udp_typed (ng_k s) \<and> W w"
    obtain b where b: "is_readable E (ng_socket s) w = (b, tick w)"
      by (simp add: is_readable_def is_event_def Let_def case_prod_beta)
    show "udp_typed (ng_k (fst y)) \<and> ng_ptr (fst y) = ng_ptr s \<and> W (snd y)"
      using r s check_udp_socket_wp [of s "tick w" E ev]
      by (cases y; cases "check_udp_socket E ev s (tick w)") (auto simp: b split: if_splits dest!: ih)
  qed
  then show ?thesis using assms by (auto simp: pred_all)
qed

lemma session_event_wp:
  assumes "sess_good C s" "W w"
  shows "pred_option (\<lambda>(s', w'). kin C s s' \<and> W w') (session_event E ev s w)"
  using assms unfolding session_event_def
  by (auto intro!: wp_mono [OF check_icmp_socket_wp] wp_mono [OF drain_udp_wp] wp_mono [OF check_tcp_socket_wp]
      split: session.split)

lemma restart_wp:
  assumes "sess_good C s" "W w"
  shows "pred_option (\<lambda>(l, w'). (l = [] \<or> (\<exists>s'. l = [s'] \<and> kin C s s')) \<and> W w') (check_allowed E [s] w)"
proof (cases s)
  case (TCP c)
  then show ?thesis using assms by (auto intro!: write_rst_wp)
qed (use assms in auto)

text \<open>Packets of UDP and ICMP leave the TCP sessions as they are.\<close>

lemma handle_udp_tcps:
  assumes "\<forall>s \<in> set ss. sess_typed s" "W w"
  shows "pred_option (\<lambda>(ss', w'). tcps ss' = tcps ss \<and> W w') (handle_udp E m len payload uid ss w)"
proof -
  have new: "pred_option (\<lambda>(ss', w'). tcps ss' = tcps ss \<and> W w')
      (case udp_new_session E version source dest src dst uid w of (new, w) \<Rightarrow>
         (case new of None \<Rightarrow> Some (ss, w)
          | Some s \<Rightarrow> do { (s, w) \<leftarrow> udp_forward E source dest mem n s w; Some (UDP s # ss, w) }))"
    if "addrs_fit version src dst" for version source dest src dst mem n
  proof (cases "udp_new_session E version source dest src dst uid w")
    case (Pair new w')
    show ?thesis
      using udp_new_session_keeps [OF that tick [OF assms(2)] Pair] Pair
      by (auto intro!: udp_forward_wp split: option.split)
  qed
  show ?thesis
    using assms unfolding handle_udp_def Let_def
    by (auto intro!: reads_wp addrs_wp new udp_forward_wp dest!: extract_split split: option.split session.split)
qed

lemma handle_icmp_tcps:
  assumes "\<forall>s \<in> set ss. sess_typed s" "W w"
  shows "pred_option (\<lambda>(sent, ss', w'). tcps ss' = tcps ss \<and> W w') (handle_icmp E m len payload uid ss w)"
proof -
  have new: "pred_option (\<lambda>(sent, ss', w'). tcps ss' = tcps ss \<and> W w')
      (case icmp_new_session E version src dst ident uid w of (new, w) \<Rightarrow>
         (case new of None \<Rightarrow> Some (False, ss, w)
          | Some s \<Rightarrow> do { (sent, s, w) \<leftarrow> icmp_forward E version dst m payload n s w; Some (sent, ICMP s # ss, w) }))"
    if "addrs_fit version src dst" for version src dst ident n
  proof (cases "icmp_new_session E version src dst ident uid w")
    case (Pair new w')
    show ?thesis
      using icmp_new_session_keeps [OF that tick [OF assms(2)] Pair] Pair
      by (auto intro!: icmp_forward_wp split: option.split)
  qed
  show ?thesis
    using assms unfolding handle_icmp_def Let_def
    by (auto intro!: reads_wp addrs_wp new icmp_forward_wp dest!: extract_split split: option.split session.split)
qed

end

end
