(* ===== verification/EngineInv.thy ===== *)
theory EngineInv
  imports Relays
begin

text \<open>
  Invariants of the loop. An interface asks that a predicate of the list of sessions and the world is kept when one
  session of the list is checked, monitored, handles an event or is ended by a start, when a session is removed, and
  when a packet is dispatched; a turn of the loop and a start then keep it.
\<close>

section \<open>Lists and single sessions\<close>

text \<open>A start of the loop handles the sessions one by one.\<close>

lemma check_allowed_Cons:
  "check_allowed E (s # ss) w =
     do { (l, w) \<leftarrow> check_allowed E [s] w; (ss', w) \<leftarrow> check_allowed E ss w; Some (l @ ss', w) }"
proof (cases s)
  case (TCP c)
  then show ?thesis by (cases "write_rst E (ng_k c) w") (auto simp: case_prod_beta)
qed (simp_all add: case_prod_beta)

lemma handle_ip_version: "parse_ip m len = Some (Some r) \<Longrightarrow> ip_packet m"
  by (auto simp: parse_ip_def ip_packet_def Let_def bind_eq_Some_conv split: if_splits)

section \<open>The interface\<close>

locale engine_inv =
  fixes I :: "session list \<Rightarrow> world \<Rightarrow> bool" and E :: env
  assumes at_tick: "I ss w \<Longrightarrow> I ss (tick w)"
    and at_check: "I (a @ s # b) w \<Longrightarrow> check_session E n m s w = Some (del, s', w') \<Longrightarrow> I (a @ s' # b) w'"
    and at_removal: "I (a @ s # b) w \<Longrightarrow> I (a @ b) w"
    and at_monitor: "I (a @ s # b) w \<Longrightarrow> monitor_session E s w = Some (recheck, s', w') \<Longrightarrow> I (a @ s' # b) w'"
    and at_event: "I (a @ s # b) w \<Longrightarrow> session_event E ev s w = Some (s', w') \<Longrightarrow> I (a @ s' # b) w'"
    and at_restart: "I (a @ s # b) w \<Longrightarrow> check_allowed E [s] w = Some (l, w') \<Longrightarrow> I (a @ l @ b) w'"
    and at_packet: "I ss w \<Longrightarrow> ip_packet buf \<Longrightarrow> dispatch E args buf len protocol payload uid ss w = Some (ss', w') \<Longrightarrow> I ss' w'"
begin

abbreviation holds :: "session list \<times> world \<Rightarrow> bool" where
  "holds \<equiv> \<lambda>(ss, w). I ss w"

subsection \<open>The lists\<close>

lemma check_sessions_inv:
  "check_sessions E n m now timeout ss w = Some (t, ss', w') \<Longrightarrow> I (a @ ss) w \<Longrightarrow> I (a @ ss') w'"
proof (induction ss arbitrary: a timeout w ss')
  case (Cons s ss)
  from Cons.prems(1) obtain del s1 w1 timeout1 ss1 where c: "check_session E n m s w = Some (del, s1, w1)"
    and r: "check_sessions E n m now timeout1 ss w1 = Some (t, ss1, w')" "ss' = (if del then ss1 else s1 # ss1)"
    by (auto simp: bind_eq_Some_conv)
  have 1: "I (a @ s1 # ss) w1" by (rule at_check [OF Cons.prems(2) c])
  show ?case
  proof (cases del)
    case True
    then show ?thesis using Cons.IH [OF r(1) at_removal [OF 1]] r(2) by simp
  next
    case False
    have "I ((a @ [s1]) @ ss) w1" using 1 by simp
    from Cons.IH [OF r(1) this] False r(2) show ?thesis by simp
  qed
qed simp

lemma count_sessions_inv:
  "count_sessions E ss w = Some (n, recheck, ss', w') \<Longrightarrow> I (a @ ss) w \<Longrightarrow> I (a @ ss') w'"
proof (induction ss arbitrary: a n recheck w ss')
  case (Cons s ss)
  from Cons.prems(1) obtain rc s1 w1 where c: "monitor_session E s w = Some (rc, s1, w1)"
    by (cases "monitor_session E s w") auto
  with Cons.prems(1) obtain n1 rcs ss1 where r: "count_sessions E ss w1 = Some (n1, rcs, ss1, w')" "ss' = s1 # ss1"
    by (cases "count_sessions E ss w1") auto
  have "I ((a @ [s1]) @ ss) w1" using at_monitor [OF Cons.prems(2) c] by simp
  from Cons.IH [OF r(1) this] r(2) show ?case by simp
qed simp

lemma check_allowed_inv:
  "check_allowed E ss w = Some (ss', w') \<Longrightarrow> I (a @ ss) w \<Longrightarrow> I (a @ ss') w'"
proof (induction ss arbitrary: a w ss')
  case (Cons s ss)
  from Cons.prems(1) obtain l w1 ss1 where c: "check_allowed E [s] w = Some (l, w1)"
    and r: "check_allowed E ss w1 = Some (ss1, w')" "ss' = l @ ss1"
    unfolding check_allowed_Cons [of E s ss] by (auto simp: bind_eq_Some_conv simp del: check_allowed.simps)
  have "I ((a @ l) @ ss) w1" using at_restart [OF Cons.prems(2) c] by simp
  from Cons.IH [OF r(1) this] r(2) show ?case by simp
qed simp

subsection \<open>Packets\<close>

lemma get_uid_sub_inv: "I ss w \<Longrightarrow> I ss (snd (get_uid_sub E v p sp da dp w))"
  by (auto simp: get_uid_sub_def at_tick split: option.split)

lemma get_uid_inv: "I ss w \<Longrightarrow> I ss (snd (get_uid E v p sp da dp w))"
  by (simp add: get_uid_def get_uid_sub_inv case_prod_beta)

lemma handle_ip_inv:
  assumes "I ss w"
  shows "pred_option holds (handle_ip E args m len sessions maxsessions ss w)"
proof -
  have d: "pred_option holds (dispatch E args m len protocol payload u ss w')" if "I ss w'" "ip_packet m"
    for protocol payload u w'
    using at_packet [OF that] by (auto simp: pred_all)
  have u: "I ss (snd (get_uid E v p sp da dp w))" for v p sp da dp by (rule get_uid_inv [OF assms])
  show ?thesis
  proof (cases "parse_ip m len")
    case (Some r)
    show ?thesis
    proof (cases r)
      case None
      then show ?thesis using Some assms by (simp add: handle_ip_def)
    next
      case (Some x)
      with \<open>parse_ip m len = Some r\<close> have i: "ip_packet m" by (auto intro: handle_ip_version)
      obtain version protocol payload where x: "x = (version, protocol, payload)" by (cases x)
      show ?thesis
        using \<open>parse_ip m len = Some r\<close> Some x assms unfolding handle_ip_def
        by (auto intro!: any_wp [where r = "pkt_addrs version m"] any_wp [where r = "ip_ports m len protocol payload"]
            any_wp [where r = "opens_session args m protocol payload syn ss" for syn] d u i
            simp: Let_def case_prod_beta split: option.split)
    qed
  qed (simp add: handle_ip_def)
qed

lemma check_tun_inv:
  assumes "I ss w"
  shows "pred_option (\<lambda>(r, ss', w'). I ss' w') (check_tun E args ev sessions maxsessions ss w)"
  using assms at_tick [OF assms] unfolding check_tun_def tun_read_def
  by (auto intro!: wp_mono [OF handle_ip_inv] split: sum.split)

lemma drain_tun_inv:
  assumes "drain_tun E args tun ev n m ss w = Some y" "I ss w"
  shows "holds (snd y)"
proof -
  have "E' = E \<longrightarrow> I ss w \<longrightarrow> holds (snd y)" if "drain_tun E' args tun ev n m ss w = Some y" for E'
  proof (rule drain_tun.raw_induct [OF _ that], intro impI)
    fix loop E' args tun ev n m ss w y
    assume ih: "\<And>E' args tun ev n m ss w y. loop E' args tun ev n m ss w = Some y \<Longrightarrow> E' = E \<longrightarrow> I ss w \<longrightarrow> holds (snd y)"
      and r: "(case is_readable E' tun w of (readable, w) \<Rightarrow>
          if readable then
            do { (res, ss, w) \<leftarrow> check_tun E' args ev n m ss w;
                 if res < 0 then Some (True, ss, w) else loop E' args tun ev n m ss w }
          else Some (False, ss, w)) = Some y"
      and s: "E' = E" "I ss w"
    obtain b where b: "is_readable E tun w = (b, tick w)"
      by (simp add: is_readable_def is_event_def Let_def case_prod_beta)
    show "holds (snd y)"
      using r s(1) at_tick [OF s(2)] check_tun_inv [OF at_tick [OF s(2)], of args ev n m]
      by (cases y; cases "check_tun E args ev n m ss (tick w)") (auto simp: b split: if_splits dest!: ih)
  qed
  then show ?thesis using assms by simp
qed

subsection \<open>Events and turns\<close>

lemma handle_event_inv:
  assumes "I ss w" "handle_event E args tun n m e ss w = Some (o1, ss', w')"
  shows "I ss' w'"
proof (cases "fst e")
  case PipeReady
  then show ?thesis using assms(2) at_tick [OF assms(1)] by (auto simp: handle_event_def)
next
  case TunReady
  with assms(2) obtain error where "drain_tun E args tun (snd e) n m ss w = Some (error, ss', w')"
    by (cases "drain_tun E args tun (snd e) n m ss w") (auto simp: handle_event_def)
  from drain_tun_inv [OF this assms(1)] show ?thesis by simp
next
  case (SessReady p)
  with assms(2) obtain before s behind where x: "List.extract (\<lambda>s. sess_ptr s = p) ss = Some (before, s, behind)"
    by (cases "List.extract (\<lambda>s. sess_ptr s = p) ss") (auto simp: handle_event_def)
  with assms(2) SessReady obtain s' where e: "session_event E (snd e) s w = Some (s', w')" "ss' = before @ s' # behind"
    by (cases "session_event E (snd e) s w") (auto simp: handle_event_def)
  have "ss = before @ s # behind" using extract_split [OF x] by simp
  with at_event [OF _ e(1)] assms(1) e(2) show ?thesis by simp
qed

lemma handle_all_inv:
  "handle_all E args tun n m es ss w = Some (o1, ss', w') \<Longrightarrow> I ss w \<Longrightarrow> I ss' w'"
proof (induction es arbitrary: ss w)
  case (Cons e es)
  from Cons.prems(1) obtain o2 ss1 w1 where h: "handle_event E args tun n m e ss w = Some (o2, ss1, w1)"
    and r: "(if o2 = Go then handle_all E args tun n m es ss1 w1 else Some (o2, ss1, w1)) = Some (o1, ss', w')"
    by (cases "handle_event E args tun n m e ss w") auto
  have "I ss1 w1" by (rule handle_event_inv [OF Cons.prems(2) h])
  then show ?case using r Cons.IH [of ss1 w1] by (cases "o2 = Go") auto
qed simp

lemma prepare_inv:
  assumes "prepare E m st = Some (n, ms, st')" "I (lp_sessions st) (lp_world st)"
  shows "I (lp_sessions st') (lp_world st')"
proof -
  from assms(1) obtain k recheck ss w where c: "count_sessions E (lp_sessions st) (lp_world st) = Some (k, recheck, ss, w)"
    by (cases "count_sessions E (lp_sessions st) (lp_world st)") (auto simp: prepare_def)
  have i: "I ss w" using count_sessions_inv [OF c, of "[]"] assms(2) by simp
  show ?thesis
  proof (cases "e_ms E (w_tick w) - lp_last_check st > EPOLL_MIN_CHECK")
    case True
    with assms(1) c obtain t ss2 w2 where
      k: "check_sessions E k m (e_time E (w_tick (tick w))) EPOLL_TIMEOUT ss (tick (tick w)) = Some (t, ss2, w2)"
        "lp_sessions st' = ss2" "lp_world st' = w2"
      by (cases "check_sessions E k m (e_time E (w_tick (tick w))) EPOLL_TIMEOUT ss (tick (tick w))")
        (auto simp: prepare_def get_ms_def sys_time_def)
    show ?thesis using check_sessions_inv [OF k(1), of "[]"] at_tick [OF at_tick [OF i]] k(2,3) by simp
  next
    case False
    with assms(1) c have "lp_sessions st' = ss" "lp_world st' = tick w" by (auto simp: prepare_def get_ms_def)
    then show ?thesis using at_tick [OF i] by simp
  qed
qed

lemma turn_inv:
  assumes "turn E args tun m st = Some (o1, st')" "I (lp_sessions st) (lp_world st)"
  shows "I (lp_sessions st') (lp_world st')"
proof -
  from assms(1) obtain n ms st1 where p: "prepare E m st = Some (n, ms, st1)"
    by (cases "prepare E m st") (auto simp: turn_def)
  have i: "I (lp_sessions st1) (tick (lp_world st1))" by (rule at_tick [OF prepare_inv [OF p assms(2)]])
  show ?thesis
  proof (cases "e_epoll_wait E (w_tick (lp_world st1))")
    case (Inl e)
    with assms(1) p i show ?thesis by (auto simp: turn_def epoll_wait_def)
  next
    case (Inr evs)
    with assms(1) p obtain ss w where
      "handle_all E args tun n m (take EPOLL_EVENTS evs) (lp_sessions st1) (tick (lp_world st1)) = Some (o1, ss, w)"
      "lp_sessions st' = ss" "lp_world st' = w"
      by (cases "handle_all E args tun n m (take EPOLL_EVENTS evs) (lp_sessions st1) (tick (lp_world st1))")
        (auto simp: turn_def epoll_wait_def)
    with handle_all_inv i show ?thesis by blast
  qed
qed

end

end
