(* ===== verification/Outputs.thy ===== *)
theory Outputs
  imports EngineInv
begin

text \<open>
  What the engine writes to the tunnel and what it keeps in its sessions. The first part says what a
  receiver checks of a packet; the interfaces of \<open>Relays\<close> and \<open>EngineInv\<close> then give the invariant of
  the engine: sessions stay well typed (addresses of the size of their version, segments that do not count more
  bytes than they have), all packets written pass these checks, two sessions never have the same address, and two
  TCP sessions never have the same connection.
\<close>

section \<open>What a receiver checks\<close>

text \<open>
  The transport part of a packet: TCP and UDP verify with the pseudo header; an ICMP message verifies by itself.
  ICMPv6 messages are left out.
\<close>

definition rx_transport :: "nat \<Rightarrow> u8 \<Rightarrow> bytes \<Rightarrow> bytes \<Rightarrow> bytes \<Rightarrow> bool" where
  "rx_transport v proto src dst seg \<longleftrightarrow>
     (if proto = IPPROTO_TCP then 20 \<le> length seg \<and> calc_checksum 0 (rx_pseudo v src dst proto (length seg) @ seg) = 0xFFFF
      else if proto = IPPROTO_UDP then
        8 \<le> length seg \<and> calc_checksum 0 (rx_pseudo v src dst proto (length seg) @ seg) = 0xFFFF
      else if v = 4 then proto = IPPROTO_ICMP \<and> (6 \<le> length seg \<longrightarrow> calc_checksum 0 seg = 0xFFFF)
      else proto = IPPROTO_ICMPV6)"

text \<open>A whole packet: the version, the header length, its checksum, the total length, then the transport part.\<close>

definition rx_ok :: "bytes \<Rightarrow> bool" where
  "rx_ok p \<longleftrightarrow>
     (if take 1 p = [0x45] then
        20 \<le> length p \<and> ip4_header_ok p \<and> map_option (\<lambda>x. unat (ntohs x)) (rd16 p 2) = Some (length p)
        \<and> rx_transport 4 (p ! 9) (take 4 (drop 12 p)) (take 4 (drop 16 p)) (drop 20 p)
      else
        take 1 p = [0x60] \<and> 40 \<le> length p
        \<and> map_option (\<lambda>x. unat (ntohs x)) (rd16 p 4) = Some (length p - 40)
        \<and> rx_transport 6 (p ! 6) (take 16 (drop 8 p)) (take 16 (drop 24 p)) (drop 40 p))"

lemma rx_pseudo_ne4: "v \<noteq> 4 \<Longrightarrow> rx_pseudo v = rx_pseudo 6"
  by (intro ext) (simp add: rx_pseudo_def)

lemma rx_ok_parts:
  assumes "addrs_fit v s d" "ip_part v s d proto n = (ip, ps)" "length seg = n" "iphl v + n < 65536"
    and "rx_transport (if v = 4 then 4 else 6) proto (view_addr v d) (view_addr v s) seg"
  shows "rx_ok (ip @ seg)"
proof (cases "v = 4")
  case True
  have l: "length ip = 20" using ip_part_length [OF assms(1,2)] True by (simp add: iphl_def)
  have a: "addrs_fit 4 s d" "ip_part 4 s d proto n = (ip, ps)" "20 + n < 65536"
    using assms(1,2,4) True by (simp_all add: iphl_def)
  note h = ip_part_header [OF a, of seg]
  have "take 1 (ip @ seg) = [0x45]"
    using h l by (cases "ip") (auto simp: rd8_def split: if_splits)
  moreover have "(ip @ seg) ! 9 = proto" using h l by (simp add: rd8_def)
  moreover have "length (ip4 s) = 4" using a(1) by (simp add: addrs_fit_def ip4_def)
  ultimately show ?thesis using h l assms(3,5) True by (simp add: rx_ok_def view_addr_def)
next
  case False
  then have v: "length s = 16" "length d = 16" "iphl v = 40" using assms(1) by (auto simp: addrs_fit_def iphl_def)
  have ip: "ip = build_ip6 n proto d s" using assms(2) False by (simp add: ip_part_def Let_def)
  have r: "rd16 (ip @ seg) 4 = Some (htons (of_nat n))"
    using rd16_app [of "[0x60, 0, 0, 0]" 4] by (simp add: ip build_ip6_def)
  have "n < 65536" using assms(4) v by simp
  then have "map_option (\<lambda>x. unat (ntohs x)) (rd16 (ip @ seg) 4) = Some n"
    using ntohs_of_nat [of n] by (simp add: r)
  moreover have "(ip @ seg) ! 6 = proto" "take 16 (drop 8 (ip @ seg)) = d" "take 16 (drop 24 (ip @ seg)) = s"
    using v by (simp_all add: ip build_ip6_def bytes16_def)
  moreover have "take 1 (ip @ seg) = [0x60]" "length ip = 40" "drop 40 (ip @ seg) = seg"
    using v by (simp_all add: ip build_ip6_def bytes16_def)
  ultimately show ?thesis using assms(3,5) False v by (simp add: rx_ok_def view_addr_def)
qed

lemma rx_ok_tcp:
  assumes "addrs_ok cur" "tcp_packet cur data syn ack fin rst = Some p" "length p < 65536"
  shows "rx_ok p"
proof -
  let ?v = "t_version cur" and ?n = "20 + (if syn then 8 else 0) + length data"
  let ?win = "drop_bit (unat (t_recv_scale cur)) (t_recv_window cur)"
  obtain ip ps where ip: "tcp_ip_part cur ?n = (ip, ps)" by (cases "tcp_ip_part cur ?n")
  from assms(2) ip have p0: "p = ip @ tcp_segment cur data syn ack fin rst ?win
      (NOT (calc_checksum (calc_checksum (calc_checksum ps (take 20 (tcp_segment cur data syn ack fin rst ?win 0)))
          (if syn then syn_options cur else [])) data))"
    by (auto simp: tcp_packet_Some_iff Let_def)
  have l: "length ip = iphl ?v" by (rule tcp_ip_part_length [OF assms(1) ip])
  have len: "iphl ?v + ?n < 65536" using assms(3) p0 l by simp
  then have data: "length data \<le> 65535" by simp
  define c where "c = NOT (calc_checksum ps (tcp_segment cur data syn ack fin rst ?win 0))"
  have p: "p = ip @ tcp_segment cur data syn ack fin rst ?win c"
    using p0 tcp_csum_pieces [OF data] by (simp add: c_def)
  have seg: "calc_checksum 0 (rx_pseudo ?v (view_addr ?v (t_daddr cur)) (view_addr ?v (t_saddr cur))
      IPPROTO_TCP ?n @ tcp_segment cur data syn ack fin rst ?win c) = 0xFFFF"
    using tcp_segment_verifies [OF assms(1) data ip refl c_def] .
  have "rx_transport (if ?v = 4 then 4 else 6) IPPROTO_TCP (view_addr ?v (t_daddr cur)) (view_addr ?v (t_saddr cur))
      (tcp_segment cur data syn ack fin rst ?win c)"
    using seg rx_pseudo_ne4 [of ?v] by (cases "?v = 4") (simp_all add: rx_transport_def)
  then show ?thesis
    unfolding p using assms(1) ip len
    by (intro rx_ok_parts [of ?v "t_saddr cur" "t_daddr cur" IPPROTO_TCP ?n ip ps])
      (simp_all add: addrs_ok_def tcp_ip_part_def)
qed

lemma rx_ok_udp:
  assumes "addrs_fit (u_version cur) (u_saddr cur) (u_daddr cur)" "length (udp_packet cur data) < 65536"
  shows "rx_ok (udp_packet cur data)"
proof -
  let ?v = "u_version cur" and ?n = "8 + length data"
  obtain ip ps where ip: "ip_part ?v (u_saddr cur) (u_daddr cur) IPPROTO_UDP ?n = (ip, ps)"
    by (cases "ip_part ?v (u_saddr cur) (u_daddr cur) IPPROTO_UDP ?n")
  let ?pre = "bytes16 (u_dest cur) @ bytes16 (u_source cur) @ bytes16 (htons (of_nat ?n))"
  define c where "c = NOT (calc_checksum ps (?pre @ bytes16 0 @ data))"
  have b2: "length (bytes16 x) = 2" for x by (simp add: bytes16_def)
  have l: "length ip = iphl ?v" by (rule ip_part_length [OF assms(1) ip])
  have "length (udp_packet cur data) = iphl ?v + ?n" using l ip by (simp add: udp_packet_def udp_header_def b2)
  then have len: "iphl ?v + ?n < 65536" using assms(2) by simp
  have p: "udp_packet cur data = ip @ (?pre @ bytes16 c @ data)"
    using udp_packet_eq [OF ip] len by (simp add: c_def)
  define seg where "seg = ?pre @ bytes16 c @ data"
  have "calc_checksum 0 (rx_pseudo ?v (view_addr ?v (u_daddr cur)) (view_addr ?v (u_saddr cur)) IPPROTO_UDP ?n
      @ seg) = 0xFFFF"
    unfolding seg_def using len by (intro ip_part_sealed [OF assms(1) ip _ _ c_def]) (simp_all add: b2 ck_max_def)
  moreover have n: "length seg = ?n" by (simp add: seg_def b2)
  ultimately have "rx_transport (if ?v = 4 then 4 else 6) IPPROTO_UDP (view_addr ?v (u_daddr cur))
      (view_addr ?v (u_saddr cur)) seg"
    using rx_pseudo_ne4 [of ?v] by (cases "?v = 4") (simp_all add: rx_transport_def protocols)
  then have "rx_ok (ip @ seg)" using assms(1) ip len n by (intro rx_ok_parts)
  then show ?thesis by (simp add: p seg_def)
qed

lemma rx_ok_icmp:
  assumes "addrs_fit (i_version cur) (i_saddr cur) (i_daddr cur)" "length (icmp_packet cur data) < 65536"
    and "i_version cur = 4 \<longrightarrow> 6 \<le> length data \<longrightarrow> calc_checksum 0 data = 0xFFFF"
  shows "rx_ok (icmp_packet cur data)"
proof -
  let ?v = "i_version cur" and ?n = "length data"
  let ?proto = "if ?v = 4 then IPPROTO_ICMP else IPPROTO_ICMPV6"
  obtain ip ps where ip: "ip_part ?v (i_saddr cur) (i_daddr cur) ?proto ?n = (ip, ps)"
    by (cases "ip_part ?v (i_saddr cur) (i_daddr cur) ?proto ?n")
  have p: "icmp_packet cur data = ip @ data" using ip by (auto simp: icmp_packet_def ip_part_def Let_def split: if_splits)
  have l: "length ip = iphl ?v" by (rule ip_part_length [OF assms(1) ip])
  have "rx_transport (if ?v = 4 then 4 else 6) ?proto (view_addr ?v (i_daddr cur)) (view_addr ?v (i_saddr cur)) data"
    using assms(3) by (simp add: rx_transport_def protocols)
  then show ?thesis
    unfolding p using assms(1,2) ip l p by (intro rx_ok_parts) simp_all
qed

section \<open>Valid output\<close>

text \<open>
  The count of calls is at least \<open>k\<close> and what was written to the tunnel passes the receiver's checks, but
  for TCP packets that are longer than their length field can say.
\<close>

definition oversize :: "bytes \<Rightarrow> bool" where
  "oversize p \<longleftrightarrow> 65536 \<le> length p
     \<and> (take 1 p = [0x45] \<and> p ! 9 = IPPROTO_TCP \<or> take 1 p = [0x60] \<and> p ! 6 = IPPROTO_TCP)"

definition wok :: "nat \<Rightarrow> world \<Rightarrow> bool" where
  "wok k w \<longleftrightarrow> k \<le> w_tick w \<and> (\<forall>p. TunWrite p \<in> set (w_trace w) \<longrightarrow> rx_ok p \<or> oversize p)"

lemma wok_emit: "wok k w \<Longrightarrow> (\<And>p. e = TunWrite p \<Longrightarrow> rx_ok p \<or> oversize p) \<Longrightarrow> wok k (emit e w)"
  by (auto simp: wok_def)

lemma wok_less: "wok k w \<Longrightarrow> j \<le> k \<Longrightarrow> wok j w"
  by (simp add: wok_def)

lemma tcp_packet_sized:
  assumes "addrs_ok cur" "tcp_packet cur data syn ack fin rst = Some p"
  shows "rx_ok p \<or> oversize p"
proof (cases "length p < 65536")
  case True
  then show ?thesis using rx_ok_tcp [OF assms] by simp
next
  case False
  let ?n = "20 + (if syn then 8 else 0) + length data"
  obtain ip ps where ip: "tcp_ip_part cur ?n = (ip, ps)" by (cases "tcp_ip_part cur ?n")
  with assms(2) obtain seg where p: "p = ip @ seg" by (auto simp: tcp_packet_Some_iff Let_def)
  have "length ip = iphl (t_version cur)" by (rule tcp_ip_part_length [OF assms(1) ip])
  moreover have "take 1 ip = [0x45] \<and> ip ! 9 = IPPROTO_TCP \<or> take 1 ip = [0x60] \<and> ip ! 6 = IPPROTO_TCP"
    using ip by (auto simp: tcp_ip_part_def ip_part_def Let_def build_ip4_def ip4_header_def build_ip6_def bytes16_def
        split: if_splits)
  ultimately show ?thesis using False by (auto simp: oversize_def p iphl_def nth_append)
qed

lemma udp_packet_sized:
  assumes "udp_typed u" "length data \<le> unat (u_mss u)"
  shows "rx_ok (udp_packet u data)"
proof -
  have a: "addrs_fit (u_version u) (u_saddr u) (u_daddr u)" using assms(1) by (simp add: udp_typed_def)
  obtain ip ps where ip: "ip_part (u_version u) (u_saddr u) (u_daddr u) IPPROTO_UDP (8 + length data) = (ip, ps)"
    by (cases "ip_part (u_version u) (u_saddr u) (u_daddr u) IPPROTO_UDP (8 + length data)")
  have "length (udp_packet u data) = iphl (u_version u) + (8 + length data)"
    using ip_part_length [OF a ip] ip by (simp add: udp_packet_def udp_header_def bytes16_def Let_def)
  then have "length (udp_packet u data) < 65536"
    using assms by (simp add: udp_typed_def iphl_def UDP4_MAXMSG_def UDP6_MAXMSG_def split: if_splits)
  with a show ?thesis by (rule rx_ok_udp)
qed

lemma icmp_packet_sized:
  assumes "icmp_typed u" "length data \<le> icmp_buffer u"
    and "i_version u = 4 \<longrightarrow> 6 \<le> length data \<longrightarrow> calc_checksum 0 data = 0xFFFF"
  shows "rx_ok (icmp_packet u data)"
proof (rule rx_ok_icmp [OF _ _ assms(3)])
  show "addrs_fit (i_version u) (i_saddr u) (i_daddr u)" using assms(1) by (simp add: icmp_typed_def)
  then show "length (icmp_packet u data) < 65536"
    using assms(2) by (auto simp: icmp_packet_def addrs_fit_def ip4_def icmp_buffer_bound ICMP4_MAXMSG_def ICMP6_MAXMSG_def)
qed

interpretation wok: relays "wok k" C for k C
proof
  show "wok k (tick w)" if "wok k w" for w using that by (simp add: wok_def)
  show "wok k (emit e w)" if "wok k w" "\<And>p. e \<noteq> TunWrite p" for w e
    by (rule wok_emit [OF that(1)]) (use that(2) in blast)
  show "wok k (emit (TunWrite p) w)" if "conn_good C t" "wok k w" "tcp_packet t data syn ack fin rst = Some p"
    for t w data syn ack fin rst p
    using that tcp_packet_sized [OF _ that(3)] by (intro wok_emit) (auto simp: conn_good_def)
  show "wok k (emit (TunWrite p) w)" if "tcp_typed t" "wok k w" "tcp_packet t [] syn ack fin rst = Some p"
    for t w syn ack fin rst p
    using that tcp_packet_sized [OF _ that(3)] by (intro wok_emit) (auto simp: tcp_typed_def)
  show "wok k (emit (TunWrite (udp_packet u data)) w)" if "udp_typed u" "length data \<le> unat (u_mss u)" "wok k w" for u data w
    using that udp_packet_sized by (intro wok_emit) auto
  show "wok k (emit (TunWrite (icmp_packet i data)) w)"
    if "icmp_typed i" "length data \<le> icmp_buffer i"
      "i_version i = 4 \<longrightarrow> 6 \<le> length data \<longrightarrow> calc_checksum 0 data = 0xFFFF" "wok k w" for i data w
    using that icmp_packet_sized by (intro wok_emit) auto
qed

section \<open>All sessions\<close>

text \<open>
  The sessions are well typed, their addresses are distinct and less than the count of calls, so that the next one
  is new, and so are the connections; the output is valid.
\<close>

definition settled :: "nat \<Rightarrow> session list \<Rightarrow> world \<Rightarrow> bool" where
  "settled k ss w \<longleftrightarrow> (\<forall>s \<in> set ss. sess_typed s \<and> sess_ptr s < w_tick w) \<and> distinct (map sess_ptr ss)
     \<and> distinct (conns ss) \<and> wok k w"

lemma settled_wok: "settled k ss w \<Longrightarrow> wok (w_tick w) w"
  by (simp add: settled_def wok_def)

lemma settled_typed: "settled k ss w \<Longrightarrow> \<forall>s \<in> set ss. sess_typed s"
  by (simp add: settled_def)

lemma settled_same: "settled k ss w \<Longrightarrow> wok (w_tick w) w' \<Longrightarrow> settled k ss w'"
  by (auto simp: settled_def wok_def)

lemma settled_new:
  assumes "settled k ss w" "sess_typed s" "sess_ptr s = w_tick w" "\<And>x. x \<in> set (conns [s]) \<Longrightarrow> x \<notin> set (conns ss)"
    and "wok (Suc (w_tick w)) w'"
  shows "settled k (s # ss) w'"
  using assms unfolding settled_def conns_split [of s ss] by (cases s) (auto simp: wok_def)

lemma settled_kin:
  assumes "settled k (a @ s # b) w" "kin (own s) s s'" "wok (w_tick w) w'"
  shows "settled k (a @ s' # b) w'"
  using assms kin_own [OF assms(2)] unfolding settled_def conns_simps conns_split [of s b] conns_split [of s' b]
  by (auto simp: wok_def dest: bspec intro: less_le_trans)

lemma settled_removal: "settled k (a @ s # b) w \<Longrightarrow> settled k (a @ b) w"
  unfolding settled_def conns_simps conns_split [of s b] by auto

lemma settled_in:
  "settled k (a @ s # b) w \<Longrightarrow> sess_good (own s) s" "settled k (a @ UDP u # b) w \<Longrightarrow> udp_typed (ng_k u)"
  "settled k (a @ ICMP i # b) w \<Longrightarrow> icmp_typed (ng_k i)"
  by (auto intro!: own_good simp: settled_def)

lemma settled_put:
  "settled k (a @ ICMP i # b) w \<Longrightarrow> icmp_typed (ng_k i') \<Longrightarrow> ng_ptr i' = ng_ptr i \<Longrightarrow> wok (w_tick w) w' \<Longrightarrow>
     settled k (a @ ICMP i' # b) w'"
  "settled k (a @ UDP u # b) w \<Longrightarrow> udp_typed (ng_k u') \<Longrightarrow> ng_ptr u' = ng_ptr u \<Longrightarrow> wok (w_tick w) w' \<Longrightarrow>
     settled k (a @ UDP u' # b) w'"
  by (erule settled_kin; simp)+

subsection \<open>Packets\<close>

lemma handle_tcp_settled:
  assumes "handle_tcp E args m n payload uid ss w = Some (ss', w')" "settled k ss w" "ip_packet m"
  shows "settled k ss' w'"
proof -
  note wk = settled_wok [OF assms(2)]
  have fit: "tcp_in_fit ti" if "tcp_in_of m n payload uid = Some ti" for ti
    using tcp_in_wp [OF assms(3), of tcp_in_fit n payload uid] that by simp
  show ?thesis
    using assms(1)
  proof (cases rule: handle_tcp_cases)
    case (urgent ti)
    then show ?thesis using assms(2) by simp
  next
    case (reset ti t)
    have "pred_option (\<lambda>(t, w'). wok (w_tick w) w') (write_rst E (tcp_unknown ti) w)"
      by (rule wok.unknown_rst_wp [OF fit [OF reset(1)] wk]) simp
    then show ?thesis using reset(4,5) settled_same [OF assms(2)] by simp
  next
    case (new ti redirect mss ws so)
    let ?C = "\<lambda>x. x \<notin> set (conns ss)"
    note f = fit [OF new(1)]
    have free: "?C (conn_of (tcp_fresh ti mss ws now win rnd))" for now win rnd
    proof -
      have "\<not> tcp_matches ti (TCP c)" if "TCP c \<in> set ss" for c using new(3) that by blast
      then show ?thesis unfolding conn_of_fresh [OF f] tcp_matches_conn [OF f] set_conns by metis
    qed
    have t: "wok (Suc (w_tick w)) (tick w)" using wk by (simp add: wok_def)
    have "pred_option (\<lambda>(so, w'). wok (Suc (w_tick w)) w'
        \<and> (\<forall>s. so = Some s \<longrightarrow> tcp_good ?C (ng_k s) \<and> ng_ptr s = w_tick w)) (tcp_new_session E redirect ti mss ws w)"
      by (rule wok.tcp_new_session_wp [where C = ?C, OF f free t]) simp_all
    then have w': "wok (Suc (w_tick w)) w'" and so: "\<And>s. so = Some s \<Longrightarrow> tcp_good ?C (ng_k s) \<and> ng_ptr s = w_tick w"
      using new(5) by auto
    show ?thesis
    proof (cases so)
      case None
      have "wok (w_tick w) w'" using w' by (simp add: wok_def)
      then show ?thesis using None new(6) settled_same [OF assms(2)] by simp
    next
      case (Some s)
      then show ?thesis
        using new(6) so [OF Some] settled_new [OF assms(2) _ _ _ w', of "TCP s"] by (simp add: tcp_good_typed)
    qed
  next
    case (known ti hostname before c c' behind)
    let ?s = "TCP c"
    have s: "settled k (before @ ?s # behind) w" using assms(2) known(2) by simp
    have "pred_option (\<lambda>(c', w'). kin (own ?s) ?s (TCP c') \<and> wok (w_tick w) w') (tcp_found E ti hostname c w)"
      using settled_in(1) [OF s] by (intro wok.tcp_found_wp [OF _ wk, where C = "own ?s"]) simp_all
    then show ?thesis using known(5,6) settled_kin [OF s] by simp
  qed
qed

lemma handle_udp_wp:
  assumes "settled k ss w"
  shows "pred_option (\<lambda>(ss', w'). settled k ss' w') (handle_udp E m len payload uid ss w)"
proof -
  note wk = settled_wok [OF assms]
  have t: "wok (Suc (w_tick w)) (tick w)" using wk by (simp add: wok_def)
  have none: "settled k ss w'" if "wok (Suc (w_tick w)) w'" for w'
    using that by (intro settled_same [OF assms]) (simp add: wok_def)
  have new: "pred_option (\<lambda>(ss', w'). settled k ss' w')
      (case udp_new_session E version source dest src dst uid w of (new, w) \<Rightarrow>
         (case new of None \<Rightarrow> Some (ss, w)
          | Some s \<Rightarrow> do { (s, w) \<leftarrow> udp_forward E source dest mem n s w; Some (UDP s # ss, w) }))"
    if "addrs_fit version src dst" for version source dest src dst mem n
  proof (cases "udp_new_session E version source dest src dst uid w")
    case (Pair new w')
    show ?thesis
      using wok.udp_new_session_keeps [OF that t Pair] Pair none
      by (auto intro!: wok.udp_forward_wp settled_new [OF assms] split: option.split)
  qed
  show ?thesis
    using assms unfolding handle_udp_def Let_def
    by (auto intro!: reads_wp addrs_wp new wok.udp_forward_wp [OF _ wk] dest!: extract_split
        split: option.split session.split) (erule settled_in settled_put; assumption)+
qed

lemma handle_icmp_wp:
  assumes "settled k ss w"
  shows "pred_option (\<lambda>(sent, ss', w'). settled k ss' w') (handle_icmp E m len payload uid ss w)"
proof -
  note wk = settled_wok [OF assms]
  have t: "wok (Suc (w_tick w)) (tick w)" using wk by (simp add: wok_def)
  have none: "settled k ss w'" if "wok (Suc (w_tick w)) w'" for w'
    using that by (intro settled_same [OF assms]) (simp add: wok_def)
  have new: "pred_option (\<lambda>(sent, ss', w'). settled k ss' w')
      (case icmp_new_session E version src dst ident uid w of (new, w) \<Rightarrow>
         (case new of None \<Rightarrow> Some (False, ss, w)
          | Some s \<Rightarrow> do { (sent, s, w) \<leftarrow> icmp_forward E version dst m payload n s w; Some (sent, ICMP s # ss, w) }))"
    if "addrs_fit version src dst" for version src dst ident n
  proof (cases "icmp_new_session E version src dst ident uid w")
    case (Pair new w')
    show ?thesis
      using wok.icmp_new_session_keeps [OF that t Pair] Pair none
      by (auto intro!: wok.icmp_forward_wp settled_new [OF assms] split: option.split)
  qed
  show ?thesis
    using assms unfolding handle_icmp_def Let_def
    by (auto intro!: reads_wp addrs_wp new wok.icmp_forward_wp [OF _ wk] dest!: extract_split
        split: option.split session.split) (erule settled_in settled_put; assumption)+
qed

lemma dispatch_settled:
  assumes "dispatch E args m len protocol payload uid ss w = Some (ss', w')" "settled k ss w" "ip_packet m"
  shows "settled k ss' w'"
  using assms handle_tcp_settled [OF _ assms(2,3)] handle_udp_wp [OF assms(2), of E m len payload uid]
    handle_icmp_wp [OF assms(2), of E m len payload uid]
  by (auto simp: dispatch_def pred_all split: if_splits)

section \<open>The engine\<close>

interpretation settled: engine_inv "settled k" E for k E
proof
  show "settled k ss (tick w)" if "settled k ss w" for ss w
    by (rule settled_same [OF that wok.tick [OF settled_wok [OF that]]])
  show "settled k (a @ b) w" if "settled k (a @ s # b) w" for a s b w
    by (rule settled_removal [OF that])
  show "settled k ss' w'" if "settled k ss w" "ip_packet buf"
    "dispatch E args buf len protocol payload uid ss w = Some (ss', w')" for ss w buf args len protocol payload uid ss' w'
    by (rule dispatch_settled [OF that(3,1,2)])
  fix a s b w
  assume s: "settled k (a @ s # b) w"
  note g = settled_in(1) [OF s] and wk = settled_wok [OF s]
  show "settled k (a @ s' # b) w'" if "check_session E n m s w = Some (del, s', w')" for n m del s' w'
    using wok.check_session_wp [OF g wk, of E n m] that settled_kin [OF s] by simp
  show "settled k (a @ s' # b) w'" if "monitor_session E s w = Some (recheck, s', w')" for recheck s' w'
    using wok.monitor_session_wp [OF g wk, of E] that settled_kin [OF s] by simp
  show "settled k (a @ s' # b) w'" if "session_event E ev s w = Some (s', w')" for ev s' w'
    using wok.session_event_wp [OF g wk, of E ev] that settled_kin [OF s] by simp
  show "settled k (a @ l @ b) w'" if "check_allowed E [s] w = Some (l, w')" for l w'
  proof -
    have l: "l = [] \<or> (\<exists>s'. l = [s'] \<and> kin (own s) s s')" "wok (w_tick w) w'"
      using wok.restart_wp [OF g wk, of E] that by simp_all
    then show ?thesis
      using settled_kin [OF s] settled_same [OF settled_removal [OF s] l(2)] by auto
  qed
qed

lemma clear_wok: "wok k w \<Longrightarrow> fst (clear ss w) = [] \<and> wok k (snd (clear ss w))"
  by (induction ss arbitrary: w) (simp_all add: sys_close_def)

text \<open>Every reachable state of the engine is settled.\<close>

lemma engine_settled: "engine ss w \<Longrightarrow> settled 0 ss w"
proof (induction rule: engine.induct)
  case (fresh w)
  then show ?case by (simp add: settled_def init_def wok_def)
next
  case (started ss w E ss' w')
  from settled.check_allowed_inv [OF started(2), of 0 "[]"] started(3) show ?case by simp
next
  case (turned st E args tun m o1 st')
  from settled.turn_inv [OF turned(2)] turned(3) show ?case by simp
next
  case (cleared ss w ss' w')
  from clear_wok [OF settled_wok [OF cleared(3)], of ss] cleared(2) show ?case
    by (simp add: settled_def wok_def)
next
  case (elapsed ss w)
  then show ?case using settled.at_tick by simp
next
  case (unwatched ss w fd)
  then show ?case using settled_same [OF unwatched(2) wok.emits(9) [OF settled_wok]] by simp
qed

section \<open>The life of the process\<close>

lemma event_loop_engine:
  assumes "event_loop E args tun m st = Some st'"
  shows "engine (lp_sessions st) (lp_world st) \<longrightarrow> engine (lp_sessions st') (lp_world st')"
proof (rule event_loop.raw_induct [OF _ assms])
  fix loop E args tun m st st'
  assume ih: "\<And>E args tun m st st'. loop E args tun m st = Some st' \<Longrightarrow>
      engine (lp_sessions st) (lp_world st) \<longrightarrow> engine (lp_sessions st') (lp_world st')"
    and s: "do { (o1, st) \<leftarrow> turn E args tun m st; if o1 = Go then loop E args tun m st else Some st } = Some st'"
  from s obtain o1 st1 where t: "turn E args tun m st = Some (o1, st1)"
    and r: "(if o1 = Go then loop E args tun m st1 else Some st1) = Some st'"
    by (cases "turn E args tun m st") auto
  show "engine (lp_sessions st) (lp_world st) \<longrightarrow> engine (lp_sessions st') (lp_world st')"
    using engine.turned [OF _ t] ih [of E args tun m st1 st'] r by (cases "o1 = Go") auto
qed

lemma handle_events_engine:
  assumes "handle_events E args tun ss w = Some (ss', w')" "engine ss w"
  shows "engine ss' w'"
proof (cases "e_attach E")
  case True
  obtain m where g: "get_maxsessions E w = (m, tick w)" by (simp add: get_maxsessions_def Let_def)
  from assms(1) True g obtain ss2 w2 where a: "check_allowed E ss (tick w) = Some (ss2, w2)"
    by (cases "check_allowed E ss (tick w)") (auto simp: handle_events_def)
  let ?w3 = "tick (tick (tick w2))"
  let ?stop = "e_epoll_create E (w_tick w2) < 0 \<or> e_watch E (w_tick w2 + 1) \<or> e_watch E (w_tick w2 + 2)"
  have s: "engine ss2 ?w3" using engine.started [OF engine.elapsed [OF assms(2)] a] by (intro engine.elapsed)
  let ?st = "\<lparr>lp_sessions = ss2, lp_last_check = 0, lp_world = ?w3\<rparr>"
  show ?thesis
  proof (cases ?stop)
    case True
    then show ?thesis using assms(1) \<open>e_attach E\<close> g a s
      by (auto simp: handle_events_def Let_def split: if_splits intro: engine.unwatched)
  next
    case False
    with assms(1) \<open>e_attach E\<close> g a obtain st' where l: "event_loop E args tun m ?st = Some st'"
      by (cases "event_loop E args tun m ?st") (auto simp: handle_events_def Let_def)
    then have "engine (lp_sessions st') (lp_world st')" using event_loop_engine [OF l] s by simp
    then show ?thesis using assms(1) \<open>e_attach E\<close> g a False l
      by (auto simp: handle_events_def Let_def split: if_splits intro: engine.unwatched)
  qed
qed (use assms in \<open>simp add: handle_events_def\<close>)

lemma run_thread_engine:
  assumes "engine (p_sessions p) (p_world p)" "run_thread H p = Some p'"
  shows "engine (p_sessions p') (p_world p')"
  using assms handle_events_engine by (auto simp: run_thread_def bind_eq_Some_conv split: option.splits)

lemma clear_all_engine:
  assumes "engine (p_sessions p) (p_world p)"
  shows "engine (p_sessions (clear_all p)) (p_world (clear_all p))"
proof (cases "clear (p_sessions p) (p_world p)")
  case (Pair ss w)
  then show ?thesis using engine.cleared [OF assms Pair] by (simp add: clear_all_def)
qed

lemma life_engine: "life p \<Longrightarrow> engine (p_sessions p) (p_world p)"
proof (induction rule: life.induct)
  case (loaded w ss)
  then show ?case using engine.fresh by (simp add: jni_init_def)
next
  case (start p H tun fwd53 rcode ip port p')
  then show ?case using jni_start_same [OF start(2)] by simp
next
  case (ended p H p')
  show ?case by (rule run_thread_engine [OF ended(3) ended(2)])
next
  case (stop p H p')
  then show ?case
    using clear_all_engine run_thread_engine by (auto simp: jni_stop_def bind_eq_Some_conv split: option.splits if_splits)
next
  case (over p)
  then show ?case using clear_all_engine by (simp add: jni_done_def)
qed

section \<open>Properties\<close>

text \<open>
  C7. Every session of every reachable state is well typed, whatever packets came out of the tunnel and
  whatever the kernel answered: its addresses have the size of its IP version, the window scale of a TCP session is one by
  which the code can shift, a TCP segment never counts more bytes as sent than it has nor has more than its memory, a UDP session never reads more than fits in a
  packet; no two sessions have the same address in memory; and a TCP connection (version, addresses and ports)
  has one session at most.
\<close>

theorem engine_well_typed:
  assumes "engine ss w"
  shows "(\<forall>s \<in> set ss. sess_typed s) \<and> distinct (map sess_ptr ss) \<and> distinct (conns ss)"
  using engine_settled [OF assms] by (simp add: settled_def)

theorem engine_well_typed_witness:
  "\<exists>w. engine [UDP answered_session] w \<and> udp_typed (ng_k answered_session)"
  using engine_well_typed [OF busy_engine] busy_engine by auto

text \<open>
  C6. Every packet the engine ever wrote to the tunnel is one a receiver accepts: version, header length and
  total length are right, the IPv4 header checksum verifies, and so do the checksums of TCP and UDP with their
  pseudo header and of ICMP. The exception are TCP packets that do not fit in 65535 bytes, which a client
  can ask for with a large maximum segment size; ICMPv6 checksums are not covered, and a checksum field of
  zero is verified like any other.
\<close>

theorem engine_packets_valid:
  assumes "engine ss w" and "TunWrite p \<in> set (w_trace w)"
  shows "rx_ok p \<or> oversize p"
  using engine_settled [OF assms(1)] assms(2) by (simp add: settled_def wok_def)

theorem engine_packets_valid_witness:
  "TunWrite busy_answer \<in> set (w_trace answered_world) \<and> rx_ok busy_answer"
proof -
  have t: "TunWrite busy_answer \<in> set (w_trace answered_world)" by (simp add: answered_world_def)
  have "length busy_answer = 29" by (rule length_busy_answer)
  with engine_packets_valid [OF busy_engine t] t show ?thesis by (simp add: oversize_def)
qed

text \<open>
  C13. An event reaches the session whose socket it is about. What was registered when the wait began belongs to
  one session; when the events before it in the batch have been handled, exactly one session has the address
  registered with the socket, and it is the one the handler is called with.
\<close>

theorem event_reaches_owner:
  assumes "engine (lp_sessions st) (lp_world st)" and "prepare E m st = Some (n, wait, st1)"
    and "(fd, p) \<in> registered (w_trace (lp_world st1))"
    and "handle_all E args tun n m es (lp_sessions st1) (tick (lp_world st1)) = Some (Go, ss1, w1)"
  shows "(\<exists>!s. s \<in> set (lp_sessions st1) \<and> sess_ptr s = p) \<and> (\<exists>s \<in> set (lp_sessions st1). sess_ptr s = p \<and> sess_socket s = fd)
    \<and> (\<exists>before s behind. ss1 = before @ s # behind \<and> sess_ptr s = p \<and> (\<forall>s' \<in> set before \<union> set behind. sess_ptr s' \<noteq> p)
        \<and> handle_event E args tun n m (SessReady p, ev) ss1 w1
          = do { (s, w) \<leftarrow> session_event E ev s w1; Some (Go, before @ s # behind, w) })"
proof -
  have snd: "sound (lp_sessions st1) (lp_world st1)"
    using prepare_sound [OF assms(2)] engine_keeps [OF assms(1)] by simp
  have set1: "settled 0 (lp_sessions st1) (lp_world st1)"
    by (rule settled.prepare_inv [OF assms(2) engine_settled [OF assms(1)]])
  from snd assms(3) obtain s0 where s0: "s0 \<in> set (lp_sessions st1)" "sess_ptr s0 = p" "sess_socket s0 = fd"
    by (auto simp: sound_def accounted_def)
  have inj: "inj_on sess_ptr (set (lp_sessions st1))" using set1 by (simp add: settled_def distinct_map)
  have one: "\<exists>!s. s \<in> set (lp_sessions st1) \<and> sess_ptr s = p"
  proof (rule ex1I [of _ s0])
    show "s = s0" if "s \<in> set (lp_sessions st1) \<and> sess_ptr s = p" for s
      using that s0 inj_onD [OF inj, of s s0] by simp
  qed (simp add: s0)
  have "sound (lp_sessions st1) (tick (lp_world st1))" using snd sound_trace [of "tick (lp_world st1)" "lp_world st1"] by simp
  then have "p \<in> sess_ptr ` set ss1" using handle_all_keeps [OF assms(4)] s0 by (auto simp: keeps_def)
  then have "List.extract (\<lambda>s. sess_ptr s = p) ss1 \<noteq> None" by (auto simp: extract_None_iff)
  then obtain before s behind where x: "List.extract (\<lambda>s. sess_ptr s = p) ss1 = Some (before, s, behind)" by auto
  have ss1: "ss1 = before @ s # behind" "sess_ptr s = p" using extract_split [OF x] by simp_all
  have "settled 0 ss1 w1" by (rule settled.handle_all_inv [OF assms(4) settled.at_tick [OF set1]])
  then have other: "\<forall>s' \<in> set before \<union> set behind. sess_ptr s' \<noteq> p" by (auto simp: settled_def ss1)
  have "handle_event E args tun n m (SessReady p, ev) ss1 w1
      = do { (s, w) \<leftarrow> session_event E ev s w1; Some (Go, before @ s # behind, w) }"
    using x by (simp add: handle_event_def)
  with one other s0 ss1 show ?thesis by blast
qed

theorem event_reaches_owner_witness:
  "\<exists>st1. prepare busy 1000 \<lparr>lp_sessions = [UDP busy_session], lp_last_check = 5000, lp_world = opened_world\<rparr> = Some (1, 100, st1)
    \<and> (9, 17) \<in> registered (w_trace (lp_world st1)) \<and> (\<exists>!s. s \<in> set (lp_sessions st1) \<and> sess_ptr s = 17)"
proof -
  let ?st = "\<lparr>lp_sessions = [UDP busy_session], lp_last_check = 5000, lp_world = opened_world\<rparr>"
  let ?st1 = "?st\<lparr>lp_world := opened_world\<lparr>w_tick := 25\<rparr>\<rparr>"
  have e: "engine (lp_sessions ?st) (lp_world ?st)" using busy_opened by simp
  have p: "prepare busy 1000 ?st = Some (1, 100, ?st1)"
    by (simp add: prepare_def monitor_session_def get_ms_def tick_def timeouts opened_world_def)
  have r: "(9, 17) \<in> registered (w_trace (lp_world ?st1))"
    by (simp add: opened_world_def registered_def register1_def)
  have h: "handle_all E args tun n m [] (lp_sessions ?st1) (tick (lp_world ?st1))
      = Some (Go, lp_sessions ?st1, tick (lp_world ?st1))" for E args tun n m by simp
  from event_reaches_owner [OF e p r h] p r show ?thesis by blast
qed



end
