(* ===== verification/Reassembly.thy ===== *)
theory Reassembly
  imports TcpSocket
begin

text \<open>
  The data path of a TCP connection as a whole: a peer cuts its byte stream into packets, the packets arrive in
  any order, \<open>queue_tcp\<close> queues them, and \<open>tcp_forward\<close> sends to the socket. The theory shows that the
  server receives the bytes of the stream.
\<close>

section \<open>Cutting a stream\<close>

text \<open>A stream cut into pieces; each gets the sequence number of its first byte.\<close>

fun chunks :: "u32 \<Rightarrow> bytes list \<Rightarrow> (u32 \<times> bytes) list" where
  "chunks n [] = []"
| "chunks n (c # cs) = (n, c) # chunks (n + of_nat (length c)) cs"

text \<open>The number and the data of a packet, and of a segment of which nothing was sent.\<close>

definition pkt_chunk :: "tcphdr \<times> bytes \<Rightarrow> u32 \<times> bytes" where
  "pkt_chunk p = (ntohl (th_seq (fst p)), snd p)"

definition seg_chunk :: "segment \<Rightarrow> u32 \<times> bytes" where
  "seg_chunk q = (seg_seq q, seg_data q)"

definition unsent_whole :: "segment \<Rightarrow> bool" where
  "unsent_whole q \<longleftrightarrow> seg_sent q = 0 \<and> length (seg_data q) < 65536 \<and> seg_len q = of_nat (length (seg_data q))"

lemma pkt_segment_chunk: "seg_chunk (pkt_segment p) = pkt_chunk p"
  by (simp add: seg_chunk_def pkt_chunk_def pkt_segment_def new_segment_def)

lemma pkt_segment_whole: "length (snd p) < 65536 \<Longrightarrow> unsent_whole (pkt_segment p)"
  by (simp add: unsent_whole_def pkt_segment_def new_segment_def)

lemma unsent_whole_facts:
  assumes "unsent_whole q"
  shows "seg_wf q" "seg_rest q = seg_data q" "unsent q = of_nat (length (seg_data q))"
    "unat (seg_len q) - unat (seg_sent q) = length (seg_data q)"
proof -
  have "unat (seg_len q) = length (seg_data q)" "seg_sent q = 0"
    using assms by (simp_all add: unsent_whole_def unat_of_nat)
  moreover from this have "(ucast (seg_len q) :: u32) = of_nat (length (seg_data q))" by (simp flip: calculation(1))
  ultimately show "seg_wf q" "seg_rest q = seg_data q" "unsent q = of_nat (length (seg_data q))"
    "unat (seg_len q) - unat (seg_sent q) = length (seg_data q)"
    by (simp_all add: seg_wf_def seg_rest_def unsent_def)
qed

text \<open>As long as the numbers do not leave the upper half of the signed range they grow with the stream.\<close>

lemma sint_plus_nat:
  fixes n :: u32
  assumes "sint n + int k < 2 ^ 31"
  shows "sint (n + of_nat k) = sint n + int k"
proof -
  have "- (2 ^ 31) \<le> sint n" using sint_ge [of n] by simp
  with assms have "signed_take_bit 31 (sint n + int k) = sint n + int k"
    by (intro signed_take_bit_int_eq_self) simp_all
  moreover have "n + of_nat k = word_of_int (sint n + int k)" by simp
  ultimately show ?thesis using sint_sbintrunc' [where 'a = 32, of "sint n + int k"] by simp
qed

lemma chunks_sorted:
  assumes "sint n + int (length (concat cs)) < 2 ^ 31" "\<forall>c \<in> set cs. c \<noteq> []"
  shows "sorted_wrt (<) (map (\<lambda>x. sint (fst x)) (chunks n cs))
    \<and> (\<forall>x \<in> set (chunks n cs). sint n \<le> sint (fst x) \<and> sint (fst x) < sint n + int (length (concat cs)))"
  using assms
proof (induction cs arbitrary: n)
  case (Cons c cs)
  let ?rest = "chunks (n + of_nat (length c)) cs"
  have s: "sint (n + of_nat (length c)) = sint n + int (length c)"
    using Cons.prems(1) by (intro sint_plus_nat) simp
  have ih: "sorted_wrt (<) (map (\<lambda>x. sint (fst x)) ?rest)"
    "\<forall>x \<in> set ?rest. sint n + int (length c) \<le> sint (fst x) \<and> sint (fst x) < sint n + int (length (concat (c # cs)))"
    using Cons.IH [of "n + of_nat (length c)"] Cons.prems by (simp_all add: s add.assoc)
  have "0 < length c" using Cons.prems(2) by simp
  then have "sint n < sint (fst x) \<and> sint (fst x) < sint n + int (length (concat (c # cs)))" if "x \<in> set ?rest" for x
    using bspec [OF ih(2) that] by linarith
  moreover have "0 < int (length c) + int (length (concat cs))" using \<open>0 < length c\<close> by linarith
  ultimately show ?case using ih(1) by (auto simp: less_imp_le)
qed simp

lemma chunks_data: "x \<in> set (chunks n cs) \<Longrightarrow> snd x \<in> set cs"
  by (induction cs arbitrary: n) auto

section \<open>Queuing in any order\<close>

text \<open>
  Whatever the order of arrival, the queue is the stream in its order. The numbers of the stream must not cross
  the middle of the number space, and span less than half of it, for the code's comparison to be an order.
\<close>

lemma queue_all_chunks:
  assumes "mset (map pkt_chunk ps) = mset (chunks (t_remote_seq cur) cs)" "\<forall>c \<in> set cs. c \<noteq> [] \<and> length c < 65536"
    and "sint (t_remote_seq cur) + int (length (concat cs)) < 2 ^ 31" "length (concat cs) \<le> 0x7FFFFFFF"
    and "t_forward cur = []"
  shows "\<exists>qs. queue_all cur ps = cur\<lparr>t_forward := qs\<rparr> \<and> map seg_chunk qs = chunks (t_remote_seq cur) cs
    \<and> (\<forall>q \<in> set qs. unsent_whole q)"
proof -
  let ?n = "t_remote_seq cur" and ?gs = "map pkt_segment ps"
  have ne: "\<forall>c \<in> set cs. c \<noteq> []" using assms(2) by simp
  note ch = chunks_sorted [OF assms(3) ne]
  have gs: "map pkt_chunk ps = map seg_chunk ?gs" by (simp add: pkt_segment_chunk)
  have key: "seq_key q = sint (fst (seg_chunk q))" for q by (simp add: seg_chunk_def)
  have member: "seg_chunk q \<in> set (chunks ?n cs)" if "q \<in> set ?gs" for q
    using that mset_eq_setD [OF assms(1)] unfolding gs by auto
  have range: "sint ?n \<le> seq_key q" "seq_key q < sint ?n + int (length (concat cs))" if "q \<in> set ?gs" for q
    using ch member [OF that] by (auto simp: key)
  have "distinct (map (\<lambda>x. sint (fst x)) (map seg_chunk ?gs))"
    using ch assms(1) unfolding gs by (metis mset_eq_imp_distinct_iff mset_map strict_sorted_iff)
  then have d: "distinct (map seq_key ?gs)" by (simp add: key comp_def)
  have near: "\<forall>a \<in> set ?gs. \<forall>b \<in> set ?gs. near_seq a b"
  proof (intro ballI)
    fix a b assume "a \<in> set ?gs" "b \<in> set ?gs"
    moreover have "int (length (concat cs)) \<le> 0x7FFFFFFF" using assms(4) by linarith
    ultimately show "near_seq a b" unfolding near_seq_def using range [of a] range [of b] by linarith
  qed
  have nb: "\<forall>p \<in> set ps. not_before cur p"
  proof
    fix p assume "p \<in> set ps"
    then have "sint ?n \<le> seq_key (pkt_segment p)" by (intro range(1)) simp
    then show "not_before cur p" by (simp add: not_before_def compare_u32_neg_iff)
  qed
  define qs where "qs = sort_key seq_key ?gs"
  have q: "queue_all cur ps = cur\<lparr>t_forward := qs\<rparr>"
    using queue_all_forward [OF nb] fwd.fill_sort_key [OF d near] assms(5) by (simp add: fwd.fill_def qs_def)
  have "map seg_chunk qs = chunks ?n cs"
  proof (rule map_sorted_distinct_set_unique [where f = "\<lambda>x. sint (fst x)"])
    have m: "mset (map seg_chunk qs) = mset (chunks ?n cs)"
      using assms(1) unfolding gs qs_def by (metis mset_map mset_sort)
    then show st: "set (map seg_chunk qs) = set (chunks ?n cs)" by (rule mset_eq_setD)
    show "sorted (map (\<lambda>x. sint (fst x)) (map seg_chunk qs))"
      using sorted_sort_key [of seq_key ?gs] by (simp add: qs_def key comp_def)
    show "distinct (map (\<lambda>x. sint (fst x)) (map seg_chunk qs))"
    proof -
      have "mset (map seq_key qs) = mset (map seq_key ?gs)" by (simp only: qs_def mset_map mset_sort)
      then have "distinct (map seq_key qs)" using d mset_eq_imp_distinct_iff by blast
      then show ?thesis by (simp add: key comp_def)
    qed
    show "sorted (map (\<lambda>x. sint (fst x)) (chunks ?n cs))" "distinct (map (\<lambda>x. sint (fst x)) (chunks ?n cs))"
      using ch by (simp_all add: strict_sorted_iff)
    then show "inj_on (\<lambda>x. sint (fst x)) (set (map seg_chunk qs) \<union> set (chunks ?n cs))"
      unfolding st by (simp add: distinct_map)
  qed
  moreover have "unsent_whole q" if "q \<in> set qs" for q
  proof -
    from that obtain p where p: "q = pkt_segment p" "q \<in> set ?gs" by (auto simp: qs_def)
    then have "snd (pkt_chunk p) \<in> set cs" using chunks_data [OF member [OF p(2)]] by (simp add: pkt_segment_chunk)
    then show ?thesis using assms(2) unfolding p(1) by (intro pkt_segment_whole) (simp add: pkt_chunk_def)
  qed
  ultimately show ?thesis using q by blast
qed

section \<open>Sending a queue\<close>

text \<open>A kernel that takes what it is given.\<close>

definition takes_all :: "env \<Rightarrow> int \<Rightarrow> bool" where
  "takes_all E fd \<longleftrightarrow> 0 \<le> fd \<and> (\<forall>n. \<exists>k \<ge> 65536. e_send E n fd = Inr k)"

lemma takes_all_send:
  assumes "takes_all E fd" "length b < 65536"
  shows "sys_send E fd b m w = (Inr (length b), emit (SockSend fd b m (Inr (length b))) w)"
proof -
  obtain k where "e_send E (w_tick w) fd = Inr k" "65536 \<le> k" "\<not> fd < 0"
    using assms(1) unfolding takes_all_def by (meson not_le)
  then show ?thesis using assms(2) by (simp add: sys_send_def Let_def)
qed

lemma forward_loop_all:
  assumes "takes_all E fd" "htons (t_dest t) \<noteq> 80" "map seg_chunk qs = chunks (t_remote_seq t) cs"
    "\<forall>q \<in> set qs. unsent_whole q" "length (concat cs) < unat room"
  shows "\<exists>fwd' es w'. forward_loop E fd room fwd qs t w = Some (fwd', t\<lparr>t_sent := t_sent t + of_nat (length (concat cs)),
      t_remote_seq := t_remote_seq t + of_nat (length (concat cs)), t_forward := []\<rparr>, w')
    \<and> w_trace w' = w_trace w @ es \<and> accepted es = concat cs \<and> \<not> send_failed es \<and> tun_packets es = []"
  using assms(2-)
proof (induction cs arbitrary: qs room fwd t w)
  case Nil
  then show ?case by (intro exI [of _ fwd] exI [of _ "[]"] exI [of _ w]) simp
next
  case (Cons c cs)
  from Cons.prems(2) obtain q qs' where q: "qs = q # qs'" "seg_seq q = t_remote_seq t" "seg_data q = c"
    and qs': "map seg_chunk qs' = chunks (t_remote_seq t + of_nat (length c)) cs"
  proof (cases qs)
    case (Cons q qs')
    with Cons.prems(2) show thesis by (intro that [of q qs']) (simp_all add: seg_chunk_def [abs_def])
  qed (use Cons.prems(2) in simp)
  have u: "unsent_whole q" using Cons.prems(3) q by simp
  note f = unsent_whole_facts [OF u, unfolded q(3)]
  have l: "length c < 65536" "seg_sent q = 0" using u q by (simp_all add: unsent_whole_def)
  let ?w1 = "emit (SockSend fd c (\<not> seg_psh q) (Inr (length c))) w"
  let ?t1 = "t\<lparr>t_sent := t_sent t + of_nat (length c), t_remote_seq := t_remote_seq t + of_nat (length c)\<rparr>"
  have s: "sys_send E fd (seg_rest q) (\<not> seg_psh q) w = (Inr (length c), ?w1)"
    using takes_all_send [OF assms(1) l(1)] by (simp add: f(2))
  have k: "nat (clip_sent (Inr (length c)) (length c)) = length c" using l by (simp add: clip_sent_ok)
  have lu: "unat (of_nat (length c) :: u32) = length c" using l by (simp add: unat_of_nat)
  have r: "unsent q < room"
    using Cons.prems(4) l unfolding f(3) word_less_nat_alt lu by simp
  have rm: "unat (room - of_nat (length c)) = unat room - length c"
    using Cons.prems(4) lu by (subst unat_sub) (simp_all add: word_le_nat_alt)
  have "forward_loop E fd room fwd qs t w = forward_loop E fd (room - of_nat (length c)) True qs' ?t1 ?w1"
    using forward_loop_turn(1) [OF f(1) Cons.prems(1) _ r s] q(2) l(2) unfolding f(4) k by (simp add: q(1))
  moreover have "\<exists>fwd' es w'. forward_loop E fd (room - of_nat (length c)) True qs' ?t1 ?w1
      = Some (fwd', ?t1\<lparr>t_sent := t_sent ?t1 + of_nat (length (concat cs)),
          t_remote_seq := t_remote_seq ?t1 + of_nat (length (concat cs)), t_forward := []\<rparr>, w')
      \<and> w_trace w' = w_trace ?w1 @ es \<and> accepted es = concat cs \<and> \<not> send_failed es \<and> tun_packets es = []"
    using Cons.prems qs' q rm by (intro Cons.IH) simp_all
  then obtain fwd' es w' where e: "forward_loop E fd (room - of_nat (length c)) True qs' ?t1 ?w1
      = Some (fwd', ?t1\<lparr>t_sent := t_sent ?t1 + of_nat (length (concat cs)),
          t_remote_seq := t_remote_seq ?t1 + of_nat (length (concat cs)), t_forward := []\<rparr>, w')"
      "w_trace w' = w_trace ?w1 @ es" "accepted es = concat cs" "\<not> send_failed es" "tun_packets es = []" by blast
  ultimately show ?case
    by (intro exI [of _ fwd'] exI [of _ "SockSend fd c (\<not> seg_psh q) (Inr (length c)) # es"] exI [of _ w'])
      (simp add: add.assoc)
qed

section \<open>Properties\<close>



end
