(* ===== verification/TcpRun.thy ===== *)
theory TcpRun
  imports Events
begin

text \<open>
  A run of the engine with one TCP connection, for the witnesses: a client opens a connection to port 80, the
  proxy accepts it, the client acknowledges, the proxy sends two bytes.
\<close>

section \<open>The world\<close>

text \<open>A packet from 10.1.10.1:1024 to 93.184.216.34:80 with the given acknowledgement and flags.\<close>

definition lively_packet :: "bytes \<Rightarrow> u8 \<Rightarrow> bytes" where
  "lively_packet ack flags =
     [0x45, 0, 0, 40, 0, 0, 0, 0, 64, 6, 0, 0, 10, 1, 10, 1, 93, 184, 216, 34,
      4, 0, 0, 80, 0, 0, 3, 232] @ ack @ [0x50, flags, 2, 0, 0, 0, 0, 0]"

definition lively :: env where
  "lively = calm\<lparr>e_epoll_wait := \<lambda>n. Inr (if n = 2 then [(TunReady, EPOLLIN)] else if n = 19 then [(SessReady 7, EPOLLOUT)]
       else [(TunReady, EPOLLIN), (SessReady 7, EPOLLIN)]),
     e_poll := \<lambda>n fd. if n = 3 \<or> n = 25 then (1, 1) else (0, 0),
     e_tun_read := \<lambda>n. Inr (if n < 20 then lively_packet [0, 0, 0, 0] 2 else lively_packet [0, 0, 0, 78] 16),
     e_recv := \<lambda>n fd. Inr [5, 6]\<rparr>"

definition lively_tcp :: tcp_session where
  "lively_tcp = \<lparr>t_uid = - 1, t_time = 1000, t_version = 4, t_mss = 9960, t_recv_scale = 0, t_send_scale = 0,
     t_recv_window = 32768, t_send_window = 512, t_remote_seq = 1000, t_local_seq = 77, t_remote_start = 1000,
     t_local_start = 77, t_acked = 0, t_last_keep_alive = 0, t_sent = 0, t_received = 0, t_saddr = [10, 1, 10, 1],
     t_source = 4, t_daddr = [93, 184, 216, 34], t_dest = 0x5000, t_state = TCP_LISTEN, t_forward = [], t_hostname = [],
     t_connect_sent = TCP_CONNECT_ESTABLISHED\<rparr>"

definition lively_session :: "tcp_session \<Rightarrow> u32 \<Rightarrow> tcp_session ng_session" where
  "lively_session t events = \<lparr>ng_k = t, ng_socket = 9, ng_ev = events, ng_ptr = 7\<rparr>"

lemma lively_fields [simp]:
  "e_char_signed lively = False" "e_time lively n = 1000" "e_ms lively n = 5000" "e_rand lively n = 77"
  "e_tun_write lively n b = int (length b)" "e_socket lively n = Inr 9" "e_protect lively n fd" "e_fcntl lively n fd = 0"
  "e_connect lively n fd = Some EINPROGRESS" "e_recv lively n fd = Inr [5, 6]" "e_sndbuf lively n fd = Some 65536"
  "e_outq lively n fd = Some 0" "\<not> e_epoll_ctl lively n fd" "e_pton lively v4 a = [10, 0, 0, 1]"
  "e_proc lively n p v = None" "e_poll lively n fd = (if n = 3 \<or> n = 25 then (1, 1) else (0, 0))"
  "e_tun_read lively n = Inr (if n < 20 then lively_packet [0, 0, 0, 0] 2 else lively_packet [0, 0, 0, 78] 16)"
  "e_epoll_wait lively n = Inr (if n = 2 then [(TunReady, EPOLLIN)] else if n = 19 then [(SessReady 7, EPOLLOUT)]
     else [(TunReady, EPOLLIN), (SessReady 7, EPOLLIN)])"
  by (simp_all add: lively_def calm_def)

section \<open>Packets of the client\<close>

definition lively_in :: "u32 \<Rightarrow> bool \<Rightarrow> int \<Rightarrow> bytes \<Rightarrow> tcp_in" where
  "lively_in ack syn uid m = \<lparr>ti_version = 4, ti_src = [10, 1, 10, 1], ti_dst = [93, 184, 216, 34],
     ti_hdr = \<lparr>th_source = 4, th_dest = 0x5000, th_seq = 0xE8030000, th_ack_seq = ack, th_doff = 5, th_fin = False,
       th_syn = syn, th_rst = False, th_psh = False, th_ack = \<not> syn, th_urg = False, th_window = 2\<rparr>,
     ti_optlen = 0, ti_mem = m, ti_datalen = 0, ti_uid = uid\<rparr>"

lemma lively_reads:
  "parse_ip (lively_packet [a, b, c, d] f @ r) 40 = Some (Some (4, IPPROTO_TCP, 20))"
  "pkt_addrs 4 (lively_packet [a, b, c, d] f @ r) = Some ([10, 1, 10, 1], [93, 184, 216, 34])"
  "rd_tcphdr (lively_packet [0, 0, 0, 0] 2 @ r) 20 = Some (ti_hdr (lively_in 0 True 0 []))"
  "rd_tcphdr (lively_packet [0, 0, 0, 78] 16 @ r) 20 = Some (ti_hdr (lively_in 0x4E000000 False 0 []))"
  "rd8 (lively_packet [a, b, c, d] f @ r) 0 = Some 0x45" "length (lively_packet [a, b, c, d] f) = 40"
  by (simp_all add: parse_ip_def parse_ip4_def lively_packet_def rd8_def rd16_def rd32_def le16_def le32_def IP_MF_def pkt_addrs_def
      rd_block_def protocols ntohs_def rd_tcphdr_def lively_in_def)

lemma lively_length:
  "length (lively_packet [a, b, c, d] f) = 40" "lively_packet [a, b, c, d] f \<noteq> []"
  "take (unat get_mtu) (lively_packet [a, b, c, d] f) = lively_packet [a, b, c, d] f"
  by (simp_all add: lively_packet_def get_mtu_def MTU_def)

lemma lively_protocol:
  "IPPROTO_TCP \<noteq> IPPROTO_ICMP" "IPPROTO_TCP \<noteq> IPPROTO_ICMPV6" "IPPROTO_TCP \<noteq> IPPROTO_UDP" "size_sub 40 20 = 20"
  by (simp_all add: protocols size_sub_def)

lemma lively_in:
  "tcp_in_of (lively_packet [0, 0, 0, 0] 2 @ r) 40 20 uid = Some (lively_in 0 True uid r)"
  "tcp_in_of (lively_packet [0, 0, 0, 78] 16 @ r) 40 20 uid = Some (lively_in 0x4E000000 False uid r)"
  by (simp_all add: tcp_in_of_def lively_reads lively_in_def)

lemma lively_syn_ack:
  "\<exists>p. tcp_packet (lively_tcp\<lparr>t_remote_seq := 1001\<rparr>) [] True True False False = Some p \<and> length p = 48"
  by (simp add: tcp_packet_def tcp_ip_part_def ip_part_def lively_tcp_def shr32_def ip4_def Let_def)

lemma lively_numbers:
  "htons 0x5000 = 80" "htons 2 = 512" "htonl 0xE8030000 = 1000" "htonl 0x4E000000 = 78" "htons 8080 = 36895"
  by code_simp+

section \<open>The client opens a connection\<close>

definition lively_redirect :: allowed where
  "lively_redirect = \<lparr>al_raddr = lit ''10.0.0.1'', al_rport = 8080\<rparr>"

lemma lively_redirect: "tcp_redirect sample_args = Some lively_redirect"
  by (simp add: tcp_redirect_def sample_args_def cstr_def lit_def lively_redirect_def)

definition lively_opened :: world where
  "lively_opened = \<lparr>w_tick = 18, w_trace = [SockOpen 9 4, SockConnect 9 [10, 0, 0, 1] 36895, EpollAdd 9 12 7]\<rparr>"

lemma lively_new_session:
  "tcp_new_session lively lively_redirect (lively_in 0 True (- 1) m) 9960 0 \<lparr>w_tick = 7, w_trace = []\<rparr>
     = Some (Some (lively_session lively_tcp 12), lively_opened\<lparr>w_tick := 17\<rparr>)"
  by (simp add: tcp_new_session_def lively_in_def shl_int_def shl32_def tcp_fresh_def tcp_syn_data_def lively_redirect_def lit_def
     open_tcp_socket_def sys_defs tick_def emit_def get_receive_window_def get_receive_buffer_def to_forward_def shr32_def
     lively_numbers epoll_bits lively_session_def lively_tcp_def lively_opened_def)

lemma lively_handle_tcp:
  "handle_tcp lively sample_args (lively_packet [0, 0, 0, 0] 2 @ r) 40 20 (- 1) [] \<lparr>w_tick = 7, w_trace = []\<rparr>
     = Some ([TCP (lively_session lively_tcp 12)], lively_opened\<lparr>w_tick := 17\<rparr>)"
proof -
  have i: "ti_mem (lively_in 0 True (- 1) r) = r" "ti_datalen (lively_in 0 True (- 1) r) = 0" "ti_optlen (lively_in 0 True (- 1) r) = 0"
    "th_syn (ti_hdr (lively_in 0 True (- 1) r))" "\<not> th_urg (ti_hdr (lively_in 0 True (- 1) r))" "ti_version (lively_in 0 True (- 1) r) = 4"
    by (simp_all add: lively_in_def)
  have o: "tcp_options m p 0 mss ws = Some (Some (mss, ws))" for m p mss ws by (simp add: tcp_options.simps)
  have m: "get_default_mss 4 = 9960" by code_simp
  show ?thesis
    by (simp add: handle_tcp_def lively_in lively_redirect i o m lively_new_session parse_tls_header_def TLS_HEADER_LEN_def
        extract_Nil_code)
qed

lemma lively_handle_ip:
  "handle_ip lively sample_args (lively_packet [0, 0, 0, 0] 2 @ r) 40 0 1000 [] \<lparr>w_tick = 5, w_trace = []\<rparr>
     = Some ([TCP (lively_session lively_tcp 12)], lively_opened\<lparr>w_tick := 17\<rparr>)"
proof -
  have u: "get_uid lively 4 IPPROTO_TCP sp da dp \<lparr>w_tick = 5, w_trace = []\<rparr> = (- 1, \<lparr>w_tick = 7, w_trace = []\<rparr>)" for sp da dp
    by (simp add: get_uid_def get_uid_sub_def tick_def)
  show ?thesis
    by (simp add: handle_ip_def lively_reads ip_ports_def lively_protocol opens_session_def dispatch_def u lively_handle_tcp) (simp add: lively_in_def)
qed

lemma lively_check_tun:
  "check_tun lively sample_args EPOLLIN 0 1000 [] \<lparr>w_tick = 4, w_trace = []\<rparr>
     = Some (0, [TCP (lively_session lively_tcp 12)], lively_opened\<lparr>w_tick := 17\<rparr>)"
  using lively_handle_ip by (simp add: check_tun_def tun_read_def epoll_bits lively_length allocated_def tick_def)

lemma lively_drain_tun:
  "drain_tun lively sample_args 3 EPOLLIN 0 1000 [] \<lparr>w_tick = 3, w_trace = []\<rparr>
     = Some (False, [TCP (lively_session lively_tcp 12)], lively_opened)"
proof -
  have r: "is_readable lively 3 \<lparr>w_tick = 3, w_trace = []\<rparr> = (True, \<lparr>w_tick = 4, w_trace = []\<rparr>)"
    "is_readable lively 3 (lively_opened\<lparr>w_tick := 17\<rparr>) = (False, lively_opened)"
    by (simp_all add: is_readable_def is_event_def tick_def lively_opened_def Let_def)
  show ?thesis
    by (subst drain_tun.simps) (simp add: r lively_check_tun, subst drain_tun.simps, simp add: r)
qed

lemma lively_turn1:
  "turn lively sample_args 3 1000 \<lparr>lp_sessions = [], lp_last_check = 0, lp_world = start\<rparr>
     = Some (Go, \<lparr>lp_sessions = [TCP (lively_session lively_tcp 12)], lp_last_check = 5000, lp_world = lively_opened\<rparr>)"
  by (simp add: turn_def prepare_def get_ms_def sys_time_def epoll_wait_def timeouts start_def Let_def EPOLL_EVENTS_def
      handle_event_def tick_def lively_drain_tun [unfolded numeral_3_eq_3])

section \<open>The proxy accepts\<close>

definition lively_accepted :: tcp_session where
  "lively_accepted = lively_tcp\<lparr>t_remote_seq := 1001, t_local_seq := 78, t_state := TCP_SYN_RECV\<rparr>"

definition lively_answer :: bytes where
  "lively_answer = the (tcp_packet (lively_tcp\<lparr>t_remote_seq := 1001\<rparr>) [] True True False False)"

definition lively_greeted :: world where
  "lively_greeted = \<lparr>w_tick = 22, w_trace = w_trace lively_opened @ [TunWrite lively_answer]\<rparr>"

lemma lively_turn2:
  "turn lively sample_args 3 1000
       \<lparr>lp_sessions = [TCP (lively_session lively_tcp 12)], lp_last_check = 5000, lp_world = lively_opened\<rparr>
     = Some (Go, \<lparr>lp_sessions = [TCP (lively_session lively_accepted 12)], lp_last_check = 5000, lp_world = lively_greeted\<rparr>)"
proof -
  have p: "tcp_packet (lively_tcp\<lparr>t_remote_seq := 1001\<rparr>) [] True True False False = Some lively_answer"
    and l: "length lively_answer = 48"
    using lively_syn_ack by (auto simp: lively_answer_def)
  have x: "List.extract (\<lambda>s. sess_ptr s = 7) [TCP (lively_session lively_tcp 12)] = Some ([], TCP (lively_session lively_tcp 12), [])"
    by (simp add: extract_Cons_code lively_session_def)
  have m: "monitor_session lively (TCP (lively_session lively_tcp 12)) w = Some (False, TCP (lively_session lively_tcp 12), w)" for w
    by (simp add: monitor_session_def monitor_tcp_session_def monitor_events_def lively_session_def lively_tcp_def epoll_bits lively_numbers)
  have a: "lively_tcp\<lparr>t_remote_seq := t_remote_seq lively_tcp + 1\<rparr> = lively_tcp\<lparr>t_remote_seq := 1001\<rparr>" by (simp add: lively_tcp_def)
  have c: "check_tcp_socket lively EPOLLOUT (lively_session lively_tcp 12) (lively_opened\<lparr>w_tick := 20\<rparr>)
     = Some (lively_session lively_accepted 12, lively_greeted)"
    using p l a
    by (simp add: check_tcp_socket_def tcp_connected_def write_syn_ack_def write_tcp_def tun_write_def sys_time_def lively_session_def
        lively_accepted_def epoll_bits ssize_to_size_def lively_greeted_def lively_opened_def tick_def emit_def lively_tcp_def Let_def)
  show ?thesis
    using c by (simp add: turn_def prepare_def get_ms_def epoll_wait_def timeouts lively_opened_def Let_def EPOLL_EVENTS_def
      handle_event_def tick_def m x session_event_def)
qed

section \<open>The client acknowledges, the proxy sends\<close>

definition lively_acked :: tcp_session where
  "lively_acked = lively_accepted\<lparr>t_acked := 78, t_state := TCP_ESTABLISHED\<rparr>"

definition lively_data :: bytes where
  "lively_data = the (tcp_packet (lively_acked\<lparr>t_received := 2\<rparr>) [5, 6] False True False False)"

definition lively_filled :: tcp_session where
  "lively_filled = lively_acked\<lparr>t_received := 2, t_local_seq := 80\<rparr>"

definition lively_sent :: world where
  "lively_sent = \<lparr>w_tick = 34, w_trace = w_trace lively_greeted @ [EpollMod 9 8, TunWrite lively_data]\<rparr>"

lemma lively_packet_data:
  "\<exists>p. tcp_packet (lively_acked\<lparr>t_received := 2\<rparr>) [5, 6] False True False False = Some p \<and> length p = 42"
  by (simp add: tcp_packet_def tcp_ip_part_def ip_part_def lively_acked_def lively_accepted_def lively_tcp_def shr32_def ip4_def Let_def)

lemma lively_check_tun2:
  "check_tun lively sample_args EPOLLIN 1 1000 [TCP (lively_session lively_accepted 8)] (lively_sent\<lparr>w_tick := 26, w_trace := tr\<rparr>)
     = Some (0, [TCP (lively_session lively_acked 8)], lively_sent\<lparr>w_tick := 28, w_trace := tr\<rparr>)"
proof -
  let ?ti = "lively_in 0x4E000000 False (- 1)"
  have x: "List.extract (tcp_matches (?ti r)) [TCP (lively_session lively_accepted 8)]
      = Some ([], TCP (lively_session lively_accepted 8), [])" for r
    by (simp add: extract_Cons_code tcp_matches_def lively_session_def lively_accepted_def lively_tcp_def lively_in_def ip4_def)
  have f: "tcp_found lively (?ti r) [] (lively_session lively_accepted 8) (lively_sent\<lparr>w_tick := 27, w_trace := tr\<rparr>)
      = Some (lively_session lively_acked 8, lively_sent\<lparr>w_tick := 28, w_trace := tr\<rparr>)" for r
    by (simp add: tcp_found_def tcp_known_def sys_time_def tick_def shl_int_def tcp_control_def tcp_acked_def lively_in_def
        lively_session_def lively_accepted_def lively_acked_def lively_tcp_def lively_sent_def lively_numbers Let_def)
  have i: "ti_mem (?ti r) = r" "ti_datalen (?ti r) = 0" "\<not> th_urg (ti_hdr (?ti r))" for r
    by (simp_all add: lively_in_def)
  have h: "handle_tcp lively sample_args (lively_packet [0, 0, 0, 78] 16 @ r) 40 20 (- 1) [TCP (lively_session lively_accepted 8)]
      (lively_sent\<lparr>w_tick := 27, w_trace := tr\<rparr>) = Some ([TCP (lively_session lively_acked 8)], lively_sent\<lparr>w_tick := 28, w_trace := tr\<rparr>)" for r
    by (simp add: handle_tcp_def lively_in lively_redirect i parse_tls_header_def TLS_HEADER_LEN_def x f)
  have q: "handle_ip lively sample_args (lively_packet [0, 0, 0, 78] 16 @ r) 40 1 1000 [TCP (lively_session lively_accepted 8)]
      (lively_sent\<lparr>w_tick := 27, w_trace := tr\<rparr>) = Some ([TCP (lively_session lively_acked 8)], lively_sent\<lparr>w_tick := 28, w_trace := tr\<rparr>)" for r
    by (simp add: handle_ip_def lively_reads ip_ports_def lively_protocol opens_session_def dispatch_def h) (simp add: lively_in_def h)
  show ?thesis
    using q by (simp add: check_tun_def tun_read_def epoll_bits lively_length allocated_def tick_def lively_sent_def)
qed

lemma lively_drain_tun2:
  "drain_tun lively sample_args 3 EPOLLIN 1 1000 [TCP (lively_session lively_accepted 8)] (lively_sent\<lparr>w_tick := 25, w_trace := tr\<rparr>)
     = Some (False, [TCP (lively_session lively_acked 8)], lively_sent\<lparr>w_tick := 29, w_trace := tr\<rparr>)"
proof -
  have r: "is_readable lively 3 (lively_sent\<lparr>w_tick := 25, w_trace := tr\<rparr>) = (True, lively_sent\<lparr>w_tick := 26, w_trace := tr\<rparr>)"
    "is_readable lively 3 (lively_sent\<lparr>w_tick := 28, w_trace := tr\<rparr>) = (False, lively_sent\<lparr>w_tick := 29, w_trace := tr\<rparr>)"
    by (simp_all add: is_readable_def is_event_def tick_def lively_sent_def Let_def)
  show ?thesis
    by (subst drain_tun.simps) (simp add: r lively_check_tun2, subst drain_tun.simps, simp add: r)
qed

lemma lively_turn3:
  "turn lively sample_args 3 1000
       \<lparr>lp_sessions = [TCP (lively_session lively_accepted 12)], lp_last_check = 5000, lp_world = lively_greeted\<rparr>
     = Some (Go, \<lparr>lp_sessions = [TCP (lively_session lively_filled 8)], lp_last_check = 5000, lp_world = lively_sent\<rparr>)"
proof -
  let ?tr = "w_trace lively_greeted @ [EpollMod 9 8]"
  have p: "tcp_packet (lively_acked\<lparr>t_received := 2\<rparr>) [5, 6] False True False False = Some lively_data"
    and l: "length lively_data = 42"
    using lively_packet_data by (auto simp: lively_data_def)
  have x: "List.extract (\<lambda>s. sess_ptr s = 7) [TCP (lively_session t e)] = Some ([], TCP (lively_session t e), [])" for t e
    by (simp add: extract_Cons_code lively_session_def)
  have m: "monitor_session lively (TCP (lively_session lively_accepted 12)) w
      = Some (False, TCP (lively_session lively_accepted 8), emit (EpollMod 9 8) w)" for w
    by (simp add: monitor_session_def monitor_tcp_session_def monitor_events_def lively_session_def lively_accepted_def lively_tcp_def
        epoll_bits epoll_mod_def)
  have sw: "get_send_window (lively_acked) = 512" "get_send_window (lively_acked\<lparr>t_recv_window := v\<rparr>) = 512" for v
    by (simp_all add: get_send_window_def lively_acked_def lively_accepted_def lively_tcp_def compare_u32_def Let_def)
  have v: "t_state (ng_k (lively_session lively_accepted e)) = TCP_SYN_RECV" for e
    by (simp add: lively_session_def lively_accepted_def)
  have c: "check_tcp_socket lively EPOLLIN (lively_session lively_acked 8) (lively_sent\<lparr>w_tick := 29, w_trace := ?tr\<rparr>)
     = Some (lively_session lively_filled 8, lively_sent)"
    using p l sw
    by (simp add: check_tcp_socket_def tcp_transfer_def tcp_forward_def get_receive_window_def get_receive_buffer_def to_forward_def
        shl32_def shr32_def tcp_ack_forwarded_def tcp_receive_def sys_time_def sys_recv_def
        write_data_def write_tcp_def tun_write_def lively_session_def
        lively_filled_def epoll_bits ssize_to_size_def lively_sent_def tick_def emit_def lively_acked_def lively_accepted_def lively_tcp_def Let_def)
  show ?thesis
    using c lively_drain_tun2 [of ?tr]
    by (simp add: turn_def prepare_def get_ms_def epoll_wait_def timeouts lively_greeted_def Let_def EPOLL_EVENTS_def
      handle_event_def tick_def emit_def m x v session_event_def lively_sent_def)
qed

lemma lively_engine: "engine [TCP (lively_session lively_accepted 12)] lively_greeted"
proof -
  have "engine [] start" using engine.fresh [of start] by (simp add: init_def start_def)
  then have "engine [TCP (lively_session lively_tcp 12)] lively_opened"
    using engine.turned [OF _ lively_turn1] by simp
  then show ?thesis using engine.turned [OF _ lively_turn2] by simp
qed

end
