(* ===== verification/Delivery.thy ===== *)
theory Delivery
  imports Outputs TcpRun
begin

text \<open>
  The way of a TCP stream from the server to the client, in the engine as a whole: what a receiver takes of one
  connection from all the packets that the engine writes to the tunnel is what the socket of its session was
  read. The account of the connection is carried through the steps of its session here, and through the steps of all
  others by the interface of \<open>Relays\<close>; \<open>EngineInv\<close> gives the result for the loop.
\<close>

section \<open>The receiver\<close>

text \<open>The connection of a packet to the client, as its headers say; \<open>None\<close> for all that is not TCP.\<close>

definition wire_conn :: "bytes \<Rightarrow> conn option" where
  "wire_conn p =
     (if rd8 p 0 = Some 0x45 \<and> rd8 p 9 = Some IPPROTO_TCP then
        map_option (\<lambda>h. (4, take 4 (drop 16 p), take 4 (drop 12 p), th_dest h, th_source h)) (rd_tcphdr p 20)
      else if rd8 p 0 = Some 0x60 \<and> rd8 p 6 = Some IPPROTO_TCP then
        map_option (\<lambda>h. (6, take 16 (drop 24 p), take 16 (drop 8 p), th_dest h, th_source h)) (rd_tcphdr p 40)
      else None)"

text \<open>The numbered bytes that a receiver takes of a connection from a packet, and from all that was written.\<close>

definition rx_stream :: "nat \<Rightarrow> bytes \<Rightarrow> (u32 \<times> u8) list" where
  "rx_stream v p = (case rd_tcphdr p (iphl v) of
     None \<Rightarrow> [] | Some h \<Rightarrow> nums (ntohl (th_seq h)) (drop (iphl v + 4 * th_doff h) p))"

definition rx_conn :: "conn \<Rightarrow> bytes \<Rightarrow> (u32 \<times> u8) list" where
  "rx_conn x p = (if wire_conn p = Some x then rx_stream (fst x) p else [])"

definition rx_all :: "conn \<Rightarrow> effect list \<Rightarrow> (u32 \<times> u8) list" where
  "rx_all x es = concat (map (\<lambda>e. case e of TunWrite p \<Rightarrow> rx_conn x p | _ \<Rightarrow> []) es)"

lemma rx_all_simps [simp]:
  "rx_all x [] = []" "rx_all x (a @ b) = rx_all x a @ rx_all x b" "rx_all x [TunWrite p] = rx_conn x p"
  by (simp_all add: rx_all_def)

lemma rx_all_other: "(\<And>p. e \<noteq> TunWrite p) \<Longrightarrow> rx_all x [e] = []"
  by (simp add: rx_all_def split: effect.split)

text \<open>The fields of the IP header that name the connection.\<close>

lemma ip_part_fields:
  assumes "addrs_fit v s d" "ip_part v s d proto n = (ip, ps)"
  shows "length ip = iphl v" "rd8 (ip @ r) 0 = Some (if v = 4 then 0x45 else 0x60)"
    "rd8 (ip @ r) (if v = 4 then 9 else 6) = Some proto"
    "if v = 4 then take 4 (drop 12 (ip @ r)) = view_addr v d \<and> take 4 (drop 16 (ip @ r)) = view_addr v s
     else take 16 (drop 8 (ip @ r)) = view_addr v d \<and> take 16 (drop 24 (ip @ r)) = view_addr v s"
proof -
  show l: "length ip = iphl v" by (rule ip_part_length [OF assms])
  show "rd8 (ip @ r) 0 = Some (if v = 4 then 0x45 else 0x60)"
    "rd8 (ip @ r) (if v = 4 then 9 else 6) = Some proto"
    "if v = 4 then take 4 (drop 12 (ip @ r)) = view_addr v d \<and> take 4 (drop 16 (ip @ r)) = view_addr v s
     else take 16 (drop 8 (ip @ r)) = view_addr v d \<and> take 16 (drop 24 (ip @ r)) = view_addr v s"
    using assms l
    by (auto simp: ip_part_def addrs_fit_def Let_def build_ip4_def ip4_header_def build_ip6_def bytes16_def rd8_def
        nth_append view_addr_def ip4_def iphl_def split: if_splits)
qed

lemma wire_conn_tcp:
  assumes "t_version t \<in> {4, 6}" "addrs_ok t" "tcp_packet t data syn ack fin rst = Some p"
  shows "wire_conn p = Some (conn_of t)"
proof -
  let ?n = "20 + (if syn then 8 else 0) + length data"
  let ?win = "drop_bit (unat (t_recv_scale t)) (t_recv_window t)"
  obtain ip ps where ip: "tcp_ip_part t ?n = (ip, ps)" by (cases "tcp_ip_part t ?n")
  with assms(3) obtain c where p: "p = ip @ tcp_segment t data syn ack fin rst ?win c"
    by (auto simp: tcp_packet_Some_iff Let_def)
  note l = ip_part_fields(1) [OF assms(2) [unfolded addrs_ok_def] ip [unfolded tcp_ip_part_def]]
  note f = ip_part_fields(2-4) [where r = "tcp_segment t data syn ack fin rst ?win c",
      OF assms(2) [unfolded addrs_ok_def] ip [unfolded tcp_ip_part_def], folded p]
  from rd_tcp_segment [OF l, of t data syn ack fin rst ?win c "[]"] obtain h where
    h: "rd_tcphdr p (iphl (t_version t)) = Some h" "th_dest h = t_source t" "th_source h = t_dest t"
    by (simp add: p)
  show ?thesis
  proof (cases "t_version t = 4")
    case True
    with f h show ?thesis by (simp add: wire_conn_def conn_of_def iphl_def)
  next
    case False
    with f h assms(1) show ?thesis by (simp add: wire_conn_def conn_of_def iphl_def)
  qed
qed

lemma wire_conn_none:
  assumes "addrs_fit v s d" "ip_part v s d proto n = (ip, ps)" "proto \<noteq> IPPROTO_TCP"
  shows "wire_conn (ip @ r) = None"
  using ip_part_fields(2,3) [where r = r, OF assms(1,2)] assms(3) by (cases "v = 4") (simp_all add: wire_conn_def)

lemma wire_conn_udp: "udp_typed u \<Longrightarrow> wire_conn (udp_packet u data) = None"
proof -
  assume u: "udp_typed u"
  obtain ip ps where ip: "ip_part (u_version u) (u_saddr u) (u_daddr u) IPPROTO_UDP (8 + length data) = (ip, ps)"
    by (cases "ip_part (u_version u) (u_saddr u) (u_daddr u) IPPROTO_UDP (8 + length data)")
  then obtain r where "udp_packet u data = ip @ r" by (auto simp: udp_packet_def Let_def)
  then show ?thesis using wire_conn_none [OF _ ip] u by (simp add: udp_typed_def protocols)
qed

lemma wire_conn_icmp: "icmp_typed i \<Longrightarrow> wire_conn (icmp_packet i data) = None"
proof -
  assume i: "icmp_typed i"
  let ?proto = "if i_version i = 4 then IPPROTO_ICMP else IPPROTO_ICMPV6"
  obtain ip ps where ip: "ip_part (i_version i) (i_saddr i) (i_daddr i) ?proto (length data) = (ip, ps)"
    by (cases "ip_part (i_version i) (i_saddr i) (i_daddr i) ?proto (length data)")
  then have "icmp_packet i data = ip @ data" by (auto simp: icmp_packet_def ip_part_def Let_def split: if_splits)
  then show ?thesis using wire_conn_none [OF _ ip] i by (simp add: icmp_typed_def protocols)
qed

lemma rx_stream_packet:
  assumes "addrs_ok t" "tcp_packet t data syn ack fin rst = Some p"
  shows "rx_stream (t_version t) p = nums (t_local_seq t) data"
proof -
  let ?n = "20 + (if syn then 8 else 0) + length data"
  let ?win = "drop_bit (unat (t_recv_scale t)) (t_recv_window t)"
  obtain ip ps where ip: "tcp_ip_part t ?n = (ip, ps)" by (cases "tcp_ip_part t ?n")
  with assms(2) obtain c where p: "p = ip @ tcp_segment t data syn ack fin rst ?win c"
    by (auto simp: tcp_packet_Some_iff Let_def)
  have l: "length ip = iphl (t_version t)" by (rule tcp_ip_part_length [OF assms(1) ip])
  have "drop (iphl (t_version t) + 4 * (if syn then 7 else 5)) p = data" using l by (simp add: p tcp_segment_def)
  then show ?thesis
    using rd_tcp_segment [OF l, of t data syn ack fin rst ?win c "[]"] by (simp add: rx_stream_def p split: if_splits)
qed

lemma rx_conn_packet:
  assumes "t_version t \<in> {4, 6}" "addrs_ok t" "tcp_packet t data syn ack fin rst = Some p"
  shows "rx_conn (conn_of t) p = nums (t_local_seq t) data" "x \<noteq> conn_of t \<Longrightarrow> rx_conn x p = []"
    "data = [] \<Longrightarrow> rx_conn x p = []"
proof -
  have v: "fst (conn_of t) = t_version t" by (simp add: conn_of_def)
  show eq: "rx_conn (conn_of t) p = nums (t_local_seq t) data"
    using wire_conn_tcp [OF assms] rx_stream_packet [OF assms(2,3)] by (simp add: rx_conn_def v)
  show other: "x \<noteq> conn_of t \<Longrightarrow> rx_conn x p = []" using wire_conn_tcp [OF assms] by (simp add: rx_conn_def)
  show "data = [] \<Longrightarrow> rx_conn x p = []" using eq other by (cases "x = conn_of t") simp_all
qed

section \<open>The invariant\<close>

text \<open>A connection that can carry data to the client, and one that cannot any more.\<close>

definition flowing :: "tcp_state set" where
  "flowing = {TCP_SYN_RECV, TCP_ESTABLISHED, TCP_CLOSE_WAIT}"

definition ending :: "tcp_state set" where
  "ending = {TCP_FIN_WAIT1, TCP_LAST_ACK, TCP_CLOSING, TCP_CLOSE}"

lemmas phases = flowing_def ending_def

text \<open>The same connection, for which no connection to a server will be asked from the proxy any more.\<close>

definition same_conn :: "tcp_session \<Rightarrow> tcp_session \<Rightarrow> bool" where
  "same_conn t0 t \<longleftrightarrow> conn_of t = conn_of t0 \<and> t_version t \<in> {4, 6} \<and> addrs_ok t
     \<and> (htons (t_dest t) = 443 \<longrightarrow> t_connect_sent t \<noteq> TCP_CONNECT_NOT_SENT)"

text \<open>The call number \<open>fst c\<close> was a read of the socket that gave the bytes \<open>snd c\<close>.\<close>

definition was_read :: "env \<Rightarrow> int \<Rightarrow> nat \<times> bytes \<Rightarrow> bool" where
  "was_read E fd c \<longleftrightarrow> snd c \<noteq> [] \<and> (\<exists>n w. sys_recv E fd n w = (Inr (snd c), tick w) \<and> w_tick w = fst c)"

text \<open>All bytes of a list of reads.\<close>

definition pieces :: "(nat \<times> bytes) list \<Rightarrow> bytes" where
  "pieces cs = concat (map snd cs)"

text \<open>
  Where the account starts: the system, the socket, the session, the count of calls and the trace.
\<close>

record origin =
  o_env :: env
  o_fd :: int
  o_conn :: tcp_session
  o_from :: nat
  o_trace :: "effect list"

text \<open>The reads of the socket since the start, in their order.\<close>

definition reads :: "origin \<Rightarrow> (nat \<times> bytes) list \<Rightarrow> nat \<Rightarrow> bool" where
  "reads b cs k \<longleftrightarrow> sorted_wrt (<) (map fst cs)
     \<and> (\<forall>c \<in> set cs. was_read (o_env b) (o_fd b) c \<and> o_from b \<le> fst c \<and> fst c < k)"

text \<open>What a receiver took since the start.\<close>

definition taken :: "origin \<Rightarrow> bytes \<Rightarrow> world \<Rightarrow> bool" where
  "taken b d w \<longleftrightarrow> o_from b \<le> w_tick w \<and> (\<exists>es. w_trace w = o_trace b @ es
     \<and> rx_all (conn_of (o_conn b)) es = nums (t_local_seq (o_conn b)) d)"

text \<open>While the connection flows, its number and its counter of bytes are behind the bytes \<open>d\<close>.\<close>

definition behind :: "tcp_session \<Rightarrow> bytes \<Rightarrow> tcp_session \<Rightarrow> bool" where
  "behind t0 d t \<longleftrightarrow> t_state t \<in> flowing \<and> t_local_seq t = t_local_seq t0 + of_nat (length d)
     \<and> t_received t = t_received t0 + of_nat (length d) \<or> t_state t \<in> ending"

text \<open>
  All that a receiver took are the bytes of the reads of the socket, in their order, numbered from the
  local sequence number of the start.
\<close>

definition delivered :: "origin \<Rightarrow> tcp_session \<Rightarrow> world \<Rightarrow> bool" where
  "delivered b t w \<longleftrightarrow> same_conn (o_conn b) t
     \<and> (\<exists>cs. reads b cs (w_tick w) \<and> taken b (pieces cs) w \<and> behind (o_conn b) (pieces cs) t)"

lemma reads_later: "reads b cs k \<Longrightarrow> k \<le> j \<Longrightarrow> reads b cs j"
  by (auto simp: reads_def)

lemma taken_emit:
  assumes "taken b d w" "rx_all (conn_of (o_conn b)) [e] = nums (t_local_seq (o_conn b) + of_nat (length d)) d'"
  shows "taken b (d @ d') (emit e w)"
proof -
  from assms(1) obtain es where "w_trace w = o_trace b @ es" "o_from b \<le> w_tick w"
    "rx_all (conn_of (o_conn b)) es = nums (t_local_seq (o_conn b)) d"
    unfolding taken_def by blast
  then show ?thesis
    unfolding taken_def using assms(2) by (auto simp: nums_append intro!: exI [of _ "es @ [e]"])
qed

lemma taken_tick: "taken b d w \<Longrightarrow> taken b d (tick w)"
  by (auto simp: taken_def)

lemma delivered_emit:
  assumes "delivered b t w" "rx_all (conn_of (o_conn b)) [e] = []"
  shows "delivered b t (emit e w)"
  using assms taken_emit [of b _ w e "[]"] unfolding delivered_def
  by (fastforce intro: reads_later)

lemma delivered_tick: "delivered b t w \<Longrightarrow> delivered b t (tick w)"
  using taken_tick [of b _ w] reads_later [of b _ "w_tick w" "Suc (w_tick w)"] unfolding delivered_def by fastforce

interpretation dlv: relays "delivered b t" "\<lambda>x. x \<noteq> conn_of (o_conn b)" for b t
proof
  show "delivered b t (tick w)" if "delivered b t w" for w
    by (rule delivered_tick [OF that])
  show "delivered b t (emit e w)" if "delivered b t w" "\<And>p. e \<noteq> TunWrite p" for w e
    by (rule delivered_emit [OF that(1) rx_all_other [OF that(2)]])
  show "delivered b t (emit (TunWrite p) w)" if "conn_good (\<lambda>x. x \<noteq> conn_of (o_conn b)) t'" "delivered b t w"
    "tcp_packet t' data syn ack fin rst = Some p" for t' w data syn ack fin rst p
    using that(1,2) rx_conn_packet(2) [OF _ _ that(3), of "conn_of (o_conn b)"]
    by (intro delivered_emit) (auto simp: conn_good_def)
  show "delivered b t (emit (TunWrite p) w)" if "tcp_typed t'" "delivered b t w"
    "tcp_packet t' [] syn ack fin rst = Some p" for t' w syn ack fin rst p
    using that(1,2) rx_conn_packet(3) [OF _ _ that(3), of "conn_of (o_conn b)"]
    by (intro delivered_emit) (auto simp: tcp_typed_def)
  show "delivered b t (emit (TunWrite (udp_packet u data)) w)" if "udp_typed u" "delivered b t w" for u data w
    using that wire_conn_udp by (intro delivered_emit) (simp_all add: rx_conn_def)
  show "delivered b t (emit (TunWrite (icmp_packet i data)) w)" if "icmp_typed i" "delivered b t w" for i data w
    using that wire_conn_icmp by (intro delivered_emit) (simp_all add: rx_conn_def)
qed

lemma delivered_update [simp]:
  "delivered b (t\<lparr>t_time := i\<rparr>) w = delivered b t w"
  "delivered b (t\<lparr>t_remote_seq := n\<rparr>) w = delivered b t w"
  "delivered b (t\<lparr>t_acked := n\<rparr>) w = delivered b t w"
  "delivered b (t\<lparr>t_send_window := n\<rparr>) w = delivered b t w"
  "delivered b (t\<lparr>t_recv_window := n\<rparr>) w = delivered b t w"
  "delivered b (t\<lparr>t_last_keep_alive := i\<rparr>) w = delivered b t w"
  "delivered b (t\<lparr>t_sent := c\<rparr>) w = delivered b t w"
  "delivered b (t\<lparr>t_hostname := h\<rparr>) w = delivered b t w"
  "delivered b (t\<lparr>t_forward := qs\<rparr>) w = delivered b t w"
  by (simp_all add: delivered_def same_conn_def addrs_ok_def behind_def)

text \<open>A change of state, within the flowing states or to an end. At an end the numbers do not matter.\<close>

lemma delivered_state:
  assumes "delivered b t w" "st \<in> ending \<or> t_state t \<in> flowing \<and> st \<in> flowing"
  shows "delivered b (t\<lparr>t_state := st\<rparr>) w"
  using assms by (auto simp: delivered_def same_conn_def addrs_ok_def behind_def phases)

lemma delivered_end:
  assumes "delivered b t w" "st \<in> ending"
  shows "delivered b (t\<lparr>t_state := st\<rparr>) w" "delivered b (t\<lparr>t_local_seq := n, t_state := st\<rparr>) w"
  using assms by (auto simp: delivered_def same_conn_def addrs_ok_def behind_def phases)

lemma delivered_uncount [simp]: "delivered b t w \<Longrightarrow> delivered b (tcp_uncount t) w"
  by (auto simp: delivered_def same_conn_def addrs_ok_def behind_def tcp_uncount_def phases)

lemma delivered_not_listen: "delivered b t w \<Longrightarrow> t_state t \<noteq> TCP_LISTEN"
  by (auto simp: delivered_def behind_def phases)

lemma delivered_phase: "delivered b t w \<Longrightarrow> t_state t \<in> flowing \<or> t_state t \<in> ending"
  by (auto simp: delivered_def behind_def)

section \<open>Writing\<close>

lemma write_empty_wp:
  assumes "delivered b t w" "\<And>res w'. delivered b t w' \<Longrightarrow> Q (res, w')"
  shows "pred_option Q (write_tcp E t [] syn ack fin rst w)"
proof (cases "tcp_packet t [] syn ack fin rst")
  case (Some p)
  have "rx_all (conn_of (o_conn b)) [TunWrite p] = []"
    using assms(1) rx_conn_packet(3) [OF _ _ Some] by (simp add: delivered_def same_conn_def)
  then have "delivered b t (emit (TunWrite p) w)" by (rule delivered_emit [OF assms(1)])
  then show ?thesis using assms(2) by (simp add: write_tcp_def Some tun_write_def Let_def)
qed (simp add: write_tcp_def)

lemma write_wrapper_delivers:
  assumes "delivered b t w" "\<And>w'. delivered b t w' \<Longrightarrow> Q (0, t, w')"
    "\<And>w'. delivered b t w' \<Longrightarrow> Q (- 1, t\<lparr>t_state := TCP_CLOSING\<rparr>, w')"
  shows "pred_option Q (write_ack E t w)" "pred_option Q (write_fin_ack E t w)"
  using assms unfolding write_ack_def write_fin_ack_def
  by (auto intro!: write_empty_wp [OF assms(1)])

lemma write_rst_delivers:
  assumes "delivered b t w" "\<And>t' w'. delivered b t' w' \<Longrightarrow> t_state t' \<in> ending \<Longrightarrow> Q (t', w')"
  shows "pred_option Q (write_rst E t w)"
  using assms delivered_not_listen [OF assms(1)] unfolding write_rst_def
  by (auto intro!: write_empty_wp [OF assms(1)] assms(2) delivered_end simp: Let_def phases)

text \<open>Data from the socket goes to the tunnel behind what was written before.\<close>

lemma write_piece_wp:
  assumes "delivered b t w" "t_state t \<in> flowing" "sys_recv (o_env b) (o_fd b) n w = (Inr d, w1)" "d \<noteq> []"
    and "\<And>w'. delivered b (t\<lparr>t_received := t_received t + of_nat (length d), t_local_seq := t_local_seq t + of_nat (length d)\<rparr>) w'
      \<Longrightarrow> Q (0, t\<lparr>t_received := t_received t + of_nat (length d)\<rparr>, w')"
    and "\<And>t' w'. delivered b t' w' \<Longrightarrow> Q (- 1, t', w')"
  shows "pred_option Q (write_data E (t\<lparr>t_received := t_received t + of_nat (length d)\<rparr>) d w1)"
proof (cases "tcp_packet (t\<lparr>t_received := t_received t + of_nat (length d)\<rparr>) d False True False False")
  case (Some p)
  let ?t = "t\<lparr>t_received := t_received t + of_nat (length d)\<rparr>"
  let ?ok = "?t\<lparr>t_local_seq := t_local_seq t + of_nat (length d)\<rparr>"
  have w1: "w1 = tick w" using assms(3) by (simp add: sys_recv_def)
  from assms(1,2) obtain cs where c: "same_conn (o_conn b) t" "reads b cs (w_tick w)" "taken b (pieces cs) w"
    "behind (o_conn b) (pieces cs) t" unfolding delivered_def by blast
  let ?cs = "cs @ [(w_tick w, d)]"
  have p: "pieces ?cs = pieces cs @ d" by (simp add: pieces_def)
  have l: "t_local_seq t = t_local_seq (o_conn b) + of_nat (length (pieces cs))"
    "t_received t = t_received (o_conn b) + of_nat (length (pieces cs))"
    using c(4) assms(2) by (auto simp: behind_def phases)
  have "was_read (o_env b) (o_fd b) (w_tick w, d)" using assms(3,4) w1 by (auto simp: was_read_def)
  then have r: "reads b ?cs (w_tick (emit (TunWrite p) w1))"
    using c(2,3) unfolding reads_def taken_def by (auto simp: w1 sorted_wrt_append less_Suc_eq)
  have "rx_all (conn_of (o_conn b)) [TunWrite p] = nums (t_local_seq (o_conn b) + of_nat (length (pieces cs))) d"
  proof -
    have "t_version ?t \<in> {4, 6}" "addrs_ok ?t" "conn_of ?t = conn_of (o_conn b)"
      using c(1) by (auto simp: same_conn_def addrs_ok_def)
    then show ?thesis using rx_conn_packet(1) [OF _ _ Some] by (simp add: l(1))
  qed
  then have k: "taken b (pieces ?cs) (emit (TunWrite p) w1)"
    unfolding p w1 by (intro taken_emit taken_tick c(3))
  have "behind (o_conn b) (pieces ?cs) ?ok" using assms(2) by (simp add: behind_def p l add.assoc)
  then have ok: "delivered b ?ok (emit (TunWrite p) w1)"
    unfolding delivered_def using c(1) r k by (auto simp: same_conn_def addrs_ok_def)
  have "behind (o_conn b) (pieces ?cs) (?t\<lparr>t_state := TCP_CLOSING\<rparr>)" by (simp add: behind_def phases)
  then have bad: "delivered b (?t\<lparr>t_state := TCP_CLOSING\<rparr>) (emit (TunWrite p) w1)"
    unfolding delivered_def using c(1) r k by (auto simp: same_conn_def addrs_ok_def)
  show ?thesis
    using assms(5) [OF ok] assms(6) [OF bad] by (simp add: write_data_def write_tcp_def Some tun_write_def Let_def)
qed (simp add: write_data_def write_tcp_def)

section \<open>The periodic work\<close>

text \<open>The session keeps its socket, or has none any more.\<close>

definition carried :: "origin \<Rightarrow> tcp_session ng_session \<Rightarrow> world \<Rightarrow> bool" where
  "carried b s w \<longleftrightarrow> delivered b (ng_k s) w \<and> (ng_socket s = o_fd b \<or> ng_socket s < 0)"

lemma carried_parts:
  "carried b s w \<Longrightarrow> delivered b (ng_k s) w"
  "carried b s w \<Longrightarrow> delivered b t w' \<Longrightarrow> carried b (s\<lparr>ng_k := t\<rparr>) w'"
  by (auto simp: carried_def)

lemma tcp_expire_delivers:
  assumes "delivered b t w" "\<And>t' w'. delivered b t' w' \<Longrightarrow> Q (t', w')"
  shows "pred_option Q (tcp_expire E timeout now t w)"
  using assms delivered_not_listen [OF assms(1)] unfolding tcp_expire_def by (auto intro!: write_rst_delivers [where b = b])

lemma check_tcp_session_delivers:
  assumes "carried b s w"
  shows "pred_option (\<lambda>(del, s', w'). carried b s' w') (check_tcp_session E n m s w)"
  using assms unfolding check_tcp_session_def
  by (auto intro!: timeouts_wp tcp_expire_delivers [where b = b] delivered_end delivered_uncount simp: carried_def tcp_finish_def sys_defs phases)

lemma tcp_read_events_delivers:
  assumes "delivered b t w" "\<And>r ev t' w'. delivered b t' w' \<Longrightarrow> Q (r, ev, t', w')"
  shows "pred_option Q (tcp_read_events E t w)"
  using assms unfolding tcp_read_events_def
  by (auto intro!: write_wrapper_delivers [where b = b] assms(2) delivered_end simp: sys_defs phases)

lemma monitor_events_delivers:
  assumes "delivered b (ng_k s) w" "\<And>r ev t' w'. delivered b t' w' \<Longrightarrow> Q (r, ev, t', w')"
  shows "pred_option Q (monitor_events E s w)"
  using assms unfolding monitor_events_def Let_def by (auto intro!: tcp_read_events_delivers [where b = b] dlv.receive_buffer)

lemma monitor_tcp_session_delivers:
  assumes "carried b s w"
  shows "pred_option (\<lambda>(r, s', w'). carried b s' w') (monitor_tcp_session E s w)"
  using assms unfolding monitor_tcp_session_def
  by (auto intro!: monitor_events_delivers [where b = b] delivered_end simp: carried_def sys_defs phases)

section \<open>Events of the socket\<close>

lemma forward_loop_delivers:
  assumes "delivered b t w" "\<And>fwd t' w'. delivered b t' w' \<Longrightarrow> Q (fwd, t', w')"
  shows "pred_option Q (forward_loop E fd room fwd qs t w)"
  using assms(1)
proof (induction qs arbitrary: fwd room t w)
  case Nil
  then show ?case by (simp add: assms(2))
next
  case (Cons q qs)
  then show ?case
    unfolding forward_loop.simps Let_def
    by (auto intro!: outgoing_wp dlv.send write_rst_delivers [where b = b] assms(2) Cons.IH)
qed

lemma tcp_forward_delivers:
  assumes "delivered b (ng_k s) w" "\<And>fwd t' w'. delivered b t' w' \<Longrightarrow> Q (fwd, t', w')"
  shows "pred_option Q (tcp_forward E ev s w)"
  using assms unfolding tcp_forward_def Let_def by (auto intro!: dlv.receive_buffer forward_loop_delivers [where b = b])

lemma tcp_ack_forwarded_delivers:
  assumes "delivered b t w" "\<And>t' w'. delivered b t' w' \<Longrightarrow> Q (t', w')"
  shows "pred_option Q (tcp_ack_forwarded E fwd window t w)"
  using assms unfolding tcp_ack_forwarded_def Let_def
  by (auto intro!: write_wrapper_delivers [where b = b] assms(2) delivered_end simp: sys_defs phases)

lemma tcp_eof_delivers:
  assumes "delivered b t w" "t_state t \<in> {TCP_ESTABLISHED, TCP_CLOSE_WAIT}" "\<And>t' w'. delivered b t' w' \<Longrightarrow> Q (t', w')"
  shows "pred_option Q (tcp_eof E t w)"
  using assms unfolding tcp_eof_def Let_def
  by (auto intro!: write_wrapper_delivers [where b = b] write_rst_delivers [where b = b] delivered_end assms(3) simp: phases)

lemma tcp_receive_delivers:
  assumes "carried b s w" "t_state (ng_k s) \<in> {TCP_ESTABLISHED, TCP_CLOSE_WAIT}" "o_env b = E"
  shows "pred_option (\<lambda>(s', w'). carried b s' w') (tcp_receive E ev s w)"
proof -
  have "carried b s' w'" if "tcp_receive E ev s w = Some (s', w')" for s' w'
    using that
  proof (cases rule: tcp_receive_cases)
    case (active t0 r w2)
    have w2: "w2 = tick (tick w)" using active(4) by (simp add: sys_recv_def)
    have d: "delivered b t0 w2" "delivered b t0 (tick w)" using assms(1) by (simp_all add: active(3) w2 carried_def)
    have st: "t_state t0 \<in> {TCP_ESTABLISHED, TCP_CLOSE_WAIT}" using assms(2) by (simp add: active(3))
    have so: "ng_socket s = o_fd b \<or> ng_socket s < 0" using assms(1) by (simp add: carried_def)
    from active(5) [unfolded read_outcome_def] show ?thesis
    proof (elim disjE exE conjE)
      fix e assume "s' = s\<lparr>ng_k := t0\<rparr>" "w' = w2"
      then show ?thesis using d so by (simp add: carried_def)
    next
      fix e t1 assume r: "write_rst E t0 w2 = Some (t1, w')" and s': "s' = s\<lparr>ng_k := t1\<rparr>"
      have "pred_option (\<lambda>(t, w). delivered b t w) (write_rst E t0 w2)" by (rule write_rst_delivers [OF d(1)]) simp
      then show ?thesis using r s' so by (simp add: carried_def)
    next
      fix t1 w3 assume f: "tcp_eof E t0 w2 = Some (t1, w3)"
        and s': "s' = s\<lparr>ng_k := t1, ng_socket := - 1\<rparr>" "w' = sys_close (ng_socket s) w3"
      have "pred_option (\<lambda>(t, w). delivered b t w) (tcp_eof E t0 w2)" by (rule tcp_eof_delivers [OF d(1) st]) simp
      then show ?thesis using f s' so by (simp add: carried_def sys_close_def)
    next
      fix buf res t1
      assume r: "r = Inr buf" "buf \<noteq> []"
        and g: "write_data E (t0\<lparr>t_received := t_received t0 + of_nat (length buf)\<rparr>) buf w2 = Some (res, t1, w')"
        and s': "s' = s\<lparr>ng_k := (if res \<ge> 0 then t1\<lparr>t_local_seq := t_local_seq t1 + of_nat (length buf)\<rparr> else t1)\<rparr>"
      have "ng_socket s = o_fd b" using so sys_recv_open active(4) r(1) by force
      then have v: "sys_recv (o_env b) (o_fd b) (read_size (ng_k s)) (tick w) = (Inr buf, w2)"
        using active(4) r(1) assms(3) by simp
      have "pred_option (\<lambda>(res, t, w). delivered b (if res \<ge> 0 then t\<lparr>t_local_seq := t_local_seq t + of_nat (length buf)\<rparr> else t) w)
          (write_data E (t0\<lparr>t_received := t_received t0 + of_nat (length buf)\<rparr>) buf w2)"
        using st by (intro write_piece_wp [OF d(2) _ v r(2)]) (auto simp: phases)
      then show ?thesis using g s' so by (simp add: carried_def)
    qed
  qed (use assms in simp)
  then show ?thesis by (auto simp: pred_all)
qed

lemma tcp_transfer_delivers:
  assumes "carried b s w" "o_env b = E"
  shows "pred_option (\<lambda>(s', w'). carried b s' w') (tcp_transfer E ev s w)"
  using assms unfolding tcp_transfer_def
  by (auto intro!: tcp_forward_delivers [where b = b] dlv.receive_window [where b = b] tcp_ack_forwarded_delivers [where b = b]
      tcp_receive_delivers carried_parts(1) [OF assms(1)] carried_parts(2) [OF assms(1)])

lemma check_tcp_socket_delivers:
  assumes "carried b s w" "o_env b = E"
  shows "pred_option (\<lambda>(s', w'). carried b s' w') (check_tcp_socket E ev s w)"
  using assms carried_parts(1) [OF assms(1)] delivered_not_listen [of b "ng_k s" w] unfolding check_tcp_socket_def
  by (auto intro!: write_rst_delivers [where b = b] tcp_transfer_delivers carried_parts(2) [OF assms(1)] simp: sys_defs)

section \<open>Packets\<close>

lemma tcp_fin_delivers:
  assumes "delivered b t w" "\<And>t' w'. delivered b t' w' \<Longrightarrow> Q (t', w')"
  shows "pred_option Q (tcp_fin E t w)"
  using assms unfolding tcp_fin_def
  by (auto intro!: write_wrapper_delivers [where b = b] assms(2) delivered_state simp: phases)

lemma tcp_acked_delivered: "delivered b t w \<Longrightarrow> delivered b (tcp_acked ack t) w"
  by (auto intro!: delivered_state simp: tcp_acked_def Let_def phases)

lemma tcp_control_delivers:
  assumes "delivered b t w" "\<And>t' w'. delivered b t' w' \<Longrightarrow> Q (t', w')"
  shows "pred_option Q (tcp_control E sock h t w)"
  using assms unfolding tcp_control_def tcp_other_ack_def
  by (auto intro!: tcp_fin_delivers [where b = b] write_rst_delivers [where b = b] assms(2) tcp_acked_delivered delivered_state
      simp: sys_defs phases)

lemma tcp_queue_data_delivers:
  assumes "delivered b t w" "\<And>t'. delivered b t' w \<Longrightarrow> Q t'"
  shows "pred_option Q (tcp_queue_data ti t)"
  using assms tcp_queue_data_frame [of ti t] by (auto simp: pred_all)

lemma tcp_known_delivers:
  assumes "carried b s w"
  shows "pred_option (\<lambda>(s', w'). carried b s' w') (tcp_known E ti s w)"
  using assms carried_parts(1) [OF assms] unfolding tcp_known_def Let_def
  by (auto intro!: write_rst_delivers [where b = b] shl_int_wp tcp_queue_data_delivers [where b = b] tcp_control_delivers [where b = b]
      carried_parts(2) [OF assms] simp: sys_time_def)

lemma tcp_https_delivers:
  assumes "carried b s w" "htons (t_dest (ng_k s)) = 443" "\<And>s' w'. carried b s' w' \<Longrightarrow> Q (s', w')"
  shows "pred_option Q (tcp_https E hostname s w)"
proof -
  note d = carried_parts(1) [OF assms(1)]
  have n: "t_connect_sent (ng_k s) \<noteq> TCP_CONNECT_NOT_SENT" using d assms(2) by (simp add: delivered_def same_conn_def)
  define host where "host = (if hostname \<noteq> [] then hostname else lookup_hostname (ip4 (t_daddr (ng_k s))) 512)"
  have "tcp_https E hostname s w
      = Some (s\<lparr>ng_k := (if host \<noteq> [] then (ng_k s)\<lparr>t_hostname := host\<rparr> else ng_k s)\<rparr>, w)"
    unfolding tcp_https_def Let_def host_def [symmetric] by (cases "host = []") (simp_all add: n)
  then show ?thesis using d carried_parts(2) [OF assms(1)] assms(3) by simp
qed

lemma tcp_found_delivers:
  assumes "carried b s w" "t_dest (ng_k s) = th_dest (ti_hdr ti)"
  shows "pred_option (\<lambda>(s', w'). carried b s' w') (tcp_found E ti hostname s w)"
proof -
  have k: "pred_option (\<lambda>(s', w'). carried b s' w') (if c then do { t \<leftarrow> tcp_queue_data ti (ng_k s1); Some (s1\<lparr>ng_k := t\<rparr>, w1) }
      else tcp_known E ti s1 w1)" if "carried b s1 w1" for c s1 w1
    using carried_parts(1) [OF that] tcp_known_delivers [OF that]
    by (auto intro!: tcp_queue_data_delivers [where b = b and w = w1] carried_parts(2) [OF that])
  show ?thesis
  proof (cases "htons (th_dest (ti_hdr ti)) = 443")
    case True
    then have "htons (t_dest (ng_k s)) = 443" using assms(2) by simp
    then show ?thesis
      unfolding tcp_found_def Let_def pred_bind if_P [OF True] by (rule tcp_https_delivers [OF assms(1)]) (simp only: prod.case k)
  next
    case False
    then show ?thesis using tcp_known_delivers [OF assms(1)] by (simp add: tcp_found_def)
  qed
qed


section \<open>The connection among all sessions\<close>

text \<open>
  The engine is settled and, as long as the session with address \<open>P\<close> exists, its account holds.
\<close>

definition tracked :: "origin \<Rightarrow> nat \<Rightarrow> session list \<Rightarrow> world \<Rightarrow> bool" where
  "tracked b P ss w \<longleftrightarrow> settled (Suc P) ss w \<and> (\<forall>c. TCP c \<in> set ss \<and> ng_ptr c = P \<longrightarrow> carried b c w)"

lemma carried_conn: "carried b c w \<Longrightarrow> conn_of (ng_k c) = conn_of (o_conn b)"
  by (simp add: carried_def delivered_def same_conn_def)

text \<open>The other sessions of the list have other connections and other addresses.\<close>

lemma settled_others:
  assumes "settled k (a @ s # z) w" "TCP c \<in> set a \<union> set z"
  shows "sess_ptr s \<noteq> ng_ptr c" "sess_good (\<lambda>x. x \<noteq> conn_of (ng_k c)) s"
proof -
  have d: "distinct (map sess_ptr (a @ s # z))" "distinct (conns (a @ s # z))" "sess_typed s"
    using assms(1) by (simp_all add: settled_def)
  show "sess_ptr s \<noteq> ng_ptr c" using d(1) assms(2) by (auto simp: image_iff)
  have "conn_of (ng_k c) \<notin> set (conns [s])"
  proof -
    have "conn_of (ng_k c) \<in> set (conns a) \<union> set (conns z)" using assms(2) unfolding Un_iff set_conns by blast
    then show ?thesis using d(2) unfolding conns_simps conns_split [of s z] by auto
  qed
  then show "sess_good (\<lambda>x. x \<noteq> conn_of (ng_k c)) s"
    using d(3) by (intro sess_typed_good) auto
qed

text \<open>One session of the list takes a step.\<close>

lemma tracked_step:
  assumes "tracked b P (a @ s # z) w"
    and step: "\<And>W C. relays W C \<Longrightarrow> sess_good C s \<Longrightarrow> W w \<Longrightarrow> kin C s s' \<and> W w'"
    and mine: "\<And>c. s = TCP c \<Longrightarrow> ng_ptr c = P \<Longrightarrow> carried b c w \<Longrightarrow> \<exists>c'. s' = TCP c' \<and> carried b c' w'"
  shows "tracked b P (a @ s' # z) w'"
proof -
  have set0: "settled (Suc P) (a @ s # z) w" using assms(1) by (simp add: tracked_def)
  have own: "kin (own s) s s'" "wok (w_tick w) w'"
    using step [OF wok.relays_axioms settled_in(1) [OF set0] settled_wok [OF set0]] by simp_all
  have "settled (Suc P) (a @ s' # z) w'" by (rule settled_kin [OF set0 own])
  moreover have "carried b c w'" if i: "TCP c \<in> set (a @ s' # z)" and q: "ng_ptr c = P" for c
  proof (cases "TCP c \<in> set a \<union> set z")
    case True
    then have car: "carried b c w" using assms(1) q by (auto simp: tracked_def)
    have "sess_good (\<lambda>x. x \<noteq> conn_of (o_conn b)) s"
      using settled_others(2) [OF set0 True] carried_conn [OF car] by simp
    from step [OF dlv.relays_axioms this, of "ng_k c"] car show ?thesis by (simp add: carried_def)
  next
    case False
    then have c: "s' = TCP c" using i by auto
    then obtain c0 where c0: "s = TCP c0" "ng_ptr c0 = P" using own(1) q
      by (cases s) (auto simp: kin_def)
    then have "carried b c0 w" using assms(1) by (simp add: tracked_def)
    from mine [OF c0 this] c show ?thesis by simp
  qed
  ultimately show ?thesis by (simp add: tracked_def)
qed

lemma tracked_world:
  assumes "tracked b P ss w" "wok (w_tick w) w'" "\<And>t. delivered b t w \<Longrightarrow> delivered b t w'"
  shows "tracked b P ss w'"
  using assms settled_same [of "Suc P" ss w w'] by (auto simp: tracked_def carried_def)

lemma tracked_removal: "tracked b P (a @ s # z) w \<Longrightarrow> tracked b P (a @ z) w"
  using settled_removal [of "Suc P" a s z w] by (auto simp: tracked_def)

lemma tracked_packet:
  assumes "handle_tcp (o_env b) args m n payload uid ss w = Some (ss', w')" "tracked b P ss w" "ip_packet m"
  shows "tracked b P ss' w'"
proof -
  have set0: "settled (Suc P) ss w" and car: "\<And>c. TCP c \<in> set ss \<Longrightarrow> ng_ptr c = P \<Longrightarrow> carried b c w"
    using assms(2) by (auto simp: tracked_def)
  have set1: "settled (Suc P) ss' w'" by (rule handle_tcp_settled [OF assms(1) set0 assms(3)])
  have fit: "tcp_in_fit ti" if "tcp_in_of m n payload uid = Some ti" for ti
    using tcp_in_wp [OF assms(3), of tcp_in_fit n payload uid] that by simp
  show ?thesis
    using assms(1)
  proof (cases rule: handle_tcp_cases)
    case (urgent ti)
    then show ?thesis using assms(2) by simp
  next
    case (reset ti t)
    have "delivered b t1 w'" if "delivered b t1 w" for t1
    proof -
      have "pred_option (\<lambda>(t, w'). delivered b t1 w') (write_rst (o_env b) (tcp_unknown ti) w)"
        by (rule dlv.unknown_rst_wp [OF fit [OF reset(1)] that]) simp
      then show ?thesis using reset(4) by simp
    qed
    then show ?thesis using car set1 reset(5) by (auto simp: tracked_def carried_def)
  next
    case (new ti redirect mss ws so)
    note f = fit [OF new(1)]
    have P: "P < w_tick w" using set0 by (simp add: settled_def wok_def)
    have "carried b c w'" if c: "TCP c \<in> set ss" "ng_ptr c = P" for c
    proof -
      have d: "carried b c w" by (rule car [OF c])
      have "\<not> tcp_matches ti (TCP c)" using new(3) c(1) by blast
      then have free: "conn_of (tcp_fresh ti mss ws now win rnd) \<noteq> conn_of (o_conn b)" for now win rnd
        unfolding conn_of_fresh [OF f] tcp_matches_conn [OF f] carried_conn [OF d] by metis
      have "delivered b (ng_k c) (tick w)" using d by (simp add: carried_def)
      then have "pred_option (\<lambda>(so, w'). delivered b (ng_k c) w') (tcp_new_session (o_env b) redirect ti mss ws w)"
        by (rule dlv.tcp_new_session_wp [OF f free]) simp_all
      then show ?thesis using new(5) d by (simp add: carried_def)
    qed
    moreover have "ng_ptr s = w_tick w" if "so = Some s" for s
    proof -
      have "pred_option (\<lambda>(so, w'). \<forall>s. so = Some s \<longrightarrow> ng_ptr s = w_tick w) (tcp_new_session (o_env b) redirect ti mss ws w)"
        by (rule wok.tcp_new_session_wp [OF f _ wok.tick [OF settled_wok [OF set0]], where C = "\<lambda>x. True"]) simp_all
      then show ?thesis using new(5) that by simp
    qed
    ultimately show ?thesis using set1 new(6) P unfolding tracked_def by (cases so) auto
  next
    case (known ti hostname before c c' behind)
    have t: "tracked b P (before @ TCP c # behind) w" using assms(2) known(2) by simp
    have dest: "t_dest (ng_k c) = th_dest (ti_hdr ti)" using known(3) by (simp add: tcp_matches_def)
    show ?thesis
      unfolding known(6)
    proof (rule tracked_step [OF t])
      fix W C
      assume r: "relays W C" and g: "sess_good C (TCP c)" and W: "W w"
      have "pred_option (\<lambda>(c', w'). kin C (TCP c) (TCP c') \<and> W w') (tcp_found (o_env b) ti hostname c w)"
        using g W by (intro relays.tcp_found_wp [OF r]) simp_all
      then show "kin C (TCP c) (TCP c') \<and> W w'" using known(5) by simp
    next
      fix c0 assume "TCP c = TCP c0" "carried b c0 w"
      with tcp_found_delivers [of b c w ti "o_env b" hostname] dest known(5)
      show "\<exists>c1. TCP c' = TCP c1 \<and> carried b c1 w'" by simp
    qed
  qed
qed

lemma tracked_dispatch:
  assumes "dispatch (o_env b) args m len protocol payload uid ss w = Some (ss', w')" "tracked b P ss w" "ip_packet m"
  shows "tracked b P ss' w'"
proof (cases "protocol = IPPROTO_TCP")
  case True
  then have "handle_tcp (o_env b) args m len payload uid ss w = Some (ss', w')"
    using assms(1) by (simp add: dispatch_def protocols)
  then show ?thesis by (rule tracked_packet [OF _ assms(2,3)])
next
  case False
  have set0: "settled (Suc P) ss w" and car: "\<And>c. TCP c \<in> set ss \<Longrightarrow> ng_ptr c = P \<Longrightarrow> carried b c w"
    using assms(2) by (auto simp: tracked_def)
  have "tcps ss' = tcps ss \<and> W w'" if r: "relays W C" and W: "W w" for W C
    using assms(1) False relays.handle_udp_tcps [OF r settled_typed [OF set0] W, of "o_env b" m len payload uid]
      relays.handle_icmp_tcps [OF r settled_typed [OF set0] W, of "o_env b" m len payload uid] W
    by (auto simp: dispatch_def pred_all split: if_splits)
  note same = this
  have "carried b c w'" if "TCP c \<in> set ss'" "ng_ptr c = P" for c
  proof -
    have "tcps ss' = tcps ss" using same [OF wok.relays_axioms settled_wok [OF set0]] by blast
    then have "carried b c w" using car that set_tcps by metis
    then show ?thesis using same [OF dlv.relays_axioms, of b "ng_k c"] by (simp add: carried_def)
  qed
  then show ?thesis using dispatch_settled [OF assms(1) set0 assms(3)] by (simp add: tracked_def)
qed

interpretation tracked: engine_inv "tracked b P" "o_env b" for b P
proof
  show "tracked b P ss (tick w)" if "tracked b P ss w" for ss w
    using that settled_wok [of "Suc P" ss w] by (intro tracked_world [OF that]) (simp_all add: tracked_def)
  show "tracked b P (a @ z) w" if "tracked b P (a @ s # z) w" for a s z w
    by (rule tracked_removal [OF that])
  show "tracked b P ss' w'" if "tracked b P ss w" "ip_packet buf"
    "dispatch (o_env b) args buf len protocol payload uid ss w = Some (ss', w')" for ss w buf args len protocol payload uid ss' w'
    by (rule tracked_dispatch [OF that(3,1,2)])
  fix a s z w
  assume t: "tracked b P (a @ s # z) w"
  show "tracked b P (a @ s' # z) w'" if c: "check_session (o_env b) n m s w = Some (del, s', w')" for n m del s' w'
  proof (rule tracked_step [OF t])
    show "kin C s s' \<and> W w'" if "relays W C" "sess_good C s" "W w" for W C
      using relays.check_session_wp [OF that, of "o_env b" n m] c by simp
    show "\<exists>c'. s' = TCP c' \<and> carried b c' w'" if "s = TCP c" "carried b c w" for c
      using check_tcp_session_delivers [OF that(2), of "o_env b" n m] c
      by (cases "check_tcp_session (o_env b) n m c w") (auto simp: that(1))
  qed
  show "tracked b P (a @ s' # z) w'" if c: "monitor_session (o_env b) s w = Some (recheck, s', w')" for recheck s' w'
  proof (rule tracked_step [OF t])
    show "kin C s s' \<and> W w'" if "relays W C" "sess_good C s" "W w" for W C
      using relays.monitor_session_wp [OF that, of "o_env b"] c by simp
    show "\<exists>c'. s' = TCP c' \<and> carried b c' w'" if "s = TCP c" "carried b c w" for c
      using monitor_tcp_session_delivers [OF that(2), of "o_env b"] c that(2)
      by (cases "monitor_tcp_session (o_env b) c w") (auto simp: that(1) monitor_session_def split: if_splits)
  qed
  show "tracked b P (a @ s' # z) w'" if c: "session_event (o_env b) ev s w = Some (s', w')" for ev s' w'
  proof (rule tracked_step [OF t])
    show "kin C s s' \<and> W w'" if "relays W C" "sess_good C s" "W w" for W C
      using relays.session_event_wp [OF that, of "o_env b" ev] c by simp
    show "\<exists>c'. s' = TCP c' \<and> carried b c' w'" if "s = TCP c" "carried b c w" for c
      using check_tcp_socket_delivers [OF that(2) refl, of ev] c
      by (cases "check_tcp_socket (o_env b) ev c w") (auto simp: that(1) session_event_def)
  qed
  show "tracked b P (a @ l @ z) w'" if c: "check_allowed (o_env b) [s] w = Some (l, w')" for l w'
  proof -
    have set0: "settled (Suc P) (a @ s # z) w" using t by (simp add: tracked_def)
    have "l = [] \<or> (\<exists>s'. l = [s'])"
      using wok.restart_wp [OF settled_in(1) [OF set0] settled_wok [OF set0], of "o_env b"] c by auto
    then show ?thesis
    proof (elim disjE exE)
      assume l: "l = []"
      then have "w' = w" using c by (cases s) (auto simp: bind_eq_Some_conv split: if_splits)
      then show ?thesis using tracked_removal [OF t] l by simp
    next
      fix s' assume l: "l = [s']"
      have "tracked b P (a @ s' # z) w'"
      proof (rule tracked_step [OF t])
        show "kin C s s' \<and> W w'" if "relays W C" "sess_good C s" "W w" for W C
          using relays.restart_wp [OF that, of "o_env b"] c l by simp
        show "\<exists>c'. s' = TCP c' \<and> carried b c' w'" if s: "s = TCP c" and k: "carried b c w" for c
        proof -
          have "pred_option (\<lambda>(l, w'). \<exists>c'. l = [TCP c'] \<and> carried b c' w') (check_allowed (o_env b) [TCP c] w)"
            using k carried_parts(1) [OF k]
            by (auto intro!: write_rst_delivers [where b = b] carried_parts(2) [OF k])
          then show ?thesis using c [unfolded s l] by (simp del: check_allowed.simps pred_bind)
        qed
      qed
      then show ?thesis using l by simp
    qed
  qed
qed

section \<open>Runs\<close>

text \<open>
  How the engine goes on from a state: turns of the loop and starts of it, the time that passes between them,
  the end of the loop.
\<close>

inductive onward :: "env \<Rightarrow> session list \<Rightarrow> world \<Rightarrow> session list \<Rightarrow> world \<Rightarrow> bool" for E ss w where
  here: "onward E ss w ss w"
| restarts: "onward E ss w ss1 w1 \<Longrightarrow> check_allowed E ss1 w1 = Some (ss2, w2) \<Longrightarrow> onward E ss w ss2 w2"
| turns: "onward E ss w (lp_sessions st) (lp_world st) \<Longrightarrow> turn E args tun m st = Some (o1, st') \<Longrightarrow>
    onward E ss w (lp_sessions st') (lp_world st')"
| passes: "onward E ss w ss1 w1 \<Longrightarrow> onward E ss w ss1 (tick w1)"
| clears: "onward E ss w ss1 w1 \<Longrightarrow> clear ss1 w1 = (ss2, w2) \<Longrightarrow> onward E ss w ss2 w2"
| unwatches: "onward E ss w ss1 w1 \<Longrightarrow> onward E ss w ss1 (emit (EpollClose fd) w1)"

lemma onward_tracked:
  "onward (o_env b) ss w ss' w' \<Longrightarrow> tracked b P ss w \<Longrightarrow> tracked b P ss' w'"
proof (induction rule: onward.induct)
  case (restarts ss1 w1 ss2 w2)
  then show ?case using tracked.check_allowed_inv [OF restarts(2), of P "[]"] by simp
next
  case (turns st args tun m o1 st')
  then show ?case using tracked.turn_inv [OF turns(2)] by simp
next
  case (passes ss1 w1)
  then show ?case using tracked.at_tick by simp
next
  case (clears ss1 w1 ss2 w2)
  then have "settled (Suc P) ss1 w1" by (simp add: tracked_def)
  from clear_wok [OF settled_wok [OF this], of ss1] this clears(2) show ?case
    by (simp add: tracked_def settled_def wok_def)
next
  case (unwatches ss1 w1 fd)
  then have t: "tracked b P ss1 w1" by simp
  then have "wok (w_tick w1) (emit (EpollClose fd) w1)"
    using settled_wok [of "Suc P" ss1 w1] by (simp add: tracked_def)
  then show ?case by (rule tracked_world [OF t]) simp
qed simp

text \<open>A connection that is set up: data flows, and the proxy is not asked for a connection any more.\<close>

definition relaying :: "tcp_session ng_session \<Rightarrow> bool" where
  "relaying c \<longleftrightarrow> t_state (ng_k c) \<in> flowing
     \<and> (htons (t_dest (ng_k c)) = 443 \<longrightarrow> t_connect_sent (ng_k c) \<noteq> TCP_CONNECT_NOT_SENT)"

definition origin_of :: "env \<Rightarrow> tcp_session ng_session \<Rightarrow> world \<Rightarrow> origin" where
  "origin_of E c w = \<lparr>o_env = E, o_fd = ng_socket c, o_conn = ng_k c, o_from = w_tick w, o_trace = w_trace w\<rparr>"

lemma origin_tracked:
  assumes "settled 0 ss w" "TCP c \<in> set ss" "relaying c"
  shows "tracked (origin_of E c w) (ng_ptr c) ss w"
proof -
  have c: "tcp_typed (ng_k c)" "ng_ptr c < w_tick w" "inj_on sess_ptr (set ss)"
    using assms(1,2) by (auto simp: settled_def distinct_map)
  have "settled (Suc (ng_ptr c)) ss w" using assms(1) c(2) by (simp add: settled_def wok_def)
  moreover have "carried (origin_of E c w) c w"
    using assms(3) c(1) by (auto simp: relaying_def carried_def delivered_def same_conn_def taken_def reads_def behind_def
        origin_of_def pieces_def tcp_typed_def intro!: exI [of _ "[]"])
  moreover have "c' = c" if "TCP c' \<in> set ss" "ng_ptr c' = ng_ptr c" for c'
    using inj_onD [OF c(3), of "TCP c'" "TCP c"] that assms(2) by simp
  ultimately show ?thesis by (auto simp: tracked_def)
qed

section \<open>Property\<close>



end
