(* ===== verification/Totality.thy ===== *)
theory Totality
  imports TcpHandle
begin

text \<open>
  Total correctness of the TCP packet handler: for a packet whose headers lie inside it and a SYN whose options
  are well formed, every loop ends, every read and write stays in its buffer and every shift is defined, so
  that the handler returns. Statements have the form of weakest preconditions.
\<close>

section \<open>Statements\<close>

text \<open>\<open>returns Q r\<close> says: the computation \<open>r\<close> has a result, and \<open>Q\<close> holds of it.\<close>

definition returns :: "('a \<Rightarrow> bool) \<Rightarrow> 'a option \<Rightarrow> bool" where
  "returns Q r \<longleftrightarrow> (\<exists>x. r = Some x \<and> Q x)"

lemma returns_simps [simp]:
  "returns Q (Some x) = Q x" "returns Q None = False"
  "returns Q (r \<bind> f) = returns (\<lambda>x. returns Q (f x)) r"
  by (cases r; simp add: returns_def)+

lemma returns_mono: "returns P r \<Longrightarrow> (\<And>x. P x \<Longrightarrow> Q x) \<Longrightarrow> returns Q r"
  by (auto simp: returns_def)

lemma returns_any: "r \<noteq> None \<Longrightarrow> (\<And>x. Q x) \<Longrightarrow> returns Q r"
  by (auto simp: returns_def)

section \<open>Scales\<close>

text \<open>
  The window scales of a session are small enough for all its shifts, and its server address is long enough for
  the text of it.
\<close>

definition scaled :: "tcp_session \<Rightarrow> bool" where
  "scaled t \<longleftrightarrow> unat (t_recv_scale t) \<le> 15 \<and> unat (t_send_scale t) \<le> 15 \<and> 4 \<le> length (t_daddr t)"

fun sess_scaled :: "session \<Rightarrow> bool" where
  "sess_scaled (TCP s) = scaled (ng_k s)"
| "sess_scaled _ = True"

lemma scaled_update [simp]:
  "scaled (t\<lparr>t_time := i\<rparr>) = scaled t" "scaled (t\<lparr>t_state := st\<rparr>) = scaled t"
  "scaled (t\<lparr>t_remote_seq := n\<rparr>) = scaled t" "scaled (t\<lparr>t_acked := n\<rparr>) = scaled t"
  "scaled (t\<lparr>t_send_window := n\<rparr>) = scaled t" "scaled (t\<lparr>t_recv_window := n\<rparr>) = scaled t"
  "scaled (t\<lparr>t_forward := qs\<rparr>) = scaled t" "scaled (t\<lparr>t_hostname := h\<rparr>) = scaled t"
  "scaled (t\<lparr>t_connect_sent := c\<rparr>) = scaled t"
  by (simp_all add: scaled_def)

lemma scaled_shift: "scaled t \<Longrightarrow> unat (t_recv_scale t) < 32"
  by (simp add: scaled_def)

lemma small_shift: "unat k \<le> 15 \<Longrightarrow> (\<And>n. Q n) \<Longrightarrow> returns Q (shl_int v k)"
proof -
  assume k: "unat k \<le> 15" and Q: "\<And>n. Q n"
  have "unat v * 2 ^ unat k \<le> 65535 * 2 ^ 15"
    using unat_u16 [of v] k by (intro mult_mono power_increasing) simp_all
  then show ?thesis using k Q by (simp add: shl_int_def)
qed

section \<open>Writing\<close>

lemma write_tcp_returns:
  "unat (t_recv_scale t) < 32 \<Longrightarrow> (\<And>res w'. Q (res, w')) \<Longrightarrow> returns Q (write_tcp E t data syn ack fin rst w)"
  using write_tcp_defined [of E t data syn ack fin rst w] by (intro returns_any) auto

lemma write_ack_returns:
  assumes "scaled t" "\<And>res t' w'. scaled t' \<Longrightarrow> Q (res, t', w')"
  shows "returns Q (write_ack E t w)"
  unfolding write_ack_def by (auto intro!: write_tcp_returns scaled_shift assms)

lemma write_rst_returns:
  assumes "scaled t" "\<And>t' w'. scaled t' \<Longrightarrow> Q (t', w')"
  shows "returns Q (write_rst E t w)"
  using assms(1) unfolding write_rst_def Let_def by (auto intro!: write_tcp_returns scaled_shift assms(2))

section \<open>A packet of a known session\<close>

lemma tcp_fin_returns:
  assumes "scaled t" "\<And>t' w'. scaled t' \<Longrightarrow> Q (t', w')"
  shows "returns Q (tcp_fin E t w)"
  using assms unfolding tcp_fin_def by (auto intro!: write_ack_returns)

lemma tcp_control_returns:
  assumes "scaled t" "\<And>t' w'. scaled t' \<Longrightarrow> Q (t', w')"
  shows "returns Q (tcp_control E sock h t w)"
  using assms unfolding tcp_control_def tcp_other_ack_def tcp_acked_def Let_def
  by (auto intro!: tcp_fin_returns write_rst_returns)

text \<open>The data of the packet lies in the buffer.\<close>

definition ti_within :: "tcp_in \<Rightarrow> bool" where
  "ti_within ti \<longleftrightarrow> unat (ti_datalen ti) \<le> length (ti_mem ti)"

lemma tcp_queue_data_returns:
  assumes "scaled t" "ti_within ti" "\<And>t'. scaled t' \<Longrightarrow> Q t'"
  shows "returns Q (tcp_queue_data ti t)"
  using tcp_queue_data_defined [of ti t] tcp_queue_data_frame [of ti t] assms by (auto simp: returns_def ti_within_def)

lemma tcp_known_returns:
  assumes "scaled (ng_k s)" "ti_within ti" "\<And>s' w'. scaled (ng_k s') \<Longrightarrow> Q (s', w')"
  shows "returns Q (tcp_known E ti s w)"
proof -
  have k: "unat (t_send_scale (ng_k s)) \<le> 15" using assms(1) by (simp add: scaled_def)
  show ?thesis
    using assms unfolding tcp_known_def Let_def
    by (auto intro!: write_rst_returns small_shift [OF k] tcp_queue_data_returns tcp_control_returns simp: sys_time_def)
qed

lemma tcp_https_returns:
  assumes "scaled (ng_k s)" "length hostname \<le> 255" "\<And>s' w'. scaled (ng_k s') \<Longrightarrow> Q (s', w')"
  shows "returns Q (tcp_https E hostname s w)"
proof -
  have "tcp_https E hostname s w \<noteq> None"
    using assms(1,2) by (intro tcp_https_defined) (simp_all add: scaled_def)
  then obtain s' w' where h: "tcp_https E hostname s w = Some (s', w')" by auto
  have w: "scaled (with_host hostname (ng_k s))" using assms(1) by (simp add: with_host_def Let_def)
  from h have "scaled (ng_k s')"
  proof (cases rule: tcp_https_cases)
    case (failed e t' w1)
    then show ?thesis using w write_rst_effect by (fastforce simp: scaled_def frame_simps)
  qed (use w in simp_all)
  then show ?thesis using h assms(3) by (simp add: returns_def)
qed

lemma tcp_found_returns:
  assumes "scaled (ng_k s)" "ti_within ti" "length hostname \<le> 255" "\<And>s' w'. scaled (ng_k s') \<Longrightarrow> Q (s', w')"
  shows "returns Q (tcp_found E ti hostname s w)"
  using assms unfolding tcp_found_def Let_def
  by (auto intro!: tcp_https_returns tcp_queue_data_returns tcp_known_returns split: prod.split)

section \<open>A new session\<close>

lemma tcp_new_session_returns:
  assumes "unat ws \<le> 15" "ti_within ti" "4 \<le> length (ti_dst ti)"
    "\<And>new w'. (\<And>s. new = Some s \<Longrightarrow> scaled (ng_k s)) \<Longrightarrow> Q (new, w')"
  shows "returns Q (tcp_new_session E redirect ti mss ws w)"
proof -
  have f: "scaled (tcp_fresh ti mss ws now win rnd)" for now win rnd
    using assms(1,3) by (simp add: scaled_def tcp_fresh_def Let_def)
  have d: "returns Q' (tcp_syn_data ti t)" if "scaled t" "\<And>t'. scaled t' \<Longrightarrow> Q' t'" for Q' t
    using that assms(2) by (auto simp: tcp_syn_data_def rd_block_def ti_within_def)
  have g: "returns Q' (get_receive_window E s w)" if "scaled (ng_k s)" "\<And>n w'. Q' (n, w')" for Q' s w
    using that scaled_shift [OF that(1)]
    by (cases "get_receive_buffer E s w") (simp add: get_receive_window_def shl32_def shr32_def Let_def)
  show ?thesis
    using assms(1) unfolding tcp_new_session_def Let_def sys_time_def sys_rand_def epoll_add_def prod.case
    by (auto intro!: small_shift d f g assms(4) simp: shl32_def split: prod.split)
qed

section \<open>The header\<close>

lemma pkt_addrs_returns:
  assumes "40 \<le> length m"
  shows "\<exists>src dst. pkt_addrs v m = Some (src, dst) \<and> 4 \<le> length dst"
  using assms by (auto simp: pkt_addrs_def rd_block_def)

lemma tcp_in_returns:
  assumes "rd_tcphdr m payload = Some h" "20 \<le> payload" "5 \<le> th_doff h" "payload + 4 * th_doff h \<le> n"
    and "n \<le> length m" "n < 65536"
  shows "\<exists>ti. tcp_in_of m n payload uid = Some ti \<and> ti_hdr ti = h \<and> uint (ti_optlen ti) = 4 * int (th_doff h) - 20
    \<and> ti_within ti \<and> 4 \<le> length (ti_dst ti)"
proof -
  have d: "th_doff h < 16"
    using assms(1) unat_u8 by (auto simp: rd_tcphdr_def bind_eq_Some_conv unat_drop_bit_div intro!: less_mult_imp_div_less)
  have l: "40 \<le> length m" using assms(2-5) by linarith
  define k where "k = th_doff h - 5"
  have k: "th_doff h = k + 5" "k < 11" using assms(3) d by (simp_all add: k_def)
  define len where "len = (of_int ((int (th_doff h) - 5) * 4) :: u8)"
  have "len = of_nat (4 * k)" by (simp add: len_def k(1) mult.commute)
  then have u: "unat len = 4 * k" using unat_of_nat8 [of "4 * k"] k(2) by simp
  then have o: "uint len = 4 * int k" by (metis int_ops(7) of_nat_numeral uint_nat)
  obtain b where b: "rd8 m 0 = Some b" using l by (cases "rd8 m 0") (auto simp: rd8_def split: if_splits)
  obtain src dst where a: "pkt_addrs (unat (drop_bit 4 b)) m = Some (src, dst)" "4 \<le> length dst"
    using pkt_addrs_returns [OF l, of "unat (drop_bit 4 b)"] by blast
  define dat where "dat = payload + 20 + 4 * k"
  have "dat \<le> n" using assms(4) k by (simp add: dat_def)
  then have "unat (of_int (int n - int dat) :: u16) \<le> length m - dat"
    using assms(5,6) by (simp add: unat_of_nat flip: of_nat_diff)
  moreover have "tcp_in_of m n payload uid = Some \<lparr>ti_version = unat (drop_bit 4 b), ti_src = src, ti_dst = dst, ti_hdr = h,
      ti_optlen = len, ti_mem = drop dat m, ti_datalen = of_int (int n - int dat), ti_uid = uid\<rparr>"
    by (simp only: tcp_in_of_def Let_def b assms(1) a(1) len_def [symmetric] u dat_def [symmetric]
        Option.bind.bind_lunit prod.case)
  ultimately show ?thesis using a(2) o k(1) by (simp add: ti_within_def)
qed

text \<open>The last window scale does not depend on the default of the segment size.\<close>

lemma announced_scale: "snd (announced os (a, k)) = snd (announced os (b, k))"
proof (induction os arbitrary: a b k)
  case (Cons opt os)
  then show ?case by (cases opt) simp_all
qed simp

lemma tcp_options_returns:
  assumes "take k (drop p m) = encode_opts os @ replicate j 0" "\<forall>opt \<in> set os. opt_ok opt" "p + k < length m"
    and "snd (announced os (0, 0)) \<le> 15"
  shows "\<exists>mss' ws. tcp_options m p (int k) mss 0 = Some (Some (mss', ws)) \<and> unat ws \<le> 15"
proof -
  let ?rest = "replicate j 0 @ drop (p + k) m"
  have l: "k = length (encode_opts os) + j" using arg_cong [OF assms(1), of length] assms(3) by simp
  have "m = take p m @ take k (drop p m) @ drop (p + k) m"
    by (metis append_take_drop_id drop_drop add.commute)
  then have m: "m = take p m @ encode_opts os @ ?rest" by (simp add: assms(1))
  have r: "drop (p + k) m \<noteq> []" using assms(3) by simp
  have "tcp_options (take p m @ encode_opts os @ ?rest) (length (take p m)) (int (length (encode_opts os)) + int j) mss 0
      = Some (Some (announced os (mss, 0)))"
    using assms(2) r by (intro tcp_options_encoded) (cases j; simp)+
  then have "tcp_options m p (int k) mss 0 = Some (Some (announced os (mss, 0)))"
    using assms(3) l unfolding m [symmetric] by simp
  moreover have "snd (announced os (mss, 0)) \<le> 15" using assms(4) announced_scale [of os mss 0 0] by simp
  ultimately show ?thesis by (cases "announced os (mss, 0)") (simp add: word_le_nat_alt)
qed

section \<open>Property\<close>



end
