(* ===== verification/Progress.thy ===== *)
theory Progress
  imports Outputs Totality TcpRun TcpRun TcpRun TcpRun TcpRun TcpRun
begin

text \<open>
  What always returns: the work of the loop between two waits, the start of the loop, and the handling of
  events, from any state the engine reaches. What may not return is named in the property: the rewriting of
  an HTTP request, the answer of the proxy and DNS answers.
\<close>

section \<open>Writing\<close>

named_theorems ret \<open>operations that return\<close>

lemma good_scale: "tcp_good C t \<Longrightarrow> unat (t_recv_scale t) < 32"
  by (simp add: tcp_good_def conn_good_def)

lemma writes_return [ret]:
  assumes "tcp_good C t" "\<And>res t' w'. tcp_good C t' \<Longrightarrow> t_forward t' = t_forward t \<Longrightarrow> Q (res, t', w')"
  shows "returns Q (write_ack E t w)" "returns Q (write_syn_ack E t w)" "returns Q (write_fin_ack E t w)"
    "returns Q (write_data E t data w)"
  unfolding write_ack_def write_syn_ack_def write_fin_ack_def write_data_def
  by (auto intro!: write_tcp_returns good_scale assms)

lemma write_rst_return [ret]:
  assumes "tcp_good C t" "\<And>t' w'. tcp_good C t' \<Longrightarrow> Q (t', w')"
  shows "returns Q (write_rst E t w)"
  using good_scale [OF assms(1)] assms(1) unfolding write_rst_def Let_def by (auto intro!: write_tcp_returns assms(2))

section \<open>The periodic work\<close>

lemma check_tcp_session_return [ret]:
  assumes "tcp_good C (ng_k s)" "m \<noteq> 0" "\<And>x. Q x"
  shows "returns Q (check_tcp_session E n m s w)"
proof -
  obtain timeout where t: "get_tcp_timeout (ng_k s) n m = Some timeout" using assms(2) tcp_tmo.tmo_defined by blast
  show ?thesis
    using assms(1,3) unfolding check_tcp_session_def tcp_expire_def Let_def sys_time_def
    by (auto simp: t intro!: ret split: prod.split)
qed

lemma sess_timeout_return: "m \<noteq> 0 \<Longrightarrow> sess_timeout s n m \<noteq> None"
  using icmp_tmo.tmo_defined udp_tmo.tmo_defined tcp_tmo.tmo_defined by (cases s) auto

lemma check_session_return [ret]:
  assumes "sess_good C s" "m \<noteq> 0" "\<And>x. Q x"
  shows "returns Q (check_session E n m s w)"
proof (cases s)
  case (ICMP c)
  then show ?thesis
    using sess_timeout_return [OF assms(2), of s n] assms(3) by (auto simp: check_icmp_session_def sys_time_def)
next
  case (UDP c)
  then show ?thesis
    using sess_timeout_return [OF assms(2), of s n] assms(3)
    by (auto simp: check_udp_session_def sys_time_def Let_def split: prod.split)
next
  case (TCP c)
  then show ?thesis using assms by (auto intro!: check_tcp_session_return split: prod.split)
qed

lemma monitor_session_return [ret]:
  assumes "sess_good C s" "\<And>x. Q x"
  shows "returns Q (monitor_session E s w)"
proof (cases s)
  case (TCP c)
  have r: "returns Q' (tcp_read_events E t w)" if "tcp_good C t" "\<And>x. Q' x" for Q' t w
    using that unfolding tcp_read_events_def get_ms_def Let_def prod.case by (auto intro!: ret)
  have e: "returns Q' (monitor_events E c w)" if "\<And>x. Q' x" for Q' w
    using that TCP assms(1) unfolding monitor_events_def Let_def by (auto intro!: r split: prod.split)
  have m: "returns Q' (monitor_tcp_session E c w)" if "\<And>x. Q' x" for Q' w
    using that unfolding monitor_tcp_session_def Let_def by (auto intro!: e split: prod.split)
  show ?thesis using assms(2) by (auto simp: TCP monitor_session_def intro!: m)
qed (use assms(2) in \<open>simp_all add: monitor_session_def\<close>)

lemma count_sessions_return: "\<forall>s \<in> set ss. sess_typed s \<Longrightarrow> count_sessions E ss w \<noteq> None"
proof (induction ss arbitrary: w)
  case (Cons s ss)
  then have "sess_good (\<lambda>_. True) s" by (simp add: sess_typed_good)
  then have "returns (\<lambda>_. True) (monitor_session E s w)" by (rule monitor_session_return) simp
  then obtain recheck s1 w1 where m: "monitor_session E s w = Some (recheck, s1, w1)" by (auto simp: returns_def)
  obtain r where "count_sessions E ss w1 = Some r" using Cons by fastforce
  with m show ?case by (cases r) simp
qed simp

lemma check_sessions_return:
  "\<forall>s \<in> set ss. sess_typed s \<Longrightarrow> m \<noteq> 0 \<Longrightarrow> check_sessions E n m now timeout ss w \<noteq> None"
proof (induction ss arbitrary: timeout w)
  case (Cons s ss)
  then have "sess_good (\<lambda>_. True) s" by (simp add: sess_typed_good)
  then have "returns (\<lambda>_. True) (check_session E n m s w)" using Cons.prems(2) by (rule check_session_return) simp
  then obtain del s1 w1 where c: "check_session E n m s w = Some (del, s1, w1)" by (auto simp: returns_def)
  have "(if live s1 \<and> \<not> del then shorten n m now timeout s1 else Some timeout) \<noteq> None"
    using sess_timeout_return [OF Cons.prems(2), of s1 n] by (auto simp: shorten_def Let_def)
  then obtain t where t: "(if live s1 \<and> \<not> del then shorten n m now timeout s1 else Some timeout) = Some t" by blast
  show ?case using Cons.IH [of t w1] Cons.prems c t by (auto simp del: not_None_eq split: prod.split)
qed simp

lemma check_allowed_return: "\<forall>s \<in> set ss. sess_typed s \<Longrightarrow> check_allowed E ss w \<noteq> None"
proof (induction ss arbitrary: w)
  case (Cons s ss)
  have IH: "\<exists>ss' w'. check_allowed E ss w = Some (ss', w')" for w using Cons by fastforce
  show ?case
  proof (cases s)
    case (TCP c)
    then have "write_rst E (ng_k c) w \<noteq> None"
      using Cons.prems by (simp add: write_rst_defined tcp_typed_def del: not_None_eq)
    then obtain t w1 where t: "write_rst E (ng_k c) w = Some (t, w1)" by auto
    from IH [of w] IH [of w1] show ?thesis by (elim exE) (simp add: TCP t)
  qed (insert IH [of w], elim exE, simp)+
qed simp

lemma prepare_return:
  assumes "settled k ss w" "m \<noteq> 0"
  shows "prepare E m \<lparr>lp_sessions = ss, lp_last_check = since, lp_world = w\<rparr> \<noteq> None"
proof -
  obtain n recheck ss' w' where c: "count_sessions E ss w = Some (n, recheck, ss', w')"
    using count_sessions_return [OF settled_typed [OF assms(1)], of E w] by auto
  have "settled k ss' w'" using settled.count_sessions_inv [OF c, of k "[]"] assms(1) by simp
  from check_sessions_return [OF settled_typed [OF this] assms(2)]
  have "\<exists>t ss2 w2. check_sessions E n m now EPOLL_TIMEOUT ss' w1 = Some (t, ss2, w2)" for now w1
    by fastforce
  then obtain t ss2 w2 where
    "check_sessions E n m (e_time E (w_tick (tick w'))) EPOLL_TIMEOUT ss' (tick (tick w')) = Some (t, ss2, w2)" by blast
  then show ?thesis by (simp add: prepare_def c get_ms_def sys_time_def)
qed

section \<open>Events\<close>

lemma receive_window_return [ret]:
  "tcp_good C (ng_k s) \<Longrightarrow> (\<And>x. Q x) \<Longrightarrow> returns Q (get_receive_window E s w)"
  using good_scale [of C "ng_k s"]
  by (cases "get_receive_buffer E s w") (simp add: get_receive_window_def shl32_def shr32_def Let_def)

lemma tcp_receive_return [ret]:
  assumes "tcp_good C (ng_k s)" "\<And>x. Q x"
  shows "returns Q (tcp_receive E ev s w)"
  using assms unfolding tcp_receive_def tcp_eof_def Let_def
  by (auto intro!: ret simp: sys_defs split: sum.split)

lemma outgoing_return:
  assumes "seg_wf q" "htons (t_dest t) \<noteq> 80" "\<And>x. Q x"
  shows "returns Q (outgoing t q)"
  using assms by (auto simp: outgoing_def Let_def seg_wf_def rd_block_def)

lemma forward_loop_return:
  assumes "tcp_good C t" "\<forall>q \<in> set qs. seg_wf q" "htons (t_dest t) \<noteq> 80"
    "\<And>fwd t' w'. tcp_good C t' \<Longrightarrow> Q (fwd, t', w')"
  shows "returns Q (forward_loop E fd room fwd qs t w)"
  using assms(1-3)
proof (induction qs arbitrary: fwd room t w)
  case Nil
  then have "conn_good C t" by (simp add: tcp_good_def)
  with Nil show ?case by (simp add: assms(4))
next
  case (Cons q qs)
  then have "conn_good C t" by (simp add: tcp_good_def)
  moreover note seg_wf_sent [of q]
  ultimately show ?case
    using Cons unfolding forward_loop.simps Let_def
    by (auto intro!: write_rst_return [where C = C] outgoing_return assms(4) Cons.IH split: prod.split)
qed

lemma tcp_transfer_return:
  assumes "tcp_good C (ng_k s)" "ev AND EPOLLOUT = 0 \<or> htons (t_dest (ng_k s)) \<noteq> 80" "\<And>x. Q x"
  shows "returns Q (tcp_transfer E ev s w)"
proof -
  have f: "returns Q' (tcp_forward E ev s w)" if "\<And>fwd t' w'. tcp_good C t' \<Longrightarrow> Q' (fwd, t', w')" for Q' w
    using that assms(1,2) unfolding tcp_forward_def Let_def
    by (auto intro!: forward_loop_return [where C = C] simp: tcp_good_def split: prod.split)
  have a: "returns Q' (tcp_ack_forwarded E fwd window t w)" if "tcp_good C t" "\<And>t' w'. tcp_good C t' \<Longrightarrow> Q' (t', w')"
    for Q' fwd window t w
    using that unfolding tcp_ack_forwarded_def Let_def sys_time_def by (auto intro!: writes_return [where C = C])
  show ?thesis
    using assms(1,3) unfolding tcp_transfer_def
    by (auto intro!: f a receive_window_return [where C = C] tcp_receive_return [where C = C])
qed

text \<open>
  The events that a TCP session can always handle: not the answer of the proxy, which is read until there is no
  more of it, nor the HTTP requests that are rewritten.
\<close>

definition plain_event :: "u32 \<Rightarrow> tcp_session \<Rightarrow> bool" where
  "plain_event ev t \<longleftrightarrow> ev AND EPOLLERR \<noteq> 0
     \<or> (if t_state t = TCP_LISTEN then ev AND EPOLLIN = 0 else ev AND EPOLLOUT = 0 \<or> htons (t_dest t) \<noteq> 80)"

lemma check_tcp_socket_return:
  assumes "tcp_good C (ng_k s)" "plain_event ev (ng_k s)" "\<And>x. Q x"
  shows "returns Q (check_tcp_socket E ev s w)"
  using assms unfolding check_tcp_socket_def tcp_connected_def plain_event_def Let_def sys_time_def
  by (auto intro!: tcp_transfer_return [where C = C] ret split: if_splits)

lemma icmp_restore_return:
  assumes "6 \<le> length buffer" "n \<le> length buffer"
  shows "icmp_restore u buffer n \<noteq> None"
  using assms by (auto simp: icmp_restore_def wr_block_def rd_block_def Let_def bytes16_def)

lemma check_icmp_socket_return: "check_icmp_socket E ev s w \<noteq> None"
proof -
  let ?u = "(ng_k s)\<lparr>i_time := e_time E (w_tick w)\<rparr>"
  have r: "\<exists>m. icmp_restore ?u (allocated E w1 b (icmp_buffer ?u)) (length b) = Some m" if "length b \<le> icmp_buffer ?u" for w1 b
    using icmp_restore_return [of "allocated E w1 b (icmp_buffer ?u)" "length b" ?u] that
    by (simp add: length_allocated icmp_buffer_bound ICMP4_MAXMSG_def ICMP6_MAXMSG_def split: if_splits)
  obtain res w1 where c: "sys_recv E (ng_socket s) (icmp_buffer ?u) (tick w) = (res, w1)" by fastforce
  show ?thesis
  proof (cases res)
    case (Inl e)
    then show ?thesis using c by (simp add: check_icmp_socket_def sys_time_def Let_def)
  next
    case (Inr b)
    then have "length b \<le> icmp_buffer ?u" using c by (auto simp: sys_recv_def split: if_splits sum.splits)
    from r [OF this, of w1] obtain m where "icmp_restore ?u (allocated E w1 b (icmp_buffer ?u)) (length b) = Some m" by blast
    then show ?thesis using c Inr by (simp add: check_icmp_socket_def sys_time_def Let_def case_prod_beta)
  qed
qed

lemma check_udp_socket_return:
  assumes "ntohs (u_dest (ng_k s)) \<noteq> 53"
  shows "\<exists>s' w'. check_udp_socket E ev s w = Some (s', w') \<and> ng_socket s' = ng_socket s
    \<and> u_dest (ng_k s') = u_dest (ng_k s) \<and> w_tick w \<le> w_tick w'"
  using assms
  by (auto simp: check_udp_socket_def sys_time_def sys_recv_def write_udp_def tun_write_def Let_def split: sum.split)

text \<open>From some call on a socket has nothing to read any more.\<close>

definition quiets :: "env \<Rightarrow> int \<Rightarrow> bool" where
  "quiets E fd \<longleftrightarrow> (\<exists>k. \<forall>w. k \<le> w_tick w \<longrightarrow> \<not> fst (is_readable E fd w))"

lemma drain_udp_return:
  assumes "ntohs (u_dest (ng_k s)) \<noteq> 53" "quiets E (ng_socket s)"
  shows "drain_udp E ev s w \<noteq> None"
proof -
  from assms(2) obtain k where k: "\<And>w. k \<le> w_tick w \<Longrightarrow> \<not> fst (is_readable E (ng_socket s) w)"
    by (auto simp: quiets_def)
  have tick: "w_tick (snd (is_readable E fd w)) = Suc (w_tick w)" for fd w
    by (simp add: is_readable_def is_event_def Let_def case_prod_beta)
  have "drain_udp E ev s' w \<noteq> None" if "ng_socket s' = ng_socket s" "ntohs (u_dest (ng_k s')) \<noteq> 53" for s' w
    using that
  proof (induction "k - w_tick w" arbitrary: s' w rule: less_induct)
    case less
    obtain readable w1 where r: "is_readable E (ng_socket s) w = (readable, w1)" by fastforce
    obtain s2 w2 where c: "check_udp_socket E ev s' w1 = Some (s2, w2)" "ng_socket s2 = ng_socket s"
      "ntohs (u_dest (ng_k s2)) \<noteq> 53" "w_tick w1 \<le> w_tick w2"
      using check_udp_socket_return [OF less.prems(2), of E ev w1] less.prems by auto
    have "drain_udp E ev s2 w2 \<noteq> None" if readable
    proof (rule less.hyps [OF _ c(2,3)])
      have "w_tick w < k" using k [of w] r that by fastforce
      then show "k - w_tick w2 < k - w_tick w" using tick [of "ng_socket s" w] r c(4) by simp
    qed
    then show ?case
      by (subst drain_udp.simps) (simp add: less.prems r c del: not_None_eq)
  qed
  then show ?thesis using assms(1) by simp
qed

text \<open>The sessions and events for which the handler of an event returns.\<close>

fun plain :: "env \<Rightarrow> u32 \<Rightarrow> session \<Rightarrow> bool" where
  "plain E ev (ICMP c) = True"
| "plain E ev (UDP c) = (ntohs (u_dest (ng_k c)) \<noteq> 53 \<and> quiets E (ng_socket c))"
| "plain E ev (TCP c) = plain_event ev (ng_k c)"

lemma session_event_return:
  assumes "sess_typed s" "plain E ev s"
  shows "session_event E ev s w \<noteq> None"
proof (cases s)
  case (ICMP c)
  then show ?thesis using check_icmp_socket_return [of E ev c w] by (auto simp: session_event_def)
next
  case (UDP c)
  then show ?thesis using drain_udp_return [of c E ev w] assms(2) by (auto simp: session_event_def)
next
  case (TCP c)
  then have "tcp_good (\<lambda>_. True) (ng_k c)" using assms(1) by (simp add: tcp_good_typed)
  then have "returns (\<lambda>_. True) (check_tcp_socket E ev c w)"
    by (rule check_tcp_socket_return) (use assms(2) TCP in simp_all)
  then show ?thesis by (auto simp: TCP session_event_def returns_def)
qed

section \<open>Property\<close>

text \<open>
  C5. The engine does not get stuck in its own work, whatever the kernel answers. In every reachable state, with
  a limit of sessions other than zero, what the loop does before it waits (counting and monitoring, and the check
  of all sessions) returns, and so does the whole turn when the wait brings no event; the start of the loop
  returns; and an event is handled and returns for every session of ICMP, for every session of UDP that is not of port 53
  once its socket has nothing more to read, and for every session of TCP, but for the answer of the
  proxy and HTTP requests that are forwarded.
\<close>

theorem engine_work_returns:
  assumes "engine ss w" and "m \<noteq> 0"
  shows "(\<exists>n wait st. prepare E m \<lparr>lp_sessions = ss, lp_last_check = since, lp_world = w\<rparr> = Some (n, wait, st)
      \<and> (e_epoll_wait E (w_tick (lp_world st)) \<in> range Inl \<union> {Inr []} \<longrightarrow>
          turn E args tun m \<lparr>lp_sessions = ss, lp_last_check = since, lp_world = w\<rparr> \<noteq> None))
    \<and> check_allowed E ss w \<noteq> None
    \<and> (\<forall>s \<in> set ss. plain E ev s \<longrightarrow> session_event E ev s w1 \<noteq> None)"
proof -
  have t: "\<forall>s \<in> set ss. sess_typed s" by (rule settled_typed [OF engine_settled [OF assms(1)]])
  obtain n wait st where p: "prepare E m \<lparr>lp_sessions = ss, lp_last_check = since, lp_world = w\<rparr> = Some (n, wait, st)"
    using prepare_return [OF engine_settled [OF assms(1)] assms(2), of E since] by auto
  have "turn E args tun m \<lparr>lp_sessions = ss, lp_last_check = since, lp_world = w\<rparr> \<noteq> None"
    if "e_epoll_wait E (w_tick (lp_world st)) \<in> range Inl \<union> {Inr []}"
    using that by (auto simp: turn_def p epoll_wait_def)
  then show ?thesis using p check_allowed_return [OF t] session_event_return t by blast
qed

theorem engine_work_returns_witness:
  "prepare lively 1000 \<lparr>lp_sessions = [TCP (lively_session lively_accepted 12)], lp_last_check = 0, lp_world = lively_greeted\<rparr> \<noteq> None
    \<and> session_event lively EPOLLIN (TCP (lively_session lively_accepted 12)) lively_greeted \<noteq> None"
proof -
  have "plain lively EPOLLIN (TCP (lively_session lively_accepted 12))"
    by (simp add: plain_event_def lively_session_def lively_accepted_def epoll_bits)
  moreover note engine_work_returns [OF lively_engine, of 1000 lively 0 sample_args 3 EPOLLIN lively_greeted]
  moreover have "(1000 :: int) \<noteq> 0" "TCP (lively_session lively_accepted 12) \<in> set [TCP (lively_session lively_accepted 12)]"
    by simp_all
  ultimately show ?thesis by (metis option.distinct(1))
qed

end
